(* ===== verification/Prelude.thy ===== *)
theory Prelude
  imports Main "HOL-Library.Word" "HOL-Library.Monad_Syntax" "HOL-Library.Signed_Division"
begin

text \<open>
  The types and the machine conventions that every other theory shares.

  The kernel is freestanding 32-bit C without an operating system below it, so its
  memory is the flat memory of the machine: \<open>mem\<close> maps an address to a byte.  Addresses are
  mathematical integers (the value of the 32-bit pointer, so that the error pointers
  \<open>(void*)(-EIO)\<close> of the file system are the negative ones); C's \<open>int\<close> is an \<open>int\<close> with the
  wrap-around \<open>s32\<close> written where an operation can leave the 32-bit range, an unsigned
  32-bit value one with \<open>u32\<close>; the fields of packed structures keep their width as words.
  C's truncating \<open>/\<close> and \<open>%\<close> are \<open>sdiv\<close> and \<open>smod\<close>.  Plain \<open>char\<close> is signed on the i686
  target, so an order on characters compares \<open>sint\<close> values.

  A function that may fail to return (a loop over memory with no terminator, a device that
  never gets ready, a use of a pointer that denotes no live object) has an \<open>option\<close> result, and
  \<open>None\<close> stands for that; the error codes of the source are ordinary values.
\<close>

unbundle bit_operations_syntax

named_theorems c_simps \<open>evaluation of C integer operations in range\<close>
named_theorems mem_simps \<open>reading memory after writing it\<close>

type_synonym byte = "8 word"
type_synonym addr = int
type_synonym mem = "addr \<Rightarrow> byte"

section \<open>C integers\<close>

definition s32 :: "int \<Rightarrow> int" where
  "s32 x = (x + 2147483648) mod 4294967296 - 2147483648"

definition u32 :: "int \<Rightarrow> int" where
  "u32 x = x mod 4294967296"

abbreviation in_s32 :: "int \<Rightarrow> bool" where
  "in_s32 x \<equiv> - 2147483648 \<le> x \<and> x < 2147483648"

lemma s32_id [c_simps, simp]: "- 2147483648 \<le> x \<Longrightarrow> x < 2147483648 \<Longrightarrow> s32 x = x"
  by (simp add: s32_def)

lemma u32_id [c_simps, simp]: "0 \<le> x \<Longrightarrow> x < 4294967296 \<Longrightarrow> u32 x = x"
  by (simp add: u32_def)

lemma s32_range: "- 2147483648 \<le> s32 x" "s32 x < 2147483648"
  by (simp_all add: s32_def)

lemma u32_range: "0 \<le> u32 x" "u32 x < 4294967296"
  by (simp_all add: u32_def)

lemma s32_u32 [simp]: "s32 (u32 x) = s32 x"
  by (simp add: s32_def u32_def mod_add_left_eq)

lemma u32_neg: "- 4294967296 \<le> x \<Longrightarrow> x < 0 \<Longrightarrow> u32 x = x + 4294967296"
  unfolding u32_def by (rule mod_pos_pos_trivial [of "x + 4294967296" 4294967296, simplified])
     simp_all

lemma sdiv_nonneg [c_simps]: "0 \<le> a \<Longrightarrow> 0 \<le> b \<Longrightarrow> a sdiv b = a div b" for a b :: int
  by (cases "a = 0"; cases "b = 0") (auto simp: signed_divide_int_def)

lemma smod_nonneg [c_simps]: "0 \<le> a \<Longrightarrow> 0 \<le> b \<Longrightarrow> a smod b = a mod b" for a b :: int
  by (cases "a = 0"; cases "b = 0") (auto simp: signed_modulo_int_def)

lemma smod_pos_upper: "0 < b \<Longrightarrow> a smod b < b" for a b :: int
proof (cases "0 \<le> a")
  case True
  then show "0 < b \<Longrightarrow> ?thesis" by (simp add: smod_nonneg)
next
  case False
  assume b: "0 < b"
  then have "0 \<le> - a mod b" by simp
  then have "- (- a mod b) < b" using b by linarith
  with False b show ?thesis by (simp add: signed_modulo_int_def)
qed

section \<open>Bytes and little-endian fields\<close>

definition le16 :: "byte \<Rightarrow> byte \<Rightarrow> 16 word" where
  "le16 b0 b1 = word_of_int (uint b0 + 256 * uint b1)"

definition le32 :: "byte \<Rightarrow> byte \<Rightarrow> byte \<Rightarrow> byte \<Rightarrow> 32 word" where
  "le32 b0 b1 b2 b3 =
     word_of_int (uint b0 + 256 * uint b1 + 65536 * uint b2 + 16777216 * uint b3)"

lemma uint_byte_range [simp]: "uint (b :: byte) < 256" "uint (b :: byte) \<le> 255"
  using uint_lt2p [of b] by simp_all

lemma sint_byte_range: "- 128 \<le> sint (b :: byte)" "sint (b :: byte) < 128"
  using sint_ge [of b] sint_lt [of b] by simp_all

lemma uint16_range [simp]: "uint (w :: 16 word) < 65536" "uint (w :: 16 word) \<le> 65535"
  using uint_lt2p [of w] by simp_all

lemma uint32_range [simp]: "uint (w :: 32 word) < 4294967296" "uint (w :: 32 word) \<le> 4294967295"
  using uint_lt2p [of w] by simp_all

lemma uint_le16: "uint (le16 b0 b1) = uint b0 + 256 * uint b1"
proof -
  have "0 \<le> uint b0 + 256 * uint b1 \<and> uint b0 + 256 * uint b1 < 65536"
    using uint_byte_range(1) [of b0] uint_byte_range(1) [of b1] uint_ge_0 [of b0] uint_ge_0 [of b1]
    by linarith
  then show ?thesis
    unfolding le16_def uint_word_of_int by (subst mod_pos_pos_trivial) simp_all
qed

lemma uint_le32:
  "uint (le32 b0 b1 b2 b3) = uint b0 + 256 * uint b1 + 65536 * uint b2 + 16777216 * uint b3"
proof -
  let ?v = "uint b0 + 256 * uint b1 + 65536 * uint b2 + 16777216 * uint b3"
  have "0 \<le> ?v \<and> ?v < 4294967296"
    using uint_byte_range(1) [of b0] uint_byte_range(1) [of b1]
      uint_byte_range(1) [of b2] uint_byte_range(1) [of b3]
      uint_ge_0 [of b0] uint_ge_0 [of b1] uint_ge_0 [of b2] uint_ge_0 [of b3]
    by linarith
  then show ?thesis
    unfolding le32_def uint_word_of_int by (subst mod_pos_pos_trivial) simp_all
qed

lemma sint_byte_inj [simp]: "sint (a :: byte) = sint b \<longleftrightarrow> a = b"
  using word_eq_iff_signed [of a b] by blast

lemma uint_eq_sint: "0 \<le> sint (b :: byte) \<Longrightarrow> uint b = sint b"
  using sint_byte_range(2) [of b] by (simp add: uint_sint take_bit_int_eq_self_iff)

lemma ex_int_first:
  "j < n \<Longrightarrow> (\<exists>k. j \<le> k \<and> k < n \<and> P k) \<longleftrightarrow> P j \<or> (\<exists>k. j + 1 \<le> k \<and> k < n \<and> P k)"
  for j n :: int
proof -
  assume "j < n"
  moreover have "j \<le> k \<longleftrightarrow> k = j \<or> j + 1 \<le> k" for k by linarith
  ultimately show ?thesis by auto
qed

section \<open>Masks, shifts and truncations, read as numbers\<close>

lemma uint_and_mask: "uint (w AND mask n) = uint w mod 2 ^ n" for w :: "'a::len word"
proof -
  have "uint (w AND mask n) = take_bit n (uint w)"
    by (metis take_bit_eq_mask unsigned_take_bit_eq)
  then show ?thesis by (simp only: take_bit_int_def)
qed

lemma uint_and_low [c_simps]:
  "uint (w AND 0xFFFF) = uint w mod 65536"
  "uint (w AND 0xFFF) = uint w mod 4096"
  "uint (w AND 0xFF) = uint w mod 256"
  "uint (w AND 0x0F) = uint w mod 16" for w :: "32 word"
  using uint_and_mask [of w 16] uint_and_mask [of w 12] uint_and_mask [of w 8] uint_and_mask [of w 4]
  by (simp_all add: mask_numeral)

lemma uint_drop_bit [c_simps]: "uint (drop_bit n w) = uint w div 2 ^ n" for w :: "'a::len word"
proof -
  have "uint (drop_bit n w) = drop_bit n (uint w)"
    using uint_lt2p [of w] by (simp add: unsigned_drop_bit_eq take_bit_int_eq_self)
  then show ?thesis by (simp only: drop_bit_int_def)
qed

lemma uint_ucast [c_simps]:
  "uint (ucast w :: 'b::len word) = uint w mod 2 ^ LENGTH('b)" for w :: "'a::len word"
  by (simp add: unsigned_ucast_eq take_bit_int_def)

section \<open>Flat memory\<close>

text \<open>\<open>at m p\<close> is the C expression \<open>p\<close> as an array: \<open>at m p i\<close> is \<open>p[i]\<close>.\<close>

definition at :: "mem \<Rightarrow> addr \<Rightarrow> int \<Rightarrow> byte" where
  "at m p i = m (p + i)"

text \<open>\<open>write_bytes m p bs\<close> stores the bytes of \<open>bs\<close> at \<open>p\<close>, \<open>p + 1\<close>, and so on.\<close>

definition write_bytes :: "mem \<Rightarrow> addr \<Rightarrow> byte list \<Rightarrow> mem" where
  "write_bytes m p bs =
     (\<lambda>a. if p \<le> a \<and> a < p + int (length bs) then bs ! nat (a - p) else m a)"

definition read_bytes :: "mem \<Rightarrow> addr \<Rightarrow> nat \<Rightarrow> byte list" where
  "read_bytes m p n = map (\<lambda>i. m (p + int i)) [0..<n]"

lemma write_bytes_Nil [mem_simps, simp]: "write_bytes m p [] = m"
  by (rule ext) (auto simp: write_bytes_def)

lemma write_bytes_in [mem_simps]:
  "p \<le> a \<Longrightarrow> a < p + int (length bs) \<Longrightarrow> write_bytes m p bs a = bs ! nat (a - p)"
  by (simp add: write_bytes_def)

lemma write_bytes_out [mem_simps]:
  "a < p \<or> p + int (length bs) \<le> a \<Longrightarrow> write_bytes m p bs a = m a"
  by (auto simp: write_bytes_def)

lemma write_bytes_append:
  "write_bytes (write_bytes m p xs) (p + int (length xs)) ys = write_bytes m p (xs @ ys)"
proof (rule ext)
  fix a
  show "write_bytes (write_bytes m p xs) (p + int (length xs)) ys a = write_bytes m p (xs @ ys) a"
  proof (cases "p + int (length xs) \<le> a")
    case True
    then have "nat (a - (p + int (length xs))) = nat (a - p) - length xs"
      "\<not> nat (a - p) < length xs" by linarith+
    with True show ?thesis by (simp add: write_bytes_def nth_append)
  next
    case False
    then have "p \<le> a \<Longrightarrow> nat (a - p) < length xs" by linarith
    with False show ?thesis by (auto simp: write_bytes_def nth_append)
  qed
qed

lemma write_bytes_Cons: "write_bytes m p (b # bs) = write_bytes (m(p := b)) (p + 1) bs"
proof -
  have "write_bytes m p [b] = m(p := b)"
    by (rule ext) (auto simp: write_bytes_def)
  then show ?thesis using write_bytes_append [of m p "[b]" bs] by simp
qed

lemma length_read_bytes [simp]: "length (read_bytes m p n) = n"
  by (simp add: read_bytes_def)

lemma nth_read_bytes [simp]: "i < n \<Longrightarrow> read_bytes m p n ! i = m (p + int i)"
  by (simp add: read_bytes_def)

lemma read_bytes_write_same [mem_simps, simp]:
  "n = length bs \<Longrightarrow> read_bytes (write_bytes m p bs) p n = bs"
  by (auto intro!: nth_equalityI simp: write_bytes_def)

lemma read_bytes_write_disjoint [mem_simps]:
  "p + int n \<le> q \<or> q + int (length bs) \<le> p \<Longrightarrow>
     read_bytes (write_bytes m q bs) p n = read_bytes m p n"
  by (auto intro!: nth_equalityI simp: write_bytes_def)

lemma read_bytes_add: "read_bytes m p (n + k) = read_bytes m p n @ read_bytes m (p + int n) k"
  by (auto intro!: nth_equalityI simp: nth_append)

section \<open>Little-endian words in memory\<close>

definition bytes32 :: "32 word \<Rightarrow> byte list" where
  "bytes32 w = [ucast w, ucast (drop_bit 8 w), ucast (drop_bit 16 w), ucast (drop_bit 24 w)]"

definition load32 :: "mem \<Rightarrow> addr \<Rightarrow> 32 word" where
  "load32 m a = le32 (m a) (m (a + 1)) (m (a + 2)) (m (a + 3))"

definition store32 :: "mem \<Rightarrow> addr \<Rightarrow> 32 word \<Rightarrow> mem" where
  "store32 m a w = write_bytes m a (bytes32 w)"

lemma div_byte_steps: "x div 65536 = x div 256 div 256" "x div 16777216 = x div 256 div 256 div 256"
  for x :: int
  using zdiv_zmult2_eq [of 256 x 256] zdiv_zmult2_eq [of 256 x 65536] by simp_all

lemma le32_bytes32:
  "le32 (ucast w) (ucast (drop_bit 8 w)) (ucast (drop_bit 16 w)) (ucast (drop_bit 24 w)) = w"
proof -
  let ?x = "uint w" and ?a = "uint w div 256" and ?b = "uint w div 256 div 256"
  let ?c = "uint w div 256 div 256 div 256"
  have "?c < 256" "0 \<le> ?c" using uint32_range(1) [of w] uint_ge_0 [of w] by linarith+
  then have "?c mod 256 = ?c" by simp
  moreover have "?x = 256 * ?a + ?x mod 256" "?a = 256 * ?b + ?a mod 256" "?b = 256 * ?c + ?b mod 256"
    by simp_all
  ultimately have "?x mod 256 + 256 * (?a mod 256) + 65536 * (?b mod 256) + 16777216 * (?c mod 256) = ?x"
    by linarith
  then show ?thesis
    by (simp add: word_uint_eq_iff uint_le32 c_simps div_byte_steps)
qed

lemma load32_store32 [mem_simps, simp]: "load32 (store32 m a w) a = w"
proof -
  have "store32 m a w (a + 1) = ucast (drop_bit 8 w)" "store32 m a w (a + 2) = ucast (drop_bit 16 w)"
    "store32 m a w (a + 3) = ucast (drop_bit 24 w)" "store32 m a w a = ucast w"
    by (simp_all add: store32_def write_bytes_in bytes32_def nat_add_distrib numeral_2_eq_2 numeral_3_eq_3)
  then show ?thesis by (simp only: load32_def le32_bytes32)
qed

lemma store32_out [mem_simps]: "b < a \<or> a + 4 \<le> b \<Longrightarrow> store32 m a w b = m b"
  by (simp add: store32_def write_bytes_out bytes32_def)

lemma load32_cong:
  "(\<And>b. a \<le> b \<Longrightarrow> b < a + 4 \<Longrightarrow> m b = m' b) \<Longrightarrow> load32 m a = load32 m' a"
  by (simp add: load32_def)

lemma load32_store32_other [mem_simps]:
  "a + 4 \<le> b \<or> b + 4 \<le> a \<Longrightarrow> load32 (store32 m b w) a = load32 m a"
  by (rule load32_cong) (auto intro: store32_out)

section \<open>Runs and simulation\<close>

text \<open>
  \<open>runs step s es s'\<close>: the labelled step relation leads from \<open>s\<close> to \<open>s'\<close> along the events \<open>es\<close>.
\<close>

inductive runs :: "('s \<Rightarrow> 'e \<Rightarrow> 's \<Rightarrow> bool) \<Rightarrow> 's \<Rightarrow> 'e list \<Rightarrow> 's \<Rightarrow> bool"
  for step :: "'s \<Rightarrow> 'e \<Rightarrow> 's \<Rightarrow> bool" where
  runs_Nil [intro]: "runs step s [] s"
| runs_Cons [intro]: "step s e s' \<Longrightarrow> runs step s' es s'' \<Longrightarrow> runs step s (e # es) s''"

inductive_simps runs_Nil_iff [simp]: "runs step s [] s'"
inductive_simps runs_Cons_iff: "runs step s (e # es) s'"

lemma runs_append: "runs step s es s' \<Longrightarrow> runs step s' fs s'' \<Longrightarrow> runs step s (es @ fs) s''"
  by (induction rule: runs.induct) auto

text \<open>
  An abstraction function relates two such systems under an invariant of the concrete one when
  every concrete step is the abstract step of the same label.
\<close>

locale simulation =
  fixes cstep :: "'c \<Rightarrow> 'e \<Rightarrow> 'c \<Rightarrow> bool"
    and astep :: "'a \<Rightarrow> 'e \<Rightarrow> 'a \<Rightarrow> bool"
    and absf :: "'c \<Rightarrow> 'a"
    and inv :: "'c \<Rightarrow> bool"
  assumes step_inv: "inv s \<Longrightarrow> cstep s e s' \<Longrightarrow> inv s'"
    and step_abs: "inv s \<Longrightarrow> cstep s e s' \<Longrightarrow> astep (absf s) e (absf s')"
begin

lemma runs_inv: "runs cstep s es s' \<Longrightarrow> inv s \<Longrightarrow> inv s'"
  by (induction rule: runs.induct) (auto intro: step_inv)

lemma runs_abs: "runs cstep s es s' \<Longrightarrow> inv s \<Longrightarrow> runs astep (absf s) es (absf s')"
  by (induction rule: runs.induct) (auto intro: step_inv step_abs)

end

section \<open>Sequences of calls\<close>

text \<open>The results of a sequence of calls, each a partial function of the state.\<close>

fun execs :: "('s \<Rightarrow> 'op \<Rightarrow> ('r \<times> 's) option) \<Rightarrow> 's \<Rightarrow> 'op list \<Rightarrow> ('r list \<times> 's) option" where
  "execs exec s [] = Some ([], s)"
| "execs exec s (op # ops) =
     (case exec s op of
        None \<Rightarrow> None
      | Some (r, s') \<Rightarrow>
          (case execs exec s' ops of None \<Rightarrow> None | Some (rs, s'') \<Rightarrow> Some (r # rs, s'')))"

text \<open>
  An implementation gives the results of its specification wherever that is defined, as long as there are resources
  for the cost of the calls.
\<close>

locale implementation =
  fixes cexec :: "'c \<Rightarrow> 'op \<Rightarrow> ('r \<times> 'c) option"
    and aexec :: "'a \<Rightarrow> 'op \<Rightarrow> ('r \<times> 'a) option"
    and cost :: "'op \<Rightarrow> nat"
    and rel :: "nat \<Rightarrow> 'c \<Rightarrow> 'a \<Rightarrow> bool"
  assumes implements: "rel (cost op + k) c a \<Longrightarrow> aexec a op = Some (r, a') \<Longrightarrow> \<exists>c'. cexec c op = Some (r, c') \<and> rel k c' a'"
begin

lemma execs_implement:
  "rel (sum_list (map cost ops) + k) c a \<Longrightarrow> execs aexec a ops = Some (rs, a') \<Longrightarrow>
     \<exists>c'. execs cexec c ops = Some (rs, c') \<and> rel k c' a'"
proof (induction ops arbitrary: c a rs)
  case Nil
  then show ?case by simp
next
  case (Cons op ops)
  obtain r a1 rs' where a: "aexec a op = Some (r, a1)" "execs aexec a1 ops = Some (rs', a')" "rs = r # rs'"
    using Cons.prems(2) by (auto split: option.splits prod.splits)
  have "rel (cost op + (sum_list (map cost ops) + k)) c a" using Cons.prems(1) by (simp add: add.assoc)
  then obtain c1 where "cexec c op = Some (r, c1)" "rel (sum_list (map cost ops) + k) c1 a1"
    using implements a(1) by blast
  then show ?case using Cons.IH [OF _ a(2)] a(3) by fastforce
qed

end

end
