(* ===== verification/Config.thy ===== *)
theory Config
  imports Prelude
begin

text \<open>
  The constants of \<open>config.h\<close>.  They are declared as simplification rules, so that proofs
  and evaluations see the numerals.
\<close>

definition KERNEL_CODE_SELECTOR :: int where [simp]: "KERNEL_CODE_SELECTOR = 0x8"
definition KERNEL_DATA_SELECTOR :: int where [simp]: "KERNEL_DATA_SELECTOR = 0x10"
definition OS_TOTAL_INTERRUPTS :: nat where [simp]: "OS_TOTAL_INTERRUPTS = 512"
definition DISK_SECTOR_SIZE :: int where [simp]: "DISK_SECTOR_SIZE = 512"

definition KERNEL_HEAP_SIZE_IN_BYTES :: int where [simp]: "KERNEL_HEAP_SIZE_IN_BYTES = 0x6400000"
definition KERNEL_HEAP_BLOCK_SIZE :: int where [simp]: "KERNEL_HEAP_BLOCK_SIZE = 4096"
definition KERNEL_HEAP_ADDRESS :: addr where [simp]: "KERNEL_HEAP_ADDRESS = 0x01000000"
definition KERNEL_HEAP_TABLE_ADDRESS :: addr where [simp]: "KERNEL_HEAP_TABLE_ADDRESS = 0x7E00"

definition MAX_FILESYSTEMS :: nat where [simp]: "MAX_FILESYSTEMS = 12"
definition MAX_FILEDESCRIPTORS :: nat where [simp]: "MAX_FILEDESCRIPTORS = 512"

definition OK :: int where [simp]: "OK = 0"
definition EIO :: int where [simp]: "EIO = 1"
definition EINVARG :: int where [simp]: "EINVARG = 2"
definition ENOMEM :: int where [simp]: "ENOMEM = 3"
definition EFSNOTUS :: int where [simp]: "EFSNOTUS = 4"
definition ERDONLY :: int where [simp]: "ERDONLY = 5"
definition EUNIMP :: int where [simp]: "EUNIMP = 99"

definition KERNEL_TOTAL_GDT_SEGMENTS :: nat where [simp]: "KERNEL_TOTAL_GDT_SEGMENTS = 6"

end
