(* ===== verification/Memory.thy ===== *)
theory Memory
  imports Config
begin

text \<open>
  \<open>memory/memory.c\<close>: \<open>memset\<close>, \<open>memcmp\<close> and \<open>memcpy\<close> as the byte loops they are, and
  the closed forms of their effects that the other components use.  The loop counters
  are natural numbers: a \<open>size_t\<close> is never negative.  \<open>memset\<close> also returns its first
  argument, which no caller reads, so the model returns the memory only.
\<close>

section \<open>The loops\<close>

function memset_loop :: "mem \<Rightarrow> addr \<Rightarrow> byte \<Rightarrow> nat \<Rightarrow> nat \<Rightarrow> mem" where
  "memset_loop m p c sz i =
     (if i < sz then memset_loop (m(p + int i := c)) p c sz (Suc i) else m)"
  by pat_completeness auto
termination
  by (relation "measure (\<lambda>(m, p, c, sz, i). sz - i)") auto

declare memset_loop.simps [simp del]

definition memset :: "mem \<Rightarrow> addr \<Rightarrow> int \<Rightarrow> nat \<Rightarrow> mem" where
  "memset m ptr c sz = memset_loop m ptr (word_of_int c) sz 0"

text \<open>\<open>memcmp\<close> only reads; its pointers are given as the arrays they point to.\<close>

function memcmp_loop :: "(int \<Rightarrow> byte) \<Rightarrow> (int \<Rightarrow> byte) \<Rightarrow> nat \<Rightarrow> nat \<Rightarrow> int" where
  "memcmp_loop l r sz i =
     (if i < sz then
        if l (int i) \<noteq> r (int i)
        then (if sint (l (int i)) < sint (r (int i)) then - 1 else 1)
        else memcmp_loop l r sz (Suc i)
      else 0)"
  by pat_completeness auto
termination
  by (relation "measure (\<lambda>(l, r, sz, i). sz - i)") auto

declare memcmp_loop.simps [simp del]

definition memcmp :: "(int \<Rightarrow> byte) \<Rightarrow> (int \<Rightarrow> byte) \<Rightarrow> nat \<Rightarrow> int" where
  "memcmp lhs rhs sz = memcmp_loop lhs rhs sz 0"

function memcpy_loop :: "mem \<Rightarrow> addr \<Rightarrow> addr \<Rightarrow> nat \<Rightarrow> nat \<Rightarrow> mem" where
  "memcpy_loop m d s sz i =
     (if i < sz then memcpy_loop (m(d + int i := m (s + int i))) d s sz (Suc i) else m)"
  by pat_completeness auto
termination
  by (relation "measure (\<lambda>(m, d, s, sz, i). sz - i)") auto

declare memcpy_loop.simps [simp del]

definition memcpy :: "mem \<Rightarrow> addr \<Rightarrow> addr \<Rightarrow> nat \<Rightarrow> mem" where
  "memcpy m dest src sz = memcpy_loop m dest src sz 0"

section \<open>What they compute\<close>

lemma memset_loop_eq:
  "memset_loop m p c sz i =
     (\<lambda>a. if p + int i \<le> a \<and> a < p + int sz then c else m a)"
proof (induction m p c sz i rule: memset_loop.induct)
  case (1 m p c sz i)
  show ?case
  proof (cases "i < sz")
    case True
    let ?m = "m(p + int i := c)"
    have "memset_loop m p c sz i = memset_loop ?m p c sz (Suc i)"
      using True by (subst memset_loop.simps) simp
    also have "\<dots> = (\<lambda>a. if p + int (Suc i) \<le> a \<and> a < p + int sz then c else ?m a)"
      by (rule "1.IH" [OF True])
    also have "\<dots> = (\<lambda>a. if p + int i \<le> a \<and> a < p + int sz then c else m a)"
      using True by (auto simp: fun_eq_iff)
    finally show ?thesis .
  next
    case False
    then show ?thesis by (subst memset_loop.simps) (auto simp: fun_eq_iff)
  qed
qed

lemma memset_eq:
  "memset m p c sz = (\<lambda>a. if p \<le> a \<and> a < p + int sz then word_of_int c else m a)"
  by (simp add: memset_def memset_loop_eq)

lemma memset_in [mem_simps]:
  "p \<le> a \<Longrightarrow> a < p + int sz \<Longrightarrow> memset m p c sz a = word_of_int c"
  by (simp add: memset_eq)

lemma memset_out [mem_simps]:
  "a < p \<or> p + int sz \<le> a \<Longrightarrow> memset m p c sz a = m a"
  by (auto simp: memset_eq)

lemma memset_append:
  "memset (memset m p c n) (p + int n) c k = memset m p c (n + k)"
  by (auto simp: memset_eq fun_eq_iff)

text \<open>
  A forward copy is right whenever the destination does not start inside the rest of the
  source: \<open>d \<le> s\<close>, or the ranges are disjoint.
\<close>

lemma memcpy_loop_eq:
  "d \<le> s \<or> s + int sz \<le> d \<Longrightarrow>
     memcpy_loop m d s sz i =
       (\<lambda>a. if d + int i \<le> a \<and> a < d + int sz then m (s + (a - d)) else m a)"
proof (induction m d s sz i rule: memcpy_loop.induct)
  case (1 m d s sz i)
  show ?case
  proof (cases "i < sz")
    case True
    let ?m = "m(d + int i := m (s + int i))"
    have "memcpy_loop m d s sz i = memcpy_loop ?m d s sz (Suc i)"
      using True by (subst memcpy_loop.simps) simp
    also have "\<dots> =
        (\<lambda>a. if d + int (Suc i) \<le> a \<and> a < d + int sz then ?m (s + (a - d)) else ?m a)"
      by (rule "1.IH" [OF True "1.prems"])
    also have "\<dots> = (\<lambda>a. if d + int i \<le> a \<and> a < d + int sz then m (s + (a - d)) else m a)"
      using "1.prems" True by (auto simp: fun_eq_iff)
    finally show ?thesis .
  next
    case False
    then show ?thesis by (subst memcpy_loop.simps) (auto simp: fun_eq_iff)
  qed
qed

lemma memcpy_eq:
  "d \<le> s \<or> s + int sz \<le> d \<Longrightarrow> memcpy m d s sz = write_bytes m d (read_bytes m s sz)"
  by (auto simp: memcpy_def memcpy_loop_eq write_bytes_def fun_eq_iff)

lemma memcmp_loop_equal:
  "i \<le> sz \<Longrightarrow> (\<And>j. i \<le> j \<Longrightarrow> j < sz \<Longrightarrow> l (int j) = r (int j)) \<Longrightarrow> memcmp_loop l r sz i = 0"
proof (induction l r sz i rule: memcmp_loop.induct)
  case (1 l r sz i)
  then show ?case by (subst memcmp_loop.simps) auto
qed

lemma memcmp_loop_diff:
  "i \<le> k \<Longrightarrow> k < sz \<Longrightarrow> (\<And>j. i \<le> j \<Longrightarrow> j < k \<Longrightarrow> l (int j) = r (int j)) \<Longrightarrow>
     l (int k) \<noteq> r (int k) \<Longrightarrow>
     memcmp_loop l r sz i = (if sint (l (int k)) < sint (r (int k)) then - 1 else 1)"
proof (induction l r sz i rule: memcmp_loop.induct)
  case (1 l r sz i)
  show ?case
  proof (cases "i = k")
    case True
    with 1 show ?thesis by (subst memcmp_loop.simps) auto
  next
    case False
    with 1 show ?thesis by (subst memcmp_loop.simps) auto
  qed
qed

lemma memcmp_first_diff:
  "k < sz \<Longrightarrow> (\<And>j. j < k \<Longrightarrow> l (int j) = r (int j)) \<Longrightarrow> l (int k) \<noteq> r (int k) \<Longrightarrow>
     memcmp l r sz = (if sint (l (int k)) < sint (r (int k)) then - 1 else 1)"
  unfolding memcmp_def by (rule memcmp_loop_diff) auto

lemma memcmp_eq_0_iff: "memcmp l r sz = 0 \<longleftrightarrow> (\<forall>j < sz. l (int j) = r (int j))"
proof
  assume eq: "memcmp l r sz = 0"
  show "\<forall>j < sz. l (int j) = r (int j)"
  proof (rule ccontr)
    assume "\<not> (\<forall>j < sz. l (int j) = r (int j))"
    then obtain j where j: "j < sz" "l (int j) \<noteq> r (int j)" by blast
    define k where "k = (LEAST j. l (int j) \<noteq> r (int j))"
    have "l (int k) \<noteq> r (int k)" and "k \<le> j" and "\<And>i. i < k \<Longrightarrow> l (int i) = r (int i)"
      using j LeastI [of "\<lambda>j. l (int j) \<noteq> r (int j)" j] unfolding k_def
      by (auto intro: Least_le dest: not_less_Least)
    with memcmp_first_diff [of k sz l r] j eq show False by (auto split: if_splits)
  qed
next
  assume "\<forall>j < sz. l (int j) = r (int j)"
  then show "memcmp l r sz = 0" by (auto simp: memcmp_def intro: memcmp_loop_equal)
qed

end
