(* ===== verification/Strings.thy ===== *)
theory Strings
  imports Memory
begin

text \<open>
  \<open>string/string.c\<close>.  A string that is only read is given as the array its pointer
  denotes (\<open>at m p\<close>, or the bytes of a local buffer); functions that write take and return
  the memory.  The loops that run to a terminator are \<open>partial_function\<close>s: without a
  terminator the code never returns.  \<open>is_cstring s xs\<close> relates an array to the list of
  characters before its terminator; the lemmas state each function over such lists.
\<close>

section \<open>Length and copy\<close>

partial_function (option) strlen_loop :: "(int \<Rightarrow> byte) \<Rightarrow> nat \<Rightarrow> nat option" where
  "strlen_loop s i = (if s (int i) \<noteq> 0 then strlen_loop s (Suc i) else Some i)"

definition strlen :: "(int \<Rightarrow> byte) \<Rightarrow> nat option" where
  "strlen s = strlen_loop s 0"

partial_function (option) strlen_terminator_loop ::
    "(int \<Rightarrow> byte) \<Rightarrow> byte \<Rightarrow> nat \<Rightarrow> nat option" where
  "strlen_terminator_loop s terminator i =
     (if s (int i) \<noteq> 0 \<and> s (int i) \<noteq> terminator
      then strlen_terminator_loop s terminator (Suc i) else Some i)"

definition strlen_terminator :: "(int \<Rightarrow> byte) \<Rightarrow> byte \<Rightarrow> nat option" where
  "strlen_terminator s terminator = strlen_terminator_loop s terminator 0"

text \<open>\<open>strcpy\<close> returns the address of the terminator it wrote, not the destination.\<close>

partial_function (option) strcpy_loop :: "mem \<Rightarrow> addr \<Rightarrow> addr \<Rightarrow> (addr \<times> mem) option" where
  "strcpy_loop m s r =
     (if m s \<noteq> 0 then strcpy_loop (m(r := m s)) (s + 1) (r + 1) else Some (r, m(r := 0)))"

definition strcpy :: "mem \<Rightarrow> addr \<Rightarrow> addr \<Rightarrow> (addr \<times> mem) option" where
  "strcpy m dst src = strcpy_loop m src dst"

section \<open>Comparison and character classes\<close>

function strncmp_loop :: "(int \<Rightarrow> byte) \<Rightarrow> (int \<Rightarrow> byte) \<Rightarrow> int \<Rightarrow> nat \<Rightarrow> int" where
  "strncmp_loop lhs rhs len i =
     (if int i < len then
        if lhs (int i) \<noteq> rhs (int i)
        then (if sint (lhs (int i)) - sint (rhs (int i)) > 0 then 1 else - 1)
        else if lhs (int i) = 0 then 0
        else strncmp_loop lhs rhs len (Suc i)
      else 0)"
  by pat_completeness auto
termination
  by (relation "measure (\<lambda>(lhs, rhs, len, i). nat (len - int i))") auto

declare strncmp_loop.simps [simp del]

definition strncmp :: "(int \<Rightarrow> byte) \<Rightarrow> (int \<Rightarrow> byte) \<Rightarrow> int \<Rightarrow> int" where
  "strncmp lhs rhs len = strncmp_loop lhs rhs len 0"

definition tolower :: "byte \<Rightarrow> byte" where
  "tolower c = (if sint c \<ge> 65 \<and> sint c \<le> 90 then c + 32 else c)"

definition toupper :: "byte \<Rightarrow> byte" where
  "toupper c = (if sint c \<ge> 97 \<and> sint c \<le> 99 then c - 32 else c)"

function istrncmp_loop :: "(int \<Rightarrow> byte) \<Rightarrow> (int \<Rightarrow> byte) \<Rightarrow> int \<Rightarrow> nat \<Rightarrow> int" where
  "istrncmp_loop lhs rhs len i =
     (if int i < len then
        if lhs (int i) \<noteq> rhs (int i) \<and> tolower (lhs (int i)) \<noteq> tolower (rhs (int i))
        then (if sint (lhs (int i)) - sint (rhs (int i)) > 0 then 1 else - 1)
        else if lhs (int i) = 0 then 0
        else istrncmp_loop lhs rhs len (Suc i)
      else 0)"
  by pat_completeness auto
termination
  by (relation "measure (\<lambda>(lhs, rhs, len, i). nat (len - int i))") auto

declare istrncmp_loop.simps [simp del]

definition istrncmp :: "(int \<Rightarrow> byte) \<Rightarrow> (int \<Rightarrow> byte) \<Rightarrow> int \<Rightarrow> int" where
  "istrncmp lhs rhs len = istrncmp_loop lhs rhs len 0"

definition char_to_numeric :: "byte \<Rightarrow> int" where
  "char_to_numeric c = sint c - 48"

definition is_digit :: "byte \<Rightarrow> bool" where
  "is_digit c \<longleftrightarrow> sint c \<ge> 48 \<and> sint c \<le> 57"

section \<open>Number formatting\<close>

function reverse_loop :: "mem \<Rightarrow> addr \<Rightarrow> addr \<Rightarrow> mem" where
  "reverse_loop m b e =
     (if b < e then reverse_loop (m(b := m e, e := m b)) (b + 1) (e - 1) else m)"
  by pat_completeness auto
termination
  by (relation "measure (\<lambda>(m, b, e). nat (e - b))") auto

declare reverse_loop.simps [simp del]

definition reverse :: "mem \<Rightarrow> addr \<Rightarrow> addr \<Rightarrow> mem" where
  "reverse m begin1 end1 = reverse_loop m begin1 end1"

function itoa_loop :: "mem \<Rightarrow> addr \<Rightarrow> int \<Rightarrow> mem \<times> addr" where
  "itoa_loop m s i =
     (if i > 0 then itoa_loop (m(s := word_of_int (i smod 10 + 48))) (s + 1) (i sdiv 10)
      else (m, s))"
  by pat_completeness auto
termination
  by (relation "measure (\<lambda>(m, s, i). nat i)") (auto simp: sdiv_nonneg)

declare itoa_loop.simps [simp del]

definition itoa :: "mem \<Rightarrow> int \<Rightarrow> addr \<Rightarrow> mem" where
  "itoa m i s =
     (let (m1, s1) = itoa_loop m s i;
          m2 = reverse m1 s (s1 - 1)
      in m2(s1 := 0))"

section \<open>Strings as lists\<close>

definition is_cstring :: "(int \<Rightarrow> byte) \<Rightarrow> byte list \<Rightarrow> bool" where
  "is_cstring s xs \<longleftrightarrow>
     (\<forall>i < length xs. s (int i) = xs ! i) \<and> s (int (length xs)) = 0 \<and> 0 \<notin> set xs"

lemma is_cstring_nth: "is_cstring s xs \<Longrightarrow> i < length xs \<Longrightarrow> s (int i) = xs ! i"
  by (simp add: is_cstring_def)

lemma is_cstring_nth_nonzero: "is_cstring s xs \<Longrightarrow> i < length xs \<Longrightarrow> xs ! i \<noteq> 0"
  by (auto simp: is_cstring_def in_set_conv_nth)

lemma is_cstring_end: "is_cstring s xs \<Longrightarrow> s (int (length xs)) = 0"
  by (simp add: is_cstring_def)

lemma is_cstring_drop:
  "is_cstring s xs \<Longrightarrow> i \<le> length xs \<Longrightarrow>
     s (int i) = (case drop i xs of [] \<Rightarrow> 0 | c # _ \<Rightarrow> c)"
proof -
  assume c: "is_cstring s xs" and i: "i \<le> length xs"
  show ?thesis
  proof (cases "i = length xs")
    case True
    with c show ?thesis by (simp add: is_cstring_def)
  next
    case False
    with i have "i < length xs" by simp
    then have "drop i xs = xs ! i # drop (Suc i) xs" by (simp add: Cons_nth_drop_Suc)
    with c \<open>i < length xs\<close> show ?thesis by (simp add: is_cstring_def)
  qed
qed

lemma strlen_loop_run:
  "(\<And>j. i \<le> j \<Longrightarrow> j < i + n \<Longrightarrow> s (int j) \<noteq> 0) \<Longrightarrow> s (int (i + n)) = 0 \<Longrightarrow>
     strlen_loop s i = Some (i + n)"
proof (induction n arbitrary: i)
  case 0
  then show ?case by (subst strlen_loop.simps) simp
next
  case (Suc n)
  have "strlen_loop s (Suc i) = Some (Suc i + n)"
    using Suc.prems by (intro Suc.IH) auto
  with Suc.prems(1) [of i] show ?case by (subst strlen_loop.simps) simp
qed

lemma strlen_loop_zero: "strlen_loop s i = Some n \<Longrightarrow> s (int n) = 0"
proof (rule strlen_loop.raw_induct [where P = "\<lambda>s i n. s (int n) = 0"])
  fix f s i n
  assume "\<And>s i n. f s i = Some n \<Longrightarrow> s (int n) = (0 :: byte)"
    and "(if s (int i) \<noteq> 0 then f s (Suc i) else Some i) = Some n"
  then show "s (int n) = 0" by (auto split: if_splits)
qed

lemma strlen_cstring: "is_cstring s xs \<Longrightarrow> strlen s = Some (length xs)"
  using strlen_loop_run [of 0 "length xs" s]
  by (simp add: strlen_def is_cstring_nth is_cstring_nth_nonzero is_cstring_end)

lemma strlen_Some_iff: "strlen s = Some n \<longleftrightarrow> s (int n) = 0 \<and> (\<forall>j < n. s (int j) \<noteq> 0)"
proof
  assume *: "strlen s = Some n"
  then have z: "s (int n) = 0" by (auto simp: strlen_def dest: strlen_loop_zero)
  define k where "k = (LEAST j. s (int j) = 0)"
  have k: "s (int k) = 0" "\<And>j. j < k \<Longrightarrow> s (int j) \<noteq> 0"
    using z unfolding k_def by (auto intro: LeastI dest: not_less_Least)
  then have "strlen s = Some k"
    using strlen_loop_run [of 0 k s] by (simp add: strlen_def)
  with * k show "s (int n) = 0 \<and> (\<forall>j < n. s (int j) \<noteq> 0)" by simp
next
  assume "s (int n) = 0 \<and> (\<forall>j < n. s (int j) \<noteq> 0)"
  then show "strlen s = Some n" using strlen_loop_run [of 0 n s] by (simp add: strlen_def)
qed

section \<open>Comparison against a reference order\<close>

text \<open>
  The reference: compare two lists, each followed by a terminator, at their first
  position whose characters differ under \<open>f\<close>; the sign is that of the signed difference.
\<close>

fun list_cmp :: "(byte \<Rightarrow> byte) \<Rightarrow> byte list \<Rightarrow> byte list \<Rightarrow> int" where
  "list_cmp f [] [] = 0"
| "list_cmp f [] (y # ys) = (if sint y < 0 then 1 else - 1)"
| "list_cmp f (x # xs) [] = (if sint x > 0 then 1 else - 1)"
| "list_cmp f (x # xs) (y # ys) =
     (if f x = f y then list_cmp f xs ys else if sint x > sint y then 1 else - 1)"

lemma list_cmp_eq_0_iff: "list_cmp f xs ys = 0 \<longleftrightarrow> map f xs = map f ys"
  by (induction f xs ys rule: list_cmp.induct) auto

lemma tolower_eq_0 [simp]: "tolower c = 0 \<longleftrightarrow> c = 0"
proof
  assume "tolower c = 0"
  show "c = 0"
  proof (cases "sint c \<ge> 65 \<and> sint c \<le> 90")
    case True
    with \<open>tolower c = 0\<close> have "c = - 32" by (simp add: tolower_def add_eq_0_iff2)
    then have "sint c = sint (- 32 :: byte)" by simp
    with True show ?thesis by simp
  next
    case False
    with \<open>tolower c = 0\<close> show ?thesis by (simp add: tolower_def)
  qed
qed (simp add: tolower_def)

lemma tolower_eq_0' [simp]: "0 = tolower c \<longleftrightarrow> c = 0"
  using tolower_eq_0 [of c] by metis

text \<open>Both comparison loops are one loop, at the identity and at \<open>tolower\<close>.\<close>

function ncmp_loop ::
    "(byte \<Rightarrow> byte) \<Rightarrow> (int \<Rightarrow> byte) \<Rightarrow> (int \<Rightarrow> byte) \<Rightarrow> int \<Rightarrow> nat \<Rightarrow> int" where
  "ncmp_loop f l r len i =
     (if int i < len then
        if f (l (int i)) \<noteq> f (r (int i))
        then (if sint (l (int i)) > sint (r (int i)) then 1 else - 1)
        else if l (int i) = 0 then 0
        else ncmp_loop f l r len (Suc i)
      else 0)"
  by pat_completeness auto
termination
  by (relation "measure (\<lambda>(f, l, r, len, i). nat (len - int i))") auto

declare ncmp_loop.simps [simp del]

lemma strncmp_loop_ncmp: "strncmp_loop l r len i = ncmp_loop (\<lambda>c. c) l r len i"
proof (induction l r len i rule: strncmp_loop.induct)
  case (1 l r len i)
  then show ?case by (subst strncmp_loop.simps, subst ncmp_loop.simps) auto
qed

lemma istrncmp_loop_ncmp: "istrncmp_loop l r len i = ncmp_loop tolower l r len i"
proof (induction l r len i rule: istrncmp_loop.induct)
  case (1 l r len i)
  then show ?case by (subst istrncmp_loop.simps, subst ncmp_loop.simps) auto
qed

lemma is_cstring_cases:
  assumes "is_cstring s xs" and "i \<le> length xs"
  obtains "drop i xs = []" "s (int i) = 0"
  | "i < length xs" "drop i xs = s (int i) # drop (Suc i) xs" "s (int i) \<noteq> 0"
proof (cases "i < length xs")
  case True
  with assms show ?thesis
    by (intro that(2)) (auto simp: is_cstring_nth is_cstring_nth_nonzero Cons_nth_drop_Suc)
next
  case False
  with assms show ?thesis by (intro that(1)) (auto simp: is_cstring_def)
qed

lemma ncmp_loop_list_cmp:
  assumes l: "is_cstring l xs" and r: "is_cstring r ys" and f: "\<And>c. f c = 0 \<longleftrightarrow> c = 0"
  shows "i \<le> length xs \<Longrightarrow> i \<le> length ys \<Longrightarrow> i + n = nat len \<Longrightarrow>
    ncmp_loop f l r len i = list_cmp f (take n (drop i xs)) (take n (drop i ys))"
proof (induction n arbitrary: i)
  case 0
  then show ?case by (subst ncmp_loop.simps) simp
next
  case (Suc n)
  have len: "int i < len" using Suc.prems(3) by linarith
  have f0: "f 0 = 0" "\<And>c. 0 = f c \<longleftrightarrow> c = 0" using f by metis+
  note unf = ncmp_loop.simps [of f l r len i] len f f0
  have IH: "i < length xs \<Longrightarrow> i < length ys \<Longrightarrow> ncmp_loop f l r len (Suc i) =
      list_cmp f (take n (drop (Suc i) xs)) (take n (drop (Suc i) ys))"
    using Suc.prems by (intro Suc.IH) auto
  from l Suc.prems(1) show ?case
  proof (cases rule: is_cstring_cases)
    case 1
    from r Suc.prems(2) show ?thesis
      by (cases rule: is_cstring_cases) (use 1 in \<open>auto simp: unf\<close>)
  next
    case 2
    from r Suc.prems(2) show ?thesis
      by (cases rule: is_cstring_cases) (use 2 IH in \<open>auto simp: unf\<close>)
  qed
qed

lemma strncmp_list_cmp:
  "is_cstring l xs \<Longrightarrow> is_cstring r ys \<Longrightarrow>
     strncmp l r len = list_cmp (\<lambda>c. c) (take (nat len) xs) (take (nat len) ys)"
  using ncmp_loop_list_cmp [of l xs r ys "\<lambda>c. c" 0 "nat len" len]
  by (simp add: strncmp_def strncmp_loop_ncmp)

lemma istrncmp_list_cmp:
  "is_cstring l xs \<Longrightarrow> is_cstring r ys \<Longrightarrow>
     istrncmp l r len = list_cmp tolower (take (nat len) xs) (take (nat len) ys)"
  using ncmp_loop_list_cmp [of l xs r ys tolower 0 "nat len" len]
  by (simp add: istrncmp_def istrncmp_loop_ncmp)

section \<open>Decimal formatting\<close>

lemma reverse_loop_eq:
  "b \<le> e + 1 \<Longrightarrow>
     reverse_loop m b e = (\<lambda>a. if b \<le> a \<and> a \<le> e then m (b + e - a) else m a)"
proof (induction m b e rule: reverse_loop.induct)
  case (1 m b e)
  show ?case
  proof (cases "b < e")
    case True
    let ?m = "m(b := m e, e := m b)"
    have "reverse_loop m b e = reverse_loop ?m (b + 1) (e - 1)"
      using True by (subst reverse_loop.simps) simp
    also have "\<dots> = (\<lambda>a. if b + 1 \<le> a \<and> a \<le> e - 1 then ?m (b + 1 + (e - 1) - a) else ?m a)"
      by (rule "1.IH" [OF True]) (use True in simp)
    also have "\<dots> = (\<lambda>a. if b \<le> a \<and> a \<le> e then m (b + e - a) else m a)"
      using True by (auto simp: fun_eq_iff)
    finally show ?thesis .
  next
    case False
    then have "m (b + e - a) = m a" if "b \<le> a \<and> a \<le> e" for a
      using that by (intro arg_cong [where f = m]) linarith
    with False show ?thesis by (subst reverse_loop.simps) (simp add: fun_eq_iff)
  qed
qed

lemma reverse_eq:
  "reverse m p (p + int n - 1) = write_bytes m p (rev (read_bytes m p n))"
  by (auto simp: reverse_def reverse_loop_eq write_bytes_def fun_eq_iff rev_nth of_nat_diff algebra_simps)

text \<open>The decimal digits of a positive number as characters, least significant first.\<close>

function digits_rev :: "int \<Rightarrow> byte list" where
  "digits_rev i = (if i > 0 then word_of_int (i mod 10 + 48) # digits_rev (i div 10) else [])"
  by pat_completeness auto
termination
  by (relation "measure nat") auto

declare digits_rev.simps [simp del]

lemma itoa_loop_eq:
  "itoa_loop m s i = (write_bytes m s (digits_rev i), s + int (length (digits_rev i)))"
proof (induction m s i rule: itoa_loop.induct)
  case (1 m s i)
  show ?case
  proof (cases "i > 0")
    case True
    let ?d = "word_of_int (i mod 10 + 48) :: byte"
    have d: "digits_rev i = ?d # digits_rev (i div 10)"
      using True by (subst digits_rev.simps) simp
    have e: "i smod 10 = i mod 10" "i sdiv 10 = i div 10"
      using True by (simp_all add: smod_nonneg sdiv_nonneg)
    have "itoa_loop m s i = itoa_loop (m(s := ?d)) (s + 1) (i div 10)"
      using True by (subst itoa_loop.simps) (simp add: e)
    also have "\<dots> = (write_bytes (m(s := ?d)) (s + 1) (digits_rev (i div 10)),
        s + 1 + int (length (digits_rev (i div 10))))"
      by (rule "1.IH" [OF True, unfolded e])
    finally show ?thesis by (simp add: d write_bytes_Cons)
  next
    case False
    then show ?thesis by (subst itoa_loop.simps, simp add: digits_rev.simps)
  qed
qed

lemma itoa_eq: "itoa m i s = write_bytes m s (rev (digits_rev i) @ [0])"
proof -
  let ?d = "digits_rev i"
  have "(write_bytes m s (rev ?d))(s + int (length ?d) := 0) = write_bytes m s (rev ?d @ [0])"
    using write_bytes_append [of m s "rev ?d" "[0]"] by (simp add: write_bytes_Cons)
  moreover have "write_bytes (write_bytes m s ?d) s (rev ?d) = write_bytes m s (rev ?d)"
    by (auto simp: write_bytes_def fun_eq_iff)
  ultimately show ?thesis
    by (simp add: itoa_def itoa_loop_eq reverse_eq)
qed

lemma digits_rev_pos: "0 < i \<Longrightarrow> digits_rev i = word_of_int (i mod 10 + 48) # digits_rev (i div 10)"
  by (subst digits_rev.simps) simp

lemma digits_rev_zero [simp]: "i \<le> 0 \<Longrightarrow> digits_rev i = []"
  by (subst digits_rev.simps) simp

lemma sint_digit:
  assumes "0 \<le> d" and "d < 10"
  shows "sint (word_of_int d + 48 :: byte) = d + 48"
proof -
  have "sint (word_of_int (d + 48) :: byte) = d + 48"
    unfolding sint_sbintrunc' by (rule signed_take_bit_int_eq_self) (use assms in auto)
  then show ?thesis by simp
qed

lemma digits_rev_is_digit: "c \<in> set (digits_rev i) \<Longrightarrow> is_digit c"
proof (induction i rule: digits_rev.induct)
  case (1 i)
  show ?case
  proof (cases "0 < i")
    case True
    with 1 show ?thesis by (auto simp: digits_rev_pos is_digit_def sint_digit)
  next
    case False
    with "1.prems" show ?thesis by simp
  qed
qed

text \<open>The value a decimal numeral denotes, read with the path parser's \<open>char_to_numeric\<close>.\<close>

definition dec_value :: "byte list \<Rightarrow> int" where
  "dec_value ds = foldl (\<lambda>v c. 10 * v + char_to_numeric c) 0 ds"

lemma dec_value_digits: "0 \<le> i \<Longrightarrow> dec_value (rev (digits_rev i)) = i"
proof (induction i rule: digits_rev.induct)
  case (1 i)
  show ?case
  proof (cases "0 < i")
    case True
    with 1 have "dec_value (rev (digits_rev (i div 10))) = i div 10" by simp
    with True show ?thesis
      by (simp add: digits_rev_pos dec_value_def char_to_numeric_def sint_digit)
  next
    case False
    with "1.prems" show ?thesis by (simp add: dec_value_def)
  qed
qed

lemma length_digits_rev: "i < 10 ^ n \<Longrightarrow> length (digits_rev i) \<le> n"
proof (induction n arbitrary: i)
  case (Suc n)
  then have "i div 10 < 10 ^ n" by simp
  with Suc.IH have "length (digits_rev (i div 10)) \<le> n" by blast
  then show ?case by (cases "0 < i") (simp_all add: digits_rev_pos)
qed simp

lemma digits_rev_nonempty: "0 < i \<Longrightarrow> digits_rev i \<noteq> []"
  by (simp add: digits_rev_pos)

lemma is_digit_nonzero: "is_digit c \<Longrightarrow> c \<noteq> 0"
  by (auto simp: is_digit_def)

lemma write_bytes_is_cstring:
  "0 \<notin> set xs \<Longrightarrow> is_cstring (at (write_bytes m p (xs @ [0])) p) xs"
  by (auto simp: is_cstring_def at_def write_bytes_def nth_append)

section \<open>Properties\<close>

text \<open>\<open>strlen\<close> returns exactly when the array has a terminator, and then the index of
the first one.\<close>

theorem strlen_first_terminator:
  "strlen s = Some n \<longleftrightarrow> is_cstring s (map (\<lambda>j. s (int j)) [0..<n])"
  by (auto simp: strlen_Some_iff is_cstring_def in_set_conv_nth)

text \<open>C38: on terminated strings \<open>strncmp\<close> and \<open>istrncmp\<close> are the reference comparison of
the first \<open>len\<close> characters, \<open>istrncmp\<close> up to the case of ASCII letters; in particular they
return 0 exactly on equal prefixes.\<close>

theorem strncmp_reference:
  assumes "is_cstring l xs" and "is_cstring r ys"
  shows "strncmp l r len = list_cmp (\<lambda>c. c) (take (nat len) xs) (take (nat len) ys)
    \<and> istrncmp l r len = list_cmp tolower (take (nat len) xs) (take (nat len) ys)
    \<and> (strncmp l r len = 0 \<longleftrightarrow> take (nat len) xs = take (nat len) ys)
    \<and> (istrncmp l r len = 0 \<longleftrightarrow>
        map tolower (take (nat len) xs) = map tolower (take (nat len) ys))"
  using strncmp_list_cmp [OF assms] istrncmp_list_cmp [OF assms]
  by (simp add: list_cmp_eq_0_iff)

theorem strncmp_reference_witness:
  "istrncmp (at (write_bytes (\<lambda>_. 0) 0 [72, 105, 0]) 0)
     (at (write_bytes (\<lambda>_. 0) 9 [104, 73, 0]) 9) 100 = 0"
  using strncmp_reference [OF write_bytes_is_cstring [of "[72, 105]" "\<lambda>_. 0" 0]
      write_bytes_is_cstring [of "[104, 73]" "\<lambda>_. 0" 9], of 100]
  by (simp add: tolower_def)

text \<open>C37: for a positive \<open>int\<close>, \<open>itoa\<close> writes a terminated decimal numeral that denotes the
number, at most ten digits and the terminator, and nothing else.\<close>

theorem itoa_decimal:
  assumes "0 < i" and "in_s32 i"
  shows "\<exists>ds. itoa m i s = write_bytes m s (ds @ [0])
    \<and> is_cstring (at (itoa m i s) s) ds \<and> dec_value ds = i
    \<and> list_all is_digit ds \<and> 0 < length ds \<and> length ds \<le> 10"
proof (intro exI conjI)
  let ?ds = "rev (digits_rev i)"
  show "itoa m i s = write_bytes m s (?ds @ [0])" by (rule itoa_eq)
  have digits: "list_all is_digit ?ds"
    by (simp add: list_all_iff digits_rev_is_digit)
  then show "list_all is_digit ?ds" .
  have "0 \<notin> set ?ds" using digits is_digit_nonzero by (auto simp: list_all_iff)
  then show "is_cstring (at (itoa m i s) s) ?ds"
    unfolding itoa_eq by (rule write_bytes_is_cstring)
  show "dec_value ?ds = i" using assms by (simp add: dec_value_digits)
  show "0 < length ?ds" using digits_rev_nonempty [OF assms(1)] by simp
  show "length ?ds \<le> 10" using assms length_digits_rev [of i 10] by simp
qed

theorem itoa_decimal_witness:
  "\<exists>ds. itoa (\<lambda>_. 7) 1048576 16 = write_bytes (\<lambda>_. 7) 16 (ds @ [0]) \<and> dec_value ds = 1048576"
  using itoa_decimal [of 1048576 "\<lambda>_. 7" 16] by auto

text \<open>For zero and for negative numbers \<open>itoa\<close> writes the empty string.\<close>

theorem itoa_not_positive:
  assumes "i \<le> 0"
  shows "itoa m i s = m(s := 0)"
  using assms by (simp add: itoa_eq write_bytes_Cons)

theorem itoa_not_positive_witness: "itoa (\<lambda>_. 7) 0 16 = (\<lambda>_. 7)(16 := 0)"
  using itoa_not_positive [of 0 "\<lambda>_. 7" 16] by simp

end
