(* ===== verification/Terminal.thy ===== *)
theory Terminal
  imports Strings
begin

text \<open>
  \<open>terminal/terminal.c\<close>: the text console.  Video memory is an array of 16-bit cells from
  \<open>0xB8000\<close> on; the code never checks an index into it, so the model's \<open>video_mem\<close> has a cell
  for every index.  \<open>print_string\<close> runs to the terminator, hence the \<open>option\<close>.
\<close>

record terminal =
  video_mem :: "int \<Rightarrow> 16 word"
  terminal_row :: int
  terminal_col :: int

definition TERMINAL_WIDTH :: int where [simp]: "TERMINAL_WIDTH = 80"
definition TERMINAL_HEIGHT :: int where [simp]: "TERMINAL_HEIGHT = 80"

text \<open>Both arguments are (signed) \<open>char\<close>s promoted to \<open>int\<close>.\<close>

definition make_char :: "byte \<Rightarrow> byte \<Rightarrow> 16 word" where
  "make_char c colour = word_of_int (push_bit 8 (sint colour) OR sint c)"

definition print_char :: "byte \<Rightarrow> terminal \<Rightarrow> terminal" where
  "print_char c t =
     (if c = 10 then t\<lparr>terminal_col := 0, terminal_row := terminal_row t + 1\<rparr>
      else
        (let t = t\<lparr>video_mem := (video_mem t)
                     (terminal_row t * TERMINAL_WIDTH + terminal_col t := make_char c 0xF)\<rparr>;
             t = t\<lparr>terminal_col := terminal_col t + 1\<rparr>
         in if terminal_col t \<ge> TERMINAL_WIDTH
            then t\<lparr>terminal_col := 0, terminal_row := terminal_row t + 1\<rparr> else t))"

partial_function (option) print_string_loop ::
    "(int \<Rightarrow> byte) \<Rightarrow> int \<Rightarrow> terminal \<Rightarrow> terminal option" where
  "print_string_loop input c t =
     (if input c \<noteq> 0 then print_string_loop input (c + 1) (print_char (input c) t) else Some t)"

definition print_string :: "(int \<Rightarrow> byte) \<Rightarrow> terminal \<Rightarrow> terminal option" where
  "print_string input t = print_string_loop input 0 t"

text \<open>\<open>terminal_init\<close>: two nested loops over the columns and the rows; 0x20 is the space.\<close>

function init_rows :: "int \<Rightarrow> int \<Rightarrow> terminal \<Rightarrow> terminal" where
  "init_rows i j t =
     (if j < TERMINAL_HEIGHT
      then init_rows i (j + 1)
        (t\<lparr>video_mem := (video_mem t)(j * TERMINAL_WIDTH + i := make_char 0x20 0)\<rparr>)
      else t)"
  by pat_completeness auto
termination
  by (relation "measure (\<lambda>(i, j, t). nat (80 - j))") auto

declare init_rows.simps [simp del]

function init_cols :: "int \<Rightarrow> terminal \<Rightarrow> terminal" where
  "init_cols i t = (if i < TERMINAL_WIDTH then init_cols (i + 1) (init_rows i 0 t) else t)"
  by pat_completeness auto
termination
  by (relation "measure (\<lambda>(i, t). nat (80 - i))") auto

declare init_cols.simps [simp del]

definition terminal_init :: "terminal \<Rightarrow> terminal" where
  "terminal_init t = init_cols 0 t"

section \<open>The cursor and what is written\<close>

definition cursor_ok :: "terminal \<Rightarrow> bool" where
  "cursor_ok t \<longleftrightarrow> 0 \<le> terminal_row t \<and> 0 \<le> terminal_col t \<and> terminal_col t < TERMINAL_WIDTH"

text \<open>The index of the cell under the cursor.\<close>

definition cursor :: "terminal \<Rightarrow> int" where
  "cursor t = terminal_row t * TERMINAL_WIDTH + terminal_col t"

lemma print_char_cursor_ok: "cursor_ok t \<Longrightarrow> cursor_ok (print_char c t)"
  by (auto simp: cursor_ok_def print_char_def Let_def)

lemma print_char_plain:
  "c \<noteq> 10 \<Longrightarrow> cursor_ok t \<Longrightarrow> cursor (print_char c t) = cursor t + 1 \<and>
     video_mem (print_char c t) = (video_mem t)(cursor t := make_char c 0xF)"
  by (auto simp: cursor_ok_def cursor_def print_char_def Let_def)

lemma print_char_newline:
  "cursor (print_char 10 t) = (terminal_row t + 1) * TERMINAL_WIDTH \<and>
     video_mem (print_char 10 t) = video_mem t"
  by (simp add: cursor_def print_char_def)

lemma print_string_loop_fold:
  "(\<And>i. i < length xs \<Longrightarrow> s (c + int i) = xs ! i \<and> xs ! i \<noteq> 0) \<Longrightarrow> s (c + int (length xs)) = 0 \<Longrightarrow>
     print_string_loop s c t = Some (fold print_char xs t)"
proof (induction xs arbitrary: c t)
  case Nil
  then show ?case by (subst print_string_loop.simps) simp
next
  case (Cons x xs)
  have x: "s c = x" "x \<noteq> 0" using Cons.prems(1) [of 0] by auto
  have "print_string_loop s (c + 1) (print_char x t) = Some (fold print_char xs (print_char x t))"
  proof (rule Cons.IH)
    fix i assume "i < length xs"
    then show "s (c + 1 + int i) = xs ! i \<and> xs ! i \<noteq> 0"
      using Cons.prems(1) [of "Suc i"] by (simp add: algebra_simps)
  next
    show "s (c + 1 + int (length xs)) = 0" using Cons.prems(2) by (simp add: algebra_simps)
  qed
  with x show ?case by (subst print_string_loop.simps) simp
qed

lemma print_string_fold: "is_cstring s xs \<Longrightarrow> print_string s t = Some (fold print_char xs t)"
  unfolding print_string_def
  by (rule print_string_loop_fold) (auto simp: is_cstring_nth is_cstring_nth_nonzero is_cstring_end)

lemma fold_print_char_cursor_ok: "cursor_ok t \<Longrightarrow> cursor_ok (fold print_char xs t)"
  by (induction xs arbitrary: t) (auto simp: print_char_cursor_ok)

lemma fold_print_char_plain:
  "10 \<notin> set xs \<Longrightarrow> cursor_ok t \<Longrightarrow>
     cursor (fold print_char xs t) = cursor t + int (length xs) \<and>
     video_mem (fold print_char xs t) =
       (\<lambda>a. if cursor t \<le> a \<and> a < cursor t + int (length xs)
            then make_char (xs ! nat (a - cursor t)) 0xF else video_mem t a)"
proof (induction xs arbitrary: t)
  case Nil
  then show ?case by (auto simp: fun_eq_iff)
next
  case (Cons x xs)
  let ?t = "print_char x t"
  have t: "cursor ?t = cursor t + 1" "video_mem ?t = (video_mem t)(cursor t := make_char x 0xF)"
    using print_char_plain [of x t] Cons.prems by auto
  have IH: "cursor (fold print_char xs ?t) = cursor ?t + int (length xs)"
    "video_mem (fold print_char xs ?t) =
       (\<lambda>a. if cursor ?t \<le> a \<and> a < cursor ?t + int (length xs)
            then make_char (xs ! nat (a - cursor ?t)) 0xF else video_mem ?t a)"
    using Cons.IH [of ?t] Cons.prems by (auto simp: print_char_cursor_ok)
  have "video_mem (fold print_char xs ?t) a =
      (if cursor t \<le> a \<and> a < cursor t + int (length (x # xs))
       then make_char ((x # xs) ! nat (a - cursor t)) 0xF else video_mem t a)" for a
  proof (cases "a = cursor t")
    case True
    then show ?thesis using IH(2) t by simp
  next
    case False
    then have "cursor t \<le> a \<Longrightarrow> nat (a - cursor t) = Suc (nat (a - (cursor t + 1)))" by linarith
    then show ?thesis using False IH(2) t by auto
  qed
  then show ?case using IH(1) t by (simp add: fun_eq_iff)
qed

lemma fold_print_char_bounds:
  "cursor_ok t \<Longrightarrow> cursor t \<le> cursor (fold print_char xs t) \<and>
     cursor (fold print_char xs t) \<le>
       cursor t + 80 * int (count_list xs 10) + int (length (filter (\<lambda>x. x \<noteq> 10) xs)) \<and>
     (\<forall>a. a < cursor t \<or> cursor (fold print_char xs t) \<le> a \<longrightarrow> video_mem (fold print_char xs t) a = video_mem t a)"
proof (induction xs arbitrary: t)
  case (Cons x xs)
  let ?t = "print_char x t"
  have ok: "cursor_ok ?t" using Cons.prems by (rule print_char_cursor_ok)
  have "cursor t < cursor ?t \<and> cursor ?t \<le> cursor t + (if x = 10 then 80 else 1)
      \<and> (\<forall>a. a \<noteq> cursor t \<longrightarrow> video_mem ?t a = video_mem t a)"
  proof (cases "x = 10")
    case True
    then show ?thesis
      using print_char_newline [of t] Cons.prems by (auto simp: cursor_def cursor_ok_def)
  qed (use print_char_plain [OF _ Cons.prems] in auto)
  then show ?case using Cons.IH [OF ok] by (cases "x = 10") auto
qed simp

lemma fold_print_char_writes:
  "cursor_ok t \<Longrightarrow> video_mem (fold print_char xs t) a = video_mem t a \<or>
     (\<exists>c \<in> set xs. c \<noteq> 10 \<and> video_mem (fold print_char xs t) a = make_char c 0xF)"
proof (induction xs arbitrary: t)
  case (Cons x xs)
  have "video_mem (print_char x t) a = video_mem t a \<or> x \<noteq> 10 \<and> video_mem (print_char x t) a = make_char x 0xF"
    by (cases "x = 10") (use print_char_newline [of t] print_char_plain [OF _ Cons.prems, of x] Cons.prems in auto)
  then show ?case using Cons.IH [OF print_char_cursor_ok [OF Cons.prems, of x]] by auto
qed simp

lemma init_rows_cells:
  "0 \<le> j \<Longrightarrow> video_mem (init_rows i j t) =
     (\<lambda>a. if \<exists>k. j \<le> k \<and> k < 80 \<and> a = k * 80 + i then make_char 0x20 0 else video_mem t a)"
proof (induction i j t rule: init_rows.induct)
  case (1 i j t)
  show ?case
  proof (cases "j < 80")
    case True
    let ?t = "t\<lparr>video_mem := (video_mem t)(j * 80 + i := make_char 0x20 0)\<rparr>"
    have "init_rows i j t = init_rows i (j + 1) ?t"
      using True by (subst init_rows.simps) simp
    moreover have "video_mem (init_rows i (j + 1) ?t) =
       (\<lambda>a. if \<exists>k. j + 1 \<le> k \<and> k < 80 \<and> a = k * 80 + i then make_char 0x20 0 else video_mem ?t a)"
      using "1.IH" [unfolded TERMINAL_WIDTH_def TERMINAL_HEIGHT_def] True "1.prems" by simp
    moreover have "(\<exists>k. j \<le> k \<and> k < 80 \<and> a = k * 80 + i) \<longleftrightarrow>
        a = j * 80 + i \<or> (\<exists>k. j + 1 \<le> k \<and> k < 80 \<and> a = k * 80 + i)" for a
      by (rule ex_int_first [OF True])
    ultimately show ?thesis by (auto simp: fun_eq_iff)
  next
    case False
    then show ?thesis by (subst init_rows.simps) (auto simp: fun_eq_iff)
  qed
qed

lemma init_rows_fields:
  "terminal_row (init_rows i j t) = terminal_row t \<and> terminal_col (init_rows i j t) = terminal_col t"
proof (induction i j t rule: init_rows.induct)
  case (1 i j t)
  then show ?case by (subst (1 2) init_rows.simps) simp
qed

lemma init_cols_cells:
  "0 \<le> i \<Longrightarrow> video_mem (init_cols i t) =
     (\<lambda>a. if \<exists>l. i \<le> l \<and> l < 80 \<and> (\<exists>k. 0 \<le> k \<and> k < 80 \<and> a = k * 80 + l)
          then make_char 0x20 0 else video_mem t a)
   \<and> terminal_row (init_cols i t) = terminal_row t \<and> terminal_col (init_cols i t) = terminal_col t"
proof (induction i t rule: init_cols.induct)
  case (1 i t)
  show ?case
  proof (cases "i < 80")
    case True
    let ?t = "init_rows i 0 t"
    have "init_cols i t = init_cols (i + 1) ?t"
      using True by (subst init_cols.simps) simp
    moreover have "video_mem (init_cols (i + 1) ?t) =
        (\<lambda>a. if \<exists>l. i + 1 \<le> l \<and> l < 80 \<and> (\<exists>k. 0 \<le> k \<and> k < 80 \<and> a = k * 80 + l)
             then make_char 0x20 0 else video_mem ?t a)
      \<and> terminal_row (init_cols (i + 1) ?t) = terminal_row ?t
      \<and> terminal_col (init_cols (i + 1) ?t) = terminal_col ?t"
      using "1.IH" [unfolded TERMINAL_WIDTH_def] True "1.prems" by simp
    moreover have "(\<exists>l. i \<le> l \<and> l < 80 \<and> (\<exists>k. 0 \<le> k \<and> k < 80 \<and> a = k * 80 + l)) \<longleftrightarrow>
        (\<exists>k. 0 \<le> k \<and> k < 80 \<and> a = k * 80 + i) \<or>
        (\<exists>l. i + 1 \<le> l \<and> l < 80 \<and> (\<exists>k. 0 \<le> k \<and> k < 80 \<and> a = k * 80 + l))" for a
      by (rule ex_int_first [OF True])
    ultimately show ?thesis
      using init_rows_cells [of 0 i t] init_rows_fields [of i 0 t] by (auto simp: fun_eq_iff)
  next
    case False
    then show ?thesis by (subst (1 2 3) init_cols.simps) (auto simp: fun_eq_iff)
  qed
qed

lemma terminal_cells:
  "(\<exists>l. 0 \<le> l \<and> l < (80 :: int) \<and> (\<exists>k. 0 \<le> k \<and> k < 80 \<and> a = k * 80 + l)) \<longleftrightarrow> 0 \<le> a \<and> a < 6400"
proof
  assume "0 \<le> a \<and> a < 6400"
  then show "\<exists>l. 0 \<le> l \<and> l < (80 :: int) \<and> (\<exists>k. 0 \<le> k \<and> k < 80 \<and> a = k * 80 + l)"
    by (intro exI [of _ "a mod 80"] conjI exI [of _ "a div 80"]) auto
qed auto

section \<open>Properties\<close>

text \<open>Initialisation blanks exactly the 80 by 80 cells and leaves the cursor alone.\<close>

theorem terminal_init_blank:
  "terminal_init t = t\<lparr>video_mem := (\<lambda>a. if 0 \<le> a \<and> a < 6400 then 0x20 else video_mem t a)\<rparr>"
proof -
  have "make_char 0x20 0 = 0x20" by (simp add: make_char_def)
  then show ?thesis
    unfolding terminal_init_def
    by (intro terminal.equality) (simp_all add: init_cols_cells terminal_cells cong: if_cong)
qed

text \<open>Printing a terminated string returns, keeps the cursor inside its row, and, when the
string has no newline, writes its characters in white to the cells from the cursor on, in order,
wrapping to the next row, and touches no other cell.\<close>

theorem print_string_cells:
  assumes "is_cstring s xs" and "cursor_ok t"
  shows "\<exists>t'. print_string s t = Some t' \<and> cursor_ok t' \<and>
    (10 \<notin> set xs \<longrightarrow> cursor t' = cursor t + int (length xs) \<and>
       video_mem t' =
         (\<lambda>a. if cursor t \<le> a \<and> a < cursor t + int (length xs)
              then make_char (xs ! nat (a - cursor t)) 0xF else video_mem t a))"
  using print_string_fold [OF assms(1), of t] fold_print_char_cursor_ok [OF assms(2), of xs]
    fold_print_char_plain [OF _ assms(2), of xs] by blast

theorem print_string_cells_witness:
  "\<exists>t'. print_string (at (write_bytes (\<lambda>_. 0) 0 [111, 107, 0]) 0)
      \<lparr>video_mem = (\<lambda>_. 0), terminal_row = 0, terminal_col = 79\<rparr> = Some t' \<and> cursor t' = 81"
proof -
  have s: "is_cstring (at (write_bytes (\<lambda>_. 0) 0 [111, 107, 0]) 0) [111, 107]"
    using write_bytes_is_cstring [of "[111, 107]" "\<lambda>_. 0" 0] by simp
  show ?thesis
    using print_string_cells [OF s, of "\<lparr>video_mem = (\<lambda>_. 0), terminal_row = 0, terminal_col = 79\<rparr>"]
    by (auto simp: cursor_ok_def cursor_def)
qed

text \<open>C39: where printing may write.  A string of \<open>n\<close> line breaks and \<open>k\<close> other characters moves the
cursor forward by at most \<open>80 n + k\<close> cells; every cell is as it was, except that cells from the old cursor up to the
new one may have got a character of the string, in white.  So a string for which
that bound ends inside the 6400 cells of the screen never writes outside them.\<close>

theorem print_string_bounds:
  assumes "is_cstring s xs" and "cursor_ok t"
  shows "\<exists>t'. print_string s t = Some t' \<and> cursor t \<le> cursor t'
    \<and> cursor t' \<le> cursor t + 80 * int (count_list xs 10) + int (length (filter (\<lambda>x. x \<noteq> 10) xs))
    \<and> (\<forall>a. video_mem t' a = video_mem t a \<or>
         cursor t \<le> a \<and> a < cursor t' \<and> (\<exists>c \<in> set xs. c \<noteq> 10 \<and> video_mem t' a = make_char c 0xF))"
  using print_string_fold [OF assms(1), of t] fold_print_char_bounds [OF assms(2), of xs]
    fold_print_char_writes [OF assms(2), of xs]
  by (metis not_le)

theorem print_string_bounds_witness:
  "\<exists>t'. print_string (at (write_bytes (\<lambda>_. 0) 0 [111, 10, 107, 0]) 0)
      \<lparr>video_mem = (\<lambda>_. 0), terminal_row = 78, terminal_col = 79\<rparr> = Some t'
    \<and> cursor t' \<le> 6401 \<and> (\<forall>a \<ge> cursor t'. video_mem t' a = 0)"
proof -
  have s: "is_cstring (at (write_bytes (\<lambda>_. 0) 0 [111, 10, 107, 0]) 0) [111, 10, 107]"
    using write_bytes_is_cstring [of "[111, 10, 107]" "\<lambda>_. 0" 0] by simp
  show ?thesis
    using print_string_bounds [OF s, of "\<lparr>video_mem = (\<lambda>_. 0), terminal_row = 78, terminal_col = 79\<rparr>"]
    by (force simp: cursor_ok_def cursor_def)
qed

text \<open>The console never scrolls: after \<open>n\<close> newlines the next character goes to row \<open>n\<close>,
whatever \<open>n\<close> is, so from the 80th newline on it lies outside the cells that were initialised.\<close>

theorem print_char_no_scroll:
  assumes "c \<noteq> 10" and "cursor_ok t"
  shows "video_mem (fold print_char (replicate (Suc n) 10 @ [c]) t) =
    (video_mem t)((terminal_row t + int (Suc n)) * 80 := make_char c 0xF)"
proof -
  let ?nl = "fold print_char (replicate (Suc n) 10) t"
  have "terminal_row (fold print_char (replicate k 10) t) = terminal_row t + int k
      \<and> video_mem (fold print_char (replicate k 10) t) = video_mem t" for t k
    by (induction k arbitrary: t) (simp_all add: print_char_def)
  moreover have "replicate (Suc k) 10 = replicate k 10 @ [10 :: byte]" for k
    by (simp add: replicate_append_same)
  then have "terminal_col (fold print_char (replicate (Suc k) 10) t) = 0" for t k
    by (simp only: fold_append) (simp add: print_char_def)
  ultimately have "cursor ?nl = (terminal_row t + int (Suc n)) * 80" "video_mem ?nl = video_mem t"
    by (simp_all only: cursor_def TERMINAL_WIDTH_def)
  then show ?thesis
    using print_char_plain [OF assms(1) fold_print_char_cursor_ok [OF assms(2), of "replicate (Suc n) 10"]]
    by simp
qed

theorem print_char_no_scroll_witness:
  "video_mem (fold print_char (replicate (Suc 79) 10 @ [65])
      \<lparr>video_mem = (\<lambda>_. 0), terminal_row = 0, terminal_col = 0\<rparr>) = (\<lambda>_. 0)(6400 := 0xF41)"
  using print_char_no_scroll [of 65 "\<lparr>video_mem = (\<lambda>_. 0), terminal_row = 0, terminal_col = 0\<rparr>" 79]
  by (simp add: cursor_ok_def make_char_def del: replicate_Suc)

end
