(* ===== verification/Gdt.thy ===== *)
theory Gdt
  imports Config
begin

text \<open>
  \<open>gdt/gdt.c\<close>, \<open>gdt/gdt.h\<close> and the descriptor table of \<open>kernel.c\<close>: the translation of
  segment descriptions (base, byte limit, access type) into the packed descriptors the
  processor reads.  \<open>desc_base\<close> and \<open>desc_limit\<close> are the processor's reading of a packed
  descriptor; the translation is shown to be exact against them.
\<close>

section \<open>The structures\<close>

record gdt_t =
  limit_first :: "16 word"
  base_first :: "16 word"
  base :: "8 word"
  access_type :: "8 word"
  flags_and_limit :: "8 word"
  base_24_31_bits :: "8 word"

record gdt_structured_t =
  gs_base :: "32 word"
  gs_limit :: "32 word"
  gs_access_type :: "8 word"

section \<open>The translation\<close>

text \<open>The guard of the loop body: a limit above 64 KB must end on a 4 KB boundary.\<close>

definition gdt_limit_invalid :: "gdt_structured_t \<Rightarrow> bool" where
  "gdt_limit_invalid gs \<longleftrightarrow> uint (gs_limit gs) > 0xFFFF \<and> gs_limit gs AND 0xFFF \<noteq> 0xFFF"

text \<open>The rest of the loop body: the six stores into \<open>*gdt\<close>.\<close>

definition gdt_encode :: "gdt_t \<Rightarrow> gdt_structured_t \<Rightarrow> gdt_t" where
  "gdt_encode g gs =
     (let limit = gs_limit gs;
          g = g\<lparr>flags_and_limit := 0x40\<rparr>;
          (limit, g) = (if uint limit > 0xFFFF
             then (drop_bit 12 limit, g\<lparr>flags_and_limit := 0xC0\<rparr>) else (limit, g));
          g = g\<lparr>limit_first := ucast (limit AND 0xFFFF)\<rparr>;
          g = g\<lparr>flags_and_limit := flags_and_limit g OR ucast (drop_bit 16 limit AND 0x0F)\<rparr>;
          g = g\<lparr>base_first := ucast (gs_base gs AND 0xFFFF)\<rparr>;
          g = g\<lparr>base := ucast (drop_bit 16 (gs_base gs) AND 0xFF)\<rparr>;
          g = g\<lparr>base_24_31_bits := ucast (drop_bit 24 (gs_base gs) AND 0xFF)\<rparr>
      in g\<lparr>access_type := gs_access_type gs\<rparr>)"

text \<open>
  The loop.  \<open>None\<close> is an access beyond one of the arrays; an error leaves the entries
  already translated in place.
\<close>

function gdt_loop ::
    "gdt_t list \<Rightarrow> gdt_structured_t list \<Rightarrow> nat \<Rightarrow> nat \<Rightarrow> (int \<times> gdt_t list) option" where
  "gdt_loop gdt gdt_s total_entries i =
     (if i < total_entries then
        if i < length gdt_s \<and> i < length gdt then
          if gdt_limit_invalid (gdt_s ! i) then Some (- EINVARG, gdt)
          else gdt_loop (gdt[i := gdt_encode (gdt ! i) (gdt_s ! i)]) gdt_s total_entries (Suc i)
        else None
      else Some (0, gdt))"
  by pat_completeness auto
termination
  by (relation "measure (\<lambda>(gdt, gdt_s, total_entries, i). total_entries - i)") auto

declare gdt_loop.simps [simp del]

definition gdt_structured_to_gdt ::
    "gdt_t list \<Rightarrow> gdt_structured_t list \<Rightarrow> nat \<Rightarrow> (int \<times> gdt_t list) option" where
  "gdt_structured_to_gdt gdt gdt_s total_entries = gdt_loop gdt gdt_s total_entries 0"

section \<open>The kernel's table\<close>

text \<open>
  \<open>kernel.c\<close> describes six segments; the address of the task state segment is chosen by
  the linker, and \<open>sizeof(tss)\<close> is the size of its 26 packed 32-bit fields.
\<close>

definition sizeof_tss :: "32 word" where
  "sizeof_tss = 104"

definition gdt_structured_table :: "32 word \<Rightarrow> gdt_structured_t list" where
  "gdt_structured_table tss_addr =
     [\<lparr>gs_base = 0, gs_limit = 0, gs_access_type = 0x00\<rparr>,
      \<lparr>gs_base = 0, gs_limit = 0xFFFFFFFF, gs_access_type = 0x9A\<rparr>,
      \<lparr>gs_base = 0, gs_limit = 0xFFFFFFFF, gs_access_type = 0x92\<rparr>,
      \<lparr>gs_base = 0, gs_limit = 0xFFFFFFFF, gs_access_type = 0xF8\<rparr>,
      \<lparr>gs_base = 0, gs_limit = 0xFFFFFFFF, gs_access_type = 0xF2\<rparr>,
      \<lparr>gs_base = tss_addr, gs_limit = sizeof_tss, gs_access_type = 0xE9\<rparr>]"

definition zero_gdt :: gdt_t where
  "zero_gdt = \<lparr>limit_first = 0, base_first = 0, base = 0, access_type = 0,
     flags_and_limit = 0, base_24_31_bits = 0\<rparr>"

text \<open>
  \<open>gdt_table_init\<close>: the table is cleared and translated; the result code is ignored.  The
  value is the table and the size operand handed to \<open>gdt_load\<close> (a descriptor is 8 bytes).
\<close>

definition gdt_table_init :: "32 word \<Rightarrow> (gdt_t list \<times> int) option" where
  "gdt_table_init tss_addr =
     do { let table = replicate KERNEL_TOTAL_GDT_SEGMENTS zero_gdt;
          let total_entries = KERNEL_TOTAL_GDT_SEGMENTS;
          (_, table) \<leftarrow> gdt_structured_to_gdt table (gdt_structured_table tss_addr) total_entries;
          Some (table, int total_entries * 8 - 1) }"

section \<open>The processor's reading of a descriptor\<close>

definition desc_base :: "gdt_t \<Rightarrow> int" where
  "desc_base g = uint (base_first g) + 65536 * uint (base g) + 16777216 * uint (base_24_31_bits g)"

definition desc_raw_limit :: "gdt_t \<Rightarrow> int" where
  "desc_raw_limit g = uint (limit_first g) + 65536 * (uint (flags_and_limit g) mod 16)"

text \<open>With the granularity bit the limit counts 4 KB pages, and covers the last one whole.\<close>

definition desc_limit :: "gdt_t \<Rightarrow> int" where
  "desc_limit g =
     (if bit (flags_and_limit g) 7 then desc_raw_limit g * 4096 + 4095 else desc_raw_limit g)"

definition desc_is_32bit :: "gdt_t \<Rightarrow> bool" where
  "desc_is_32bit g \<longleftrightarrow> bit (flags_and_limit g) 6"

text \<open>Every byte of a packed descriptor, in memory order.\<close>

definition desc_bytes :: "gdt_t \<Rightarrow> int list" where
  "desc_bytes g =
     [uint (limit_first g) mod 256, uint (limit_first g) div 256,
      uint (base_first g) mod 256, uint (base_first g) div 256,
      uint (base g), uint (access_type g), uint (flags_and_limit g), uint (base_24_31_bits g)]"

section \<open>Exactness\<close>

lemma byte_nibble_cases:
  assumes "uint (x :: 8 word) < 16"
  shows "x \<in> {0, 1, 2, 3, 4, 5, 6, 7, 8, 9, 10, 11, 12, 13, 14, 15}"
proof -
  have "x = word_of_int (uint x)" by simp
  moreover have "uint x \<in> {0..15}" using assms by simp
  then have "uint x \<in> {0, 1, 2, 3, 4, 5, 6, 7, 8, 9, 10, 11, 12, 13, 14, 15}"
    unfolding atLeastAtMost_iff insert_iff empty_iff by presburger
  ultimately show ?thesis
    by (elim insertE) (metis insertCI word_of_int_0 word_of_int_1 word_of_int_numeral emptyE)+
qed

lemma flags_or_nibble:
  assumes "uint (x :: 8 word) < 16"
  shows "uint (0x40 OR x) mod 16 = uint x \<and> uint (0xC0 OR x) mod 16 = uint x
    \<and> \<not> bit (0x40 OR x) 7 \<and> bit (0xC0 OR x) 7 \<and> bit (0x40 OR x) 6 \<and> bit (0xC0 OR x) 6"
  using byte_nibble_cases [OF assms] by (elim insertE) simp_all

lemma split_limbs:
  "b mod 65536 + 65536 * (b div 65536 mod 256) + 16777216 * (b div 16777216) = b" for b :: int
proof -
  let ?q = "b div 65536"
  have "b div 16777216 = ?q div 256"
    using zdiv_zmult2_eq [of 256 b 65536] by simp
  moreover have "?q mod 256 + 256 * (?q div 256) = ?q" "b mod 65536 + 65536 * ?q = b" by simp_all
  ultimately show ?thesis by linarith
qed

lemma limit_invalid_iff:
  "gdt_limit_invalid gs \<longleftrightarrow> uint (gs_limit gs) > 0xFFFF \<and> uint (gs_limit gs) mod 4096 \<noteq> 4095"
  by (simp add: gdt_limit_invalid_def word_uint_eq_iff c_simps)

lemma gdt_encode_flags:
  fixes gs :: gdt_structured_t
  defines "l \<equiv> uint (gs_limit gs)"
  shows "uint (flags_and_limit (gdt_encode g gs)) mod 16 =
      (if l > 0xFFFF then l div 4096 div 65536 else 0)
    \<and> (bit (flags_and_limit (gdt_encode g gs)) 7 \<longleftrightarrow> l > 0xFFFF)
    \<and> bit (flags_and_limit (gdt_encode g gs)) 6"
proof -
  have l: "l < 4294967296" "0 \<le> l" by (simp_all add: l_def)
  define x where
    "x = (ucast (drop_bit 16 (if l > 0xFFFF then drop_bit 12 (gs_limit gs) else gs_limit gs) AND 0x0F) :: 8 word)"
  have "l div 4096 div 65536 < 16" using l by linarith
  then have x: "uint x = (if l > 0xFFFF then l div 4096 div 65536 else 0)"
    using l by (auto simp: x_def c_simps l_def pos_imp_zdiv_nonneg_iff)
  then have "uint x < 16" using \<open>l div 4096 div 65536 < 16\<close> by simp
  moreover have "flags_and_limit (gdt_encode g gs) = (if l > 0xFFFF then 0xC0 else 0x40) OR x"
    by (simp add: gdt_encode_def x_def l_def Let_def)
  ultimately show ?thesis
    using flags_or_nibble [of x] x by simp
qed

lemma gdt_encode_base: "desc_base (gdt_encode g gs) = uint (gs_base gs)"
proof -
  let ?b = "uint (gs_base gs)"
  have "?b div 16777216 < 256" "0 \<le> ?b div 16777216"
    using uint32_range(1) [of "gs_base gs"] uint_ge_0 [of "gs_base gs"] by linarith+
  then have "desc_base (gdt_encode g gs) =
      ?b mod 65536 + 65536 * (?b div 65536 mod 256) + 16777216 * (?b div 16777216)"
    by (simp add: desc_base_def gdt_encode_def Let_def c_simps split: prod.split)
  then show ?thesis by (simp only: split_limbs)
qed

lemma gdt_encode_limit:
  assumes "\<not> gdt_limit_invalid gs"
  shows "desc_limit (gdt_encode g gs) = uint (gs_limit gs)"
proof -
  let ?l = "uint (gs_limit gs)"
  have first: "uint (limit_first (gdt_encode g gs)) = (if ?l > 0xFFFF then ?l div 4096 else ?l) mod 65536"
    by (simp add: gdt_encode_def Let_def c_simps split: prod.split)
  note flags = gdt_encode_flags [of g gs]
  show ?thesis
  proof (cases "?l > 0xFFFF")
    case True
    with assms have "?l mod 4096 = 4095" by (simp add: limit_invalid_iff)
    then have "?l div 4096 * 4096 + 4095 = ?l"
      using div_mult_mod_eq [of ?l 4096] by simp
    with True first flags show ?thesis by (simp add: desc_limit_def desc_raw_limit_def)
  next
    case False
    with first flags show ?thesis by (simp add: desc_limit_def desc_raw_limit_def)
  qed
qed

text \<open>What a packed descriptor has to be for a segment description to be represented by it.\<close>

definition describes :: "gdt_t \<Rightarrow> gdt_structured_t \<Rightarrow> bool" where
  "describes g gs \<longleftrightarrow>
     desc_base g = uint (gs_base gs) \<and> desc_limit g = uint (gs_limit gs) \<and>
     access_type g = gs_access_type gs \<and> desc_is_32bit g"

lemma gdt_encode_describes: "\<not> gdt_limit_invalid gs \<Longrightarrow> describes (gdt_encode g gs) gs"
  using gdt_encode_flags [of g gs]
  by (simp add: describes_def gdt_encode_base gdt_encode_limit desc_is_32bit_def)
     (simp add: gdt_encode_def Let_def split: prod.split)

text \<open>While the descriptions are valid the loop only translates.\<close>

lemma gdt_loop_prefix:
  "k \<le> n \<Longrightarrow> n \<le> length gdt_s \<Longrightarrow> n \<le> length gdt \<Longrightarrow> i \<le> k \<Longrightarrow>
     (\<And>j. i \<le> j \<Longrightarrow> j < k \<Longrightarrow> \<not> gdt_limit_invalid (gdt_s ! j)) \<Longrightarrow>
     gdt_loop gdt gdt_s n i =
       gdt_loop (take i gdt @ map2 gdt_encode (take (k - i) (drop i gdt)) (take (k - i) (drop i gdt_s))
                @ drop k gdt) gdt_s n k"
proof (induction gdt gdt_s n i rule: gdt_loop.induct)
  case (1 gdt gdt_s n i)
  show ?case
  proof (cases "i = k")
    case True
    then show ?thesis by simp
  next
    case False
    with "1.prems" have ik: "i < k" "i < n" by auto
    let ?gdt = "gdt[i := gdt_encode (gdt ! i) (gdt_s ! i)]"
    have "gdt_loop gdt gdt_s n i = gdt_loop ?gdt gdt_s n (Suc i)"
      using ik "1.prems" by (subst gdt_loop.simps) simp
    moreover have "drop i gdt = gdt ! i # drop (Suc i) gdt" "drop i gdt_s = gdt_s ! i # drop (Suc i) gdt_s"
      "k - i = Suc (k - Suc i)"
      using ik "1.prems" by (simp_all add: Cons_nth_drop_Suc)
    moreover have "gdt_loop ?gdt gdt_s n (Suc i) =
        gdt_loop (take (Suc i) ?gdt @ map2 gdt_encode (take (k - Suc i) (drop (Suc i) ?gdt))
          (take (k - Suc i) (drop (Suc i) gdt_s)) @ drop k ?gdt) gdt_s n k"
      using ik "1.prems" by (intro "1.IH") auto
    ultimately show ?thesis
      using ik "1.prems" by (simp add: take_Suc_conv_app_nth drop_update_cancel)
  qed
qed

lemma gdt_loop_end: "gdt_loop gdt gdt_s n n = Some (0, gdt)"
  by (subst gdt_loop.simps) simp

lemma gdt_loop_stop:
  "i < n \<Longrightarrow> n \<le> length gdt_s \<Longrightarrow> n \<le> length gdt \<Longrightarrow> gdt_limit_invalid (gdt_s ! i) \<Longrightarrow>
     gdt_loop gdt gdt_s n i = Some (- EINVARG, gdt)"
  by (subst gdt_loop.simps) simp

lemma nth_translated:
  "i < k \<Longrightarrow> k \<le> length gdt \<Longrightarrow> k \<le> length gdt_s \<Longrightarrow>
     (map2 gdt_encode (take k gdt) (take k gdt_s) @ drop k gdt) ! i = gdt_encode (gdt ! i) (gdt_s ! i)"
  by (simp add: nth_append)

lemma length_gdt_structured_table [simp]: "length (gdt_structured_table a) = 6"
  by (simp add: gdt_structured_table_def)

lemma gdt_structured_table_valid:
  assumes "i < 6"
  shows "\<not> gdt_limit_invalid (gdt_structured_table a ! i)"
proof -
  have "i \<in> {0, 1, 2, 3, 4, 5}" using assms by auto
  then show ?thesis
    by (elim insertE) (simp_all add: gdt_structured_table_def gdt_limit_invalid_def sizeof_tss_def)
qed

lemma gdt_table_init_all:
  "\<exists>t. gdt_table_init tss_addr = Some (t, 47) \<and> length t = 6
    \<and> desc_bytes (t ! 0) = [0, 0, 0, 0, 0, 0, 0x40, 0]
    \<and> desc_bytes (t ! 1) = [0xFF, 0xFF, 0, 0, 0, 0x9A, 0xCF, 0]
    \<and> desc_bytes (t ! 2) = [0xFF, 0xFF, 0, 0, 0, 0x92, 0xCF, 0]
    \<and> (\<forall>i < 6. describes (t ! i) (gdt_structured_table tss_addr ! i))"
proof -
  let ?z = "replicate 6 zero_gdt" and ?s = "gdt_structured_table tss_addr"
  let ?t = "map2 gdt_encode ?z ?s"
  have run: "gdt_structured_to_gdt ?z ?s 6 = Some (0, ?t)"
    using gdt_loop_prefix [of 6 6 ?s ?z 0] gdt_structured_table_valid [of _ tss_addr]
    by (simp add: gdt_structured_to_gdt_def gdt_loop_end)
  show ?thesis
  proof (intro exI conjI)
    show "gdt_table_init tss_addr = Some (?t, 47)" using run by (simp add: gdt_table_init_def)
    show "length ?t = 6" by simp
    show "\<forall>i < 6. describes (?t ! i) (?s ! i)"
      by (simp add: gdt_structured_table_valid gdt_encode_describes)
    have "?s ! 0 = \<lparr>gs_base = 0, gs_limit = 0, gs_access_type = 0x00\<rparr>"
      "?s ! 1 = \<lparr>gs_base = 0, gs_limit = 0xFFFFFFFF, gs_access_type = 0x9A\<rparr>"
      "?s ! 2 = \<lparr>gs_base = 0, gs_limit = 0xFFFFFFFF, gs_access_type = 0x92\<rparr>"
      by (simp_all add: gdt_structured_table_def)
    then show "desc_bytes (?t ! 0) = [0, 0, 0, 0, 0, 0, 0x40, 0]"
      "desc_bytes (?t ! 1) = [0xFF, 0xFF, 0, 0, 0, 0x9A, 0xCF, 0]"
      "desc_bytes (?t ! 2) = [0xFF, 0xFF, 0, 0, 0, 0x92, 0xCF, 0]"
      by (simp_all add: desc_bytes_def gdt_encode_def Let_def zero_gdt_def)
  qed
qed

section \<open>Properties\<close>

text \<open>C36: when every description is representable, the translation succeeds, and the
processor reads back from each descriptor exactly the base, the byte limit and the access type
that were described; entries beyond \<open>total_entries\<close> keep their value.\<close>

theorem gdt_translation_exact:
  assumes "n \<le> length gdt" and "n \<le> length gdt_s"
    and "\<And>i. i < n \<Longrightarrow> \<not> gdt_limit_invalid (gdt_s ! i)"
  shows "\<exists>gdt'. gdt_structured_to_gdt gdt gdt_s n = Some (0, gdt') \<and> length gdt' = length gdt
    \<and> (\<forall>i < n. describes (gdt' ! i) (gdt_s ! i)) \<and> drop n gdt' = drop n gdt"
proof (intro exI conjI)
  let ?gdt = "map2 gdt_encode (take n gdt) (take n gdt_s) @ drop n gdt"
  show "gdt_structured_to_gdt gdt gdt_s n = Some (0, ?gdt)"
    using gdt_loop_prefix [of n n gdt_s gdt 0] assms
    by (simp add: gdt_structured_to_gdt_def gdt_loop_end)
  show "length ?gdt = length gdt" using assms by simp
  show "drop n ?gdt = drop n gdt" using assms by simp
  show "\<forall>i < n. describes (?gdt ! i) (gdt_s ! i)"
    using assms by (simp add: nth_translated gdt_encode_describes del: nth_append)
qed

theorem gdt_translation_exact_witness:
  "\<exists>gdt'. gdt_structured_to_gdt (replicate 6 zero_gdt) (gdt_structured_table 0x123456) 6 = Some (0, gdt')
    \<and> describes (gdt' ! 5) (gdt_structured_table 0x123456 ! 5)"
  using gdt_translation_exact [of 6 "replicate 6 zero_gdt" "gdt_structured_table 0x123456"]
    gdt_structured_table_valid [of _ "0x123456"] by auto

text \<open>The first description whose limit is above 64 KB and not the end of a 4 KB page
stops the translation with \<open>-EINVARG\<close>: the entries before it are translated exactly, it and
all later entries keep their old value.\<close>

theorem gdt_translation_error:
  assumes "n \<le> length gdt" and "n \<le> length gdt_s" and "k < n"
    and "gdt_limit_invalid (gdt_s ! k)" and "\<And>i. i < k \<Longrightarrow> \<not> gdt_limit_invalid (gdt_s ! i)"
  shows "\<exists>gdt'. gdt_structured_to_gdt gdt gdt_s n = Some (- EINVARG, gdt') \<and> length gdt' = length gdt
    \<and> (\<forall>i < k. describes (gdt' ! i) (gdt_s ! i)) \<and> drop k gdt' = drop k gdt"
proof (intro exI conjI)
  let ?gdt = "map2 gdt_encode (take k gdt) (take k gdt_s) @ drop k gdt"
  have len: "length ?gdt = length gdt" using assms by simp
  have "gdt_structured_to_gdt gdt gdt_s n = gdt_loop ?gdt gdt_s n k"
    using gdt_loop_prefix [of k n gdt_s gdt 0] assms by (simp add: gdt_structured_to_gdt_def)
  then show "gdt_structured_to_gdt gdt gdt_s n = Some (- EINVARG, ?gdt)"
    using gdt_loop_stop [of k n gdt_s ?gdt] assms len by simp
  show "length ?gdt = length gdt" by (rule len)
  show "drop k ?gdt = drop k gdt" using assms by simp
  show "\<forall>i < k. describes (?gdt ! i) (gdt_s ! i)"
    using assms by (simp add: nth_translated gdt_encode_describes del: nth_append)
qed

theorem gdt_translation_error_witness:
  "\<exists>gdt'. gdt_structured_to_gdt [zero_gdt] [\<lparr>gs_base = 0, gs_limit = 0x10000, gs_access_type = 0x9A\<rparr>] 1 =
      Some (- EINVARG, gdt') \<and> gdt' = [zero_gdt]"
  using gdt_translation_error [of 1 "[zero_gdt]"
      "[\<lparr>gs_base = 0, gs_limit = 0x10000, gs_access_type = 0x9A\<rparr>]" 0]
  by (auto simp: gdt_limit_invalid_def)

text \<open>The table the kernel loads, wherever the linker puts the task state segment: the
translation succeeds, its size operand is one less than its 48 bytes, and its code and data
segments are byte for byte those that \<open>boot.asm\<close> entered protected mode with.\<close>

theorem gdt_table_init_layout:
  "\<exists>t. gdt_table_init tss_addr = Some (t, 47) \<and> length t = 6
    \<and> desc_bytes (t ! 0) = [0, 0, 0, 0, 0, 0, 0x40, 0]
    \<and> desc_bytes (t ! 1) = [0xFF, 0xFF, 0, 0, 0, 0x9A, 0xCF, 0]
    \<and> desc_bytes (t ! 2) = [0xFF, 0xFF, 0, 0, 0, 0x92, 0xCF, 0]
    \<and> (\<forall>i < 6. describes (t ! i) (gdt_structured_table tss_addr ! i))"
  by (rule gdt_table_init_all)

theorem gdt_table_init_layout_witness:
  "\<exists>t. gdt_table_init 0x100000 = Some (t, 47)
    \<and> describes (t ! 5) \<lparr>gs_base = 0x100000, gs_limit = 104, gs_access_type = 0xE9\<rparr>"
proof -
  have seg: "gdt_structured_table 0x100000 ! 5 = \<lparr>gs_base = 0x100000, gs_limit = 104, gs_access_type = 0xE9\<rparr>"
    by (simp add: gdt_structured_table_def sizeof_tss_def)
  show ?thesis
    unfolding seg [symmetric] using gdt_table_init_layout [of "0x100000"] by fastforce
qed

end
