(* ===== verification/Idt.thy ===== *)
theory Idt
  imports Terminal
begin

text \<open>
  \<open>idt/idt.c\<close> and \<open>idt/idt.h\<close>: the interrupt descriptor table.  The addresses of the
  table and of the two assembly entry points are the linker's, hence parameters; loading the
  table register and enabling interrupts (\<open>idt.asm\<close>, \<open>kernel.asm\<close>) are recorded in the state.
\<close>

record idt_desc =
  offset_1 :: "16 word"
  selector :: "16 word"
  zero_field :: "8 word"
  type_attributes :: "8 word"
  offset_2 :: "16 word"

record idtr_desc =
  idtr_limit :: "16 word"
  idtr_base :: "32 word"

record idt_state =
  idt_descriptors :: "idt_desc list"
  idtr_descriptor :: idtr_desc
  loaded_idtr :: "idtr_desc option"
  interrupts_enabled :: bool

definition zero_idt_desc :: idt_desc where
  "zero_idt_desc =
     \<lparr>offset_1 = 0, selector = 0, zero_field = 0, type_attributes = 0, offset_2 = 0\<rparr>"

text \<open>The five stores of \<open>set_interrupt_handler\<close>; \<open>None\<close> is an index outside the table.\<close>

definition set_interrupt_handler :: "int \<Rightarrow> 32 word \<Rightarrow> idt_state \<Rightarrow> idt_state option" where
  "set_interrupt_handler int_no handler_addr s =
     (if 0 \<le> int_no \<and> int_no < int (length (idt_descriptors s)) then
        let d = idt_descriptors s ! nat int_no;
            d = d\<lparr>offset_1 := ucast (handler_addr AND 0xFFFF)\<rparr>;
            d = d\<lparr>selector := word_of_int KERNEL_CODE_SELECTOR\<rparr>;
            d = d\<lparr>type_attributes := 0xEE\<rparr>;
            d = d\<lparr>zero_field := 0\<rparr>;
            d = d\<lparr>offset_2 := ucast (drop_bit 16 handler_addr)\<rparr>
        in Some (s\<lparr>idt_descriptors := (idt_descriptors s)[nat int_no := d]\<rparr>)
      else None)"

function set_all_handlers :: "nat \<Rightarrow> 32 word \<Rightarrow> idt_state \<Rightarrow> idt_state option" where
  "set_all_handlers i handler s =
     (if i < OS_TOTAL_INTERRUPTS then
        (case set_interrupt_handler (int i) handler s of
           None \<Rightarrow> None
         | Some s \<Rightarrow> set_all_handlers (Suc i) handler s)
      else Some s)"
  by pat_completeness auto
termination
  by (relation "measure (\<lambda>(i, handler, s). OS_TOTAL_INTERRUPTS - i)") auto

declare set_all_handlers.simps [simp del]

text \<open>
  \<open>idtr_init\<close>: an entry is 8 bytes, so \<open>sizeof(idt_descriptors) - 1\<close> is 4095.
\<close>

definition idtr_init :: "32 word \<Rightarrow> 32 word \<Rightarrow> 32 word \<Rightarrow> idt_state \<Rightarrow> idt_state option" where
  "idtr_init table_addr no_interrupt int21h s =
     do { let s = s\<lparr>idt_descriptors := replicate OS_TOTAL_INTERRUPTS zero_idt_desc\<rparr>;
          let s = s\<lparr>idtr_descriptor :=
                      \<lparr>idtr_limit = word_of_int (int OS_TOTAL_INTERRUPTS * 8 - 1),
                       idtr_base = table_addr\<rparr>\<rparr>;
          s \<leftarrow> set_all_handlers 0 no_interrupt s;
          s \<leftarrow> set_interrupt_handler 0x21 int21h s;
          let s = s\<lparr>loaded_idtr := Some (idtr_descriptor s)\<rparr>;
          Some (s\<lparr>interrupts_enabled := True\<rparr>) }"

text \<open>
  The C parts of the two interrupt handlers: what they print and the bytes they write to
  I/O ports, in order.  The message is the string literal's array.
\<close>

definition int21h_handler ::
    "(int \<Rightarrow> byte) \<Rightarrow> terminal \<Rightarrow> (terminal \<times> (int \<times> int) list) option" where
  "int21h_handler msg t = do { t \<leftarrow> print_string msg t; Some (t, [(0x20, 0x20)]) }"

definition no_interrupt_handler :: "(int \<times> int) list" where
  "no_interrupt_handler = [(0x20, 0x20)]"

section \<open>What the processor finds\<close>

text \<open>The processor's reading of a gate: the handler's address, its segment, and its type.\<close>

definition gate_offset :: "idt_desc \<Rightarrow> int" where
  "gate_offset d = uint (offset_1 d) + 65536 * uint (offset_2 d)"

definition gate_for :: "32 word \<Rightarrow> idt_desc \<Rightarrow> bool" where
  "gate_for handler d \<longleftrightarrow>
     gate_offset d = uint handler \<and> selector d = 8 \<and> zero_field d = 0 \<and> type_attributes d = 0xEE"

lemma set_interrupt_handler_Some:
  assumes "i < length (idt_descriptors s)"
  shows "\<exists>d. set_interrupt_handler (int i) h s =
      Some (s\<lparr>idt_descriptors := (idt_descriptors s)[i := d]\<rparr>) \<and> gate_for h d"
proof -
  have "uint h div 65536 < 65536" "0 \<le> uint h div 65536"
    using uint32_range(1) [of h] uint_ge_0 [of h] by linarith+
  then show ?thesis
    using assms
    by (auto simp: set_interrupt_handler_def Let_def gate_for_def gate_offset_def c_simps)
qed

lemma set_all_handlers_Some:
  "i \<le> 512 \<Longrightarrow> length (idt_descriptors s) = 512 \<Longrightarrow>
     \<exists>ds. set_all_handlers i h s = Some (s\<lparr>idt_descriptors := ds\<rparr>) \<and> length ds = 512 \<and>
       take i ds = take i (idt_descriptors s) \<and> (\<forall>j. i \<le> j \<and> j < 512 \<longrightarrow> gate_for h (ds ! j))"
proof (induction "512 - i" arbitrary: i s)
  case 0
  then have "set_all_handlers i h s = Some (s\<lparr>idt_descriptors := idt_descriptors s\<rparr>)"
    by (subst set_all_handlers.simps) simp
  with 0 show ?case by (intro exI [of _ "idt_descriptors s"]) auto
next
  case (Suc n)
  then have i: "i < 512" and n: "n = 512 - Suc i" by simp_all
  obtain d where d: "set_interrupt_handler (int i) h s =
      Some (s\<lparr>idt_descriptors := (idt_descriptors s)[i := d]\<rparr>)" "gate_for h d"
    using set_interrupt_handler_Some [of i s h] i Suc.prems by auto
  let ?s = "s\<lparr>idt_descriptors := (idt_descriptors s)[i := d]\<rparr>"
  obtain ds where ds: "set_all_handlers (Suc i) h ?s = Some (?s\<lparr>idt_descriptors := ds\<rparr>)"
    "length ds = 512" "take (Suc i) ds = take (Suc i) (idt_descriptors ?s)"
    "\<forall>j. Suc i \<le> j \<and> j < 512 \<longrightarrow> gate_for h (ds ! j)"
    using Suc.hyps(1) [of "Suc i" ?s] n Suc.prems i by auto
  have "take i ds = take i (idt_descriptors s)"
    using arg_cong [OF ds(3), of "take i"] by (simp add: min_def)
  moreover have "ds ! i = d"
    using arg_cong [OF ds(3), of "\<lambda>xs. xs ! i"] Suc.prems i by simp
  then have "\<forall>j. i \<le> j \<and> j < 512 \<longrightarrow> gate_for h (ds ! j)"
    using ds(4) d(2) by (metis Suc_leI le_neq_implies_less)
  ultimately show ?case
    using d(1) ds(1,2) i
    by (subst set_all_handlers.simps) (intro exI [of _ ds], simp)
qed

lemma idtr_init_all:
  "\<exists>s'. idtr_init table_addr no_int int21 s = Some s' \<and> length (idt_descriptors s') = 512
    \<and> (\<forall>i < 512. gate_for (if i = 0x21 then int21 else no_int) (idt_descriptors s' ! i))
    \<and> loaded_idtr s' = Some \<lparr>idtr_limit = 4095, idtr_base = table_addr\<rparr> \<and> interrupts_enabled s'"
proof -
  let ?s0 = "s\<lparr>idt_descriptors := replicate 512 zero_idt_desc,
    idtr_descriptor := \<lparr>idtr_limit = 4095, idtr_base = table_addr\<rparr>\<rparr>"
  obtain ds where ds: "set_all_handlers 0 no_int ?s0 = Some (?s0\<lparr>idt_descriptors := ds\<rparr>)"
    "length ds = 512" "\<forall>j < 512. gate_for no_int (ds ! j)"
    using set_all_handlers_Some [of 0 ?s0 no_int] by auto
  let ?s1 = "?s0\<lparr>idt_descriptors := ds\<rparr>"
  obtain d where d: "set_interrupt_handler (int 0x21) int21 ?s1 =
      Some (?s1\<lparr>idt_descriptors := ds[0x21 := d]\<rparr>)" "gate_for int21 d"
    using set_interrupt_handler_Some [of "0x21" ?s1 int21] ds(2) by auto
  have "idtr_init table_addr no_int int21 s =
      Some (?s1\<lparr>idt_descriptors := ds[0x21 := d], loaded_idtr := Some (idtr_descriptor ?s1),
        interrupts_enabled := True\<rparr>)"
    using ds(1) d(1) by (simp add: idtr_init_def)
  then show ?thesis using ds(2,3) d(2) by (simp add: nth_list_update)
qed

section \<open>Properties\<close>

text \<open>Initialisation returns with a table register that covers all 512 entries, an
interrupt gate to \<open>int21h\<close> at vector 0x21 and to \<open>no_interrupt\<close> at every other vector (each
gate's split offset reassembles to the handler's address), loaded and interrupts enabled.\<close>

theorem idtr_init_gates:
  "\<exists>s'. idtr_init table_addr no_int int21 s = Some s' \<and> length (idt_descriptors s') = 512
    \<and> (\<forall>i < 512. gate_for (if i = 0x21 then int21 else no_int) (idt_descriptors s' ! i))
    \<and> loaded_idtr s' = Some \<lparr>idtr_limit = 4095, idtr_base = table_addr\<rparr> \<and> interrupts_enabled s'"
  by (rule idtr_init_all)

theorem idtr_init_gates_witness:
  "\<exists>s'. idtr_init 0x5000 0x100100 0x100200
      \<lparr>idt_descriptors = [], idtr_descriptor = \<lparr>idtr_limit = 0, idtr_base = 0\<rparr>, loaded_idtr = None,
       interrupts_enabled = False\<rparr> = Some s'
    \<and> gate_for 0x100200 (idt_descriptors s' ! 0x21) \<and> gate_for 0x100100 (idt_descriptors s' ! 0x22)"
  (is "\<exists>s'. idtr_init _ _ _ ?s0 = Some s' \<and> _ s'")
proof -
  obtain s' where s': "idtr_init 0x5000 0x100100 0x100200 ?s0 = Some s'"
    and gates: "\<forall>i < 512. gate_for (if i = 0x21 then 0x100200 else 0x100100) (idt_descriptors s' ! i)"
    using idtr_init_gates [of "0x5000" "0x100100" "0x100200" ?s0] by blast
  show ?thesis
    using s' gates [rule_format, of 33] gates [rule_format, of 34] by simp
qed

end
