(* ===== verification/Heap.thy ===== *)
theory Heap
  imports Memory
begin

text \<open>
  \<open>memory/heap/heap.c\<close> and \<open>heap.h\<close>: the block allocator.  Its table (one byte per 4 KB
  block) and its data pool both lie in the flat memory, so every operation takes and returns
  the memory; a table entry is the byte at \<open>entries + i\<close>, also where \<open>i\<close> lies outside the
  table, as in the code.  \<open>heap_t\<close> holds its table descriptor by value, since the kernel has one
  of each.  \<open>heap_free\<close> runs as long as entries claim a successor, hence its \<open>option\<close>.
\<close>

section \<open>The structures\<close>

record heap_table_t =
  entries :: addr
  table_size :: int

record heap_t =
  table :: heap_table_t
  start_addr :: addr

definition HEAP_BLOCK_TABLE_ENTRY_TAKE :: byte where [simp]: "HEAP_BLOCK_TABLE_ENTRY_TAKE = 0x01"
definition HEAP_BLOCK_TABLE_ENTRY_FREE :: byte where [simp]: "HEAP_BLOCK_TABLE_ENTRY_FREE = 0x00"
definition HEAP_BLOCK_HAS_NEXT :: byte where [simp]: "HEAP_BLOCK_HAS_NEXT = 0x80"
definition HEAP_BLOCK_IS_FIRST :: byte where [simp]: "HEAP_BLOCK_IS_FIRST = 0x40"

section \<open>Creation\<close>

definition validate_alignment :: "addr \<Rightarrow> int \<Rightarrow> bool" where
  "validate_alignment ptr block_size \<longleftrightarrow> u32 ptr mod block_size = 0"

text \<open>
  \<open>heap_create\<close> gets the heap record to fill in and returns its value and the memory with the
  result; a block size of zero would divide by zero.
\<close>

definition heap_create ::
    "heap_t \<Rightarrow> addr \<Rightarrow> addr \<Rightarrow> int \<Rightarrow> int \<Rightarrow> mem \<Rightarrow> (int \<times> heap_t \<times> mem) option" where
  "heap_create heap_ptr heap_start table_start heap_size block_size m =
     (if block_size = 0 then None
      else
        let heap_end = heap_start + heap_size
        in if \<not> validate_alignment heap_start block_size \<or> \<not> validate_alignment heap_end block_size
           then Some (- EINVARG, heap_ptr, m)
           else
             let n = heap_size div block_size;
                 total_bytes = n * 1;
                 tab = \<lparr>entries = table_start, table_size = n\<rparr>;
                 m = memset m (entries tab) (uint HEAP_BLOCK_TABLE_ENTRY_FREE) (nat total_bytes)
             in Some (0, heap_ptr\<lparr>start_addr := heap_start, table := tab\<rparr>, m))"

section \<open>Allocation\<close>

definition heap_align_to_upper :: "int \<Rightarrow> int" where
  "heap_align_to_upper val =
     (let rem = val mod KERNEL_HEAP_BLOCK_SIZE
      in if rem = 0 then val else u32 (val + KERNEL_HEAP_BLOCK_SIZE - rem))"

definition is_free_block :: "mem \<Rightarrow> addr \<Rightarrow> bool" where
  "is_free_block m entry \<longleftrightarrow> HEAP_BLOCK_TABLE_ENTRY_TAKE AND m entry = 0"

function all_free :: "mem \<Rightarrow> addr \<Rightarrow> addr \<Rightarrow> bool" where
  "all_free m cur cur_end =
     (if cur < cur_end then if \<not> is_free_block m cur then False else all_free m (cur + 1) cur_end
      else True)"
  by pat_completeness auto
termination
  by (relation "measure (\<lambda>(m, cur, cur_end). nat (cur_end - cur))") auto

declare all_free.simps [simp del]

definition is_free_blocks :: "mem \<Rightarrow> addr \<Rightarrow> addr \<Rightarrow> addr \<Rightarrow> bool" where
  "is_free_blocks m cur_start cur_end end1 =
     (if cur_start \<ge> end1 then False else all_free m cur_start cur_end)"

function find_next_free_block :: "mem \<Rightarrow> addr \<Rightarrow> addr \<Rightarrow> addr" where
  "find_next_free_block m p end1 =
     (if \<not> is_free_block m p \<and> p < end1 then find_next_free_block m (p + 1) end1 else p)"
  by pat_completeness auto
termination
  by (relation "measure (\<lambda>(m, p, end1). nat (end1 - p))") auto

declare find_next_free_block.simps [simp del]

lemma find_next_ge: "p \<le> find_next_free_block m p end1"
proof (induction m p end1 rule: find_next_free_block.induct)
  case (1 m p end1)
  then show ?case by (subst find_next_free_block.simps) force
qed

function search_blocks :: "mem \<Rightarrow> addr \<Rightarrow> int \<Rightarrow> addr \<Rightarrow> addr" where
  "search_blocks m cur_start blocks end1 =
     (if cur_start < end1 then
        if is_free_blocks m cur_start (cur_start + blocks) end1 then cur_start
        else search_blocks m (find_next_free_block m (cur_start + 1) end1) blocks end1
      else 0)"
  by pat_completeness auto
termination
proof (relation "measure (\<lambda>(m, cur_start, blocks, end1). nat (end1 - cur_start))")
  fix m :: mem and cur_start blocks end1 :: int
  assume "cur_start < end1"
  then show "((m, find_next_free_block m (cur_start + 1) end1, blocks, end1), m, cur_start, blocks, end1)
      \<in> measure (\<lambda>(m, cur_start, blocks, end1). nat (end1 - cur_start))"
    using find_next_ge [of "cur_start + 1" m end1] by simp
qed simp

declare search_blocks.simps [simp del]

text \<open>The value 0 is the \<open>NULL\<close> of the code.\<close>

definition find_free_block_start :: "heap_t \<Rightarrow> int \<Rightarrow> mem \<Rightarrow> addr" where
  "find_free_block_start heap blocks m =
     (let start = entries (table heap);
          end1 = entries (table heap) + table_size (table heap);
          cur_start = find_next_free_block m start end1
      in search_blocks m cur_start blocks end1)"

function mark_loop :: "mem \<Rightarrow> addr \<Rightarrow> addr \<Rightarrow> addr \<Rightarrow> mem" where
  "mark_loop m start cur end1 =
     (if cur < end1 then
        let new_entry = HEAP_BLOCK_TABLE_ENTRY_TAKE;
            new_entry = (if cur = start then new_entry OR HEAP_BLOCK_IS_FIRST else new_entry);
            new_entry = (if cur < end1 - 1 then new_entry OR HEAP_BLOCK_HAS_NEXT else new_entry)
        in mark_loop (m(cur := new_entry)) start (cur + 1) end1
      else m)"
  by pat_completeness auto
termination
  by (relation "measure (\<lambda>(m, start, cur, end1). nat (end1 - cur))") auto

declare mark_loop.simps [simp del]

definition heap_mark_table_entries_taken :: "mem \<Rightarrow> addr \<Rightarrow> int \<Rightarrow> mem" where
  "heap_mark_table_entries_taken m start blocks = mark_loop m start start (start + blocks)"

definition heap_malloc_blocks :: "heap_t \<Rightarrow> int \<Rightarrow> mem \<Rightarrow> addr \<times> mem" where
  "heap_malloc_blocks heap blocks m =
     (let start = entries (table heap);
          free_start = find_free_block_start heap blocks m
      in if free_start \<noteq> 0 then
           let block_start = free_start - start;
               m = heap_mark_table_entries_taken m free_start blocks
           in (start_addr heap + s32 (block_start * KERNEL_HEAP_BLOCK_SIZE), m)
         else (0, m))"

definition heap_malloc :: "heap_t \<Rightarrow> nat \<Rightarrow> mem \<Rightarrow> addr \<times> mem" where
  "heap_malloc heap n m =
     (let aligned_size = s32 (heap_align_to_upper (int n));
          blocks = aligned_size sdiv KERNEL_HEAP_BLOCK_SIZE
      in heap_malloc_blocks heap blocks m)"

section \<open>Release\<close>

definition heap_table_entry_has_next :: "mem \<Rightarrow> addr \<Rightarrow> bool" where
  "heap_table_entry_has_next m entry \<longleftrightarrow> uint (HEAP_BLOCK_HAS_NEXT AND m entry) > 0"

text \<open>
  The \<open>do\<close> loop of \<open>heap_free\<close>.  Beside the memory the model returns the final value of the
  local \<open>cur_data_block\<close>: the cleared data is \<open>[ptr, cur_data_block)\<close>.
\<close>

partial_function (option) heap_free_loop :: "addr \<Rightarrow> addr \<Rightarrow> mem \<Rightarrow> (addr \<times> mem) option" where
  "heap_free_loop cur_data_block entry m =
     (let m = memset m cur_data_block 0 (nat KERNEL_HEAP_BLOCK_SIZE);
          m = m(entry := HEAP_BLOCK_TABLE_ENTRY_FREE);
          entry = entry + 1;
          cur_data_block = cur_data_block + KERNEL_HEAP_BLOCK_SIZE
      in if heap_table_entry_has_next m entry then heap_free_loop cur_data_block entry m
         else Some (cur_data_block, m))"

definition heap_free :: "heap_t \<Rightarrow> addr \<Rightarrow> mem \<Rightarrow> (addr \<times> mem) option" where
  "heap_free heap ptr m =
     (let block_start = (ptr - start_addr heap) sdiv KERNEL_HEAP_BLOCK_SIZE;
          entry = entries (table heap) + block_start
      in heap_free_loop ptr entry m)"

section \<open>The loops in closed form\<close>

lemma all_free_iff: "all_free m a b \<longleftrightarrow> (\<forall>c. a \<le> c \<and> c < b \<longrightarrow> is_free_block m c)"
proof (induction m a b rule: all_free.induct)
  case (1 m a b)
  have "(\<forall>c. a \<le> c \<and> c < b \<longrightarrow> is_free_block m c) \<longleftrightarrow>
      (is_free_block m a \<and> (\<forall>c. a + 1 \<le> c \<and> c < b \<longrightarrow> is_free_block m c))" if "a < b"
    using that ex_int_first [of a b "\<lambda>c. \<not> is_free_block m c"] by blast
  with 1 show ?case by (subst all_free.simps) auto
qed

lemma find_next_spec:
  "(\<forall>c. p \<le> c \<and> c < find_next_free_block m p e \<longrightarrow> \<not> is_free_block m c) \<and>
   (find_next_free_block m p e < e \<longrightarrow> is_free_block m (find_next_free_block m p e)) \<and>
   (p \<le> e \<longrightarrow> find_next_free_block m p e \<le> e)"
proof (induction m p e rule: find_next_free_block.induct)
  case (1 m p e)
  show ?case
  proof (cases "\<not> is_free_block m p \<and> p < e")
    case True
    have unf: "find_next_free_block m p e = find_next_free_block m (p + 1) e"
      using True by (subst find_next_free_block.simps) simp
    have "\<not> is_free_block m c" if "p \<le> c" "c < find_next_free_block m (p + 1) e" for c
      using "1.IH" [OF True] True that by (cases "c = p") auto
    with "1.IH" [OF True] True show ?thesis by (auto simp: unf)
  next
    case False
    then have "find_next_free_block m p e = p" by (subst find_next_free_block.simps) auto
    with False show ?thesis by auto
  qed
qed

text \<open>\<open>run_free m c n\<close>: the \<open>n\<close> table entries from address \<open>c\<close> on are free.\<close>

definition run_free :: "mem \<Rightarrow> addr \<Rightarrow> int \<Rightarrow> bool" where
  "run_free m c n \<longleftrightarrow> (\<forall>a. c \<le> a \<and> a < c + n \<longrightarrow> is_free_block m a)"

lemma run_free_first: "run_free m c n \<Longrightarrow> 0 < n \<Longrightarrow> is_free_block m c"
  by (simp add: run_free_def)

lemma search_blocks_spec:
  "0 < n \<Longrightarrow> 0 < c \<Longrightarrow>
     (search_blocks m c n e = 0 \<and> (\<forall>b. c \<le> b \<and> b < e \<longrightarrow> \<not> run_free m b n)) \<or>
     (c \<le> search_blocks m c n e \<and> search_blocks m c n e < e \<and>
      run_free m (search_blocks m c n e) n \<and>
      (\<forall>b. c \<le> b \<and> b < search_blocks m c n e \<longrightarrow> \<not> run_free m b n))"
proof (induction m c n e rule: search_blocks.induct)
  case (1 m c n e)
  show ?case
  proof (cases "c < e \<and> \<not> run_free m c n")
    case True
    let ?q = "find_next_free_block m (c + 1) e"
    have nf: "\<not> is_free_blocks m c (c + n) e"
      using True by (simp add: is_free_blocks_def all_free_iff run_free_def)
    have unf: "search_blocks m c n e = search_blocks m ?q n e"
      using True nf by (subst search_blocks.simps) simp
    have q: "c + 1 \<le> ?q" by (rule find_next_ge)
    have skip: "\<not> run_free m b n" if "c \<le> b" "b < ?q" for b
      using find_next_spec [of "c + 1" m e] that True run_free_first [of m b n] "1.prems"
      by (cases "b = c") auto
    from "1.IH" nf True q "1.prems" show ?thesis
      unfolding unf using skip by (smt (verit, best))
  next
    case False
    then show ?thesis
      by (subst (1 2 3 4 5) search_blocks.simps)
         (auto simp: is_free_blocks_def all_free_iff run_free_def)
  qed
qed

text \<open>The table bytes of a run of \<open>n\<close> blocks: the first one is marked, all but the last point on.\<close>

definition run_entry :: "int \<Rightarrow> int \<Rightarrow> byte" where
  "run_entry n i =
     (0x01 OR (if i = 0 then 0x40 else 0)) OR (if i < n - 1 then 0x80 else 0)"

definition mark_run :: "mem \<Rightarrow> addr \<Rightarrow> int \<Rightarrow> mem" where
  "mark_run m c n = (\<lambda>a. if c \<le> a \<and> a < c + n then run_entry n (a - c) else m a)"

lemma mark_run_zero [simp]: "mark_run m c 0 = m"
  by (rule ext) (auto simp: mark_run_def)

lemma run_entry_bits [simp]:
  "HEAP_BLOCK_TABLE_ENTRY_TAKE AND run_entry n i \<noteq> 0"
  "HEAP_BLOCK_HAS_NEXT AND run_entry n i \<noteq> 0 \<longleftrightarrow> i < n - 1"
  by (simp_all add: run_entry_def)

lemma mark_loop_eq:
  "start \<le> cur \<Longrightarrow> mark_loop m start cur (start + n) =
     (\<lambda>a. if cur \<le> a \<and> a < start + n then run_entry n (a - start) else m a)"
proof (induction "nat (start + n - cur)" arbitrary: cur m)
  case 0
  then show ?case by (subst mark_loop.simps) (auto simp: fun_eq_iff)
next
  case (Suc k)
  then have lt: "cur < start + n" by simp
  have "mark_loop m start cur (start + n) =
      mark_loop (m(cur := run_entry n (cur - start))) start (cur + 1) (start + n)"
    using lt by (subst mark_loop.simps) (simp add: run_entry_def)
  also have "\<dots> = (\<lambda>a. if cur + 1 \<le> a \<and> a < start + n then run_entry n (a - start)
      else (m(cur := run_entry n (cur - start))) a)"
    using Suc.hyps(2) Suc.prems by (intro Suc.hyps(1)) auto
  also have "\<dots> = (\<lambda>a. if cur \<le> a \<and> a < start + n then run_entry n (a - start) else m a)"
    using lt by (auto simp: fun_eq_iff)
  finally show ?case .
qed

lemma mark_taken_eq: "heap_mark_table_entries_taken m c n = mark_run m c n"
  by (simp add: heap_mark_table_entries_taken_def mark_loop_eq mark_run_def)

section \<open>Allocation and release on a laid-out heap\<close>

text \<open>
  The layout \<open>kheap_init\<close> sets up: a table below the page-aligned pool, with room for the
  byte after the table that \<open>heap_free\<close> inspects, and all addresses positive as \<open>int\<close>s.
\<close>

definition heap_layout :: "heap_t \<Rightarrow> bool" where
  "heap_layout h \<longleftrightarrow>
     0 < entries (table h) \<and> 0 \<le> table_size (table h) \<and>
     entries (table h) + table_size (table h) < start_addr h \<and>
     start_addr h mod 4096 = 0 \<and> start_addr h + table_size (table h) * 4096 < 2147483648"

text \<open>The table entry and the data of block \<open>b\<close>, and the number of blocks \<open>n\<close> bytes take.\<close>

definition entry_addr :: "heap_t \<Rightarrow> int \<Rightarrow> addr" where
  "entry_addr h b = entries (table h) + b"

definition block_addr :: "heap_t \<Rightarrow> int \<Rightarrow> addr" where
  "block_addr h b = start_addr h + 4096 * b"

definition blocks_for :: "nat \<Rightarrow> int" where
  "blocks_for n = (int n + 4095) div 4096"

lemma blocks_for_pos: "0 < n \<Longrightarrow> 0 < blocks_for n"
  by (simp add: blocks_for_def)

lemma blocks_for_one: "0 < n \<Longrightarrow> n \<le> 4096 \<Longrightarrow> blocks_for n = 1"
  unfolding blocks_for_def by (rule int_div_pos_eq [of _ 4096 1 "int n - 1"]) auto

lemma blocks_for_covers: "int n \<le> 4096 * blocks_for n" "4096 * blocks_for n < int n + 4096"
  unfolding blocks_for_def by linarith+

lemma div_round_up:
  fixes i q r :: int
  assumes "i = 4096 * q + r" and "0 < r" and "r < 4096"
  shows "(i + 4095) div 4096 = q + 1" and "(i + 4096 - r) div 4096 = q + 1"
  using assms int_div_pos_eq [of "i + 4095" 4096 "q + 1" "r - 1"]
    int_div_pos_eq [of "i + 4096 - r" 4096 "q + 1" 0] by simp_all

lemma aligned_blocks:
  assumes "n \<le> 2147479552"
  shows "s32 (heap_align_to_upper (int n)) sdiv KERNEL_HEAP_BLOCK_SIZE = blocks_for n"
proof -
  define q where "q = int n div 4096"
  define r where "r = int n mod 4096"
  have n: "int n = 4096 * q + r" "0 \<le> r" "r < 4096" "0 \<le> q" by (simp_all add: q_def r_def)
  show ?thesis
  proof (cases "r = 0")
    case True
    then have "heap_align_to_upper (int n) = int n" by (simp add: heap_align_to_upper_def r_def)
    moreover have "blocks_for n = q"
      unfolding blocks_for_def using n(1) True int_div_pos_eq [of "int n + 4095" 4096 q 4095] by simp
    ultimately show ?thesis using assms by (simp add: sdiv_nonneg q_def)
  next
    case False
    then have r: "0 < r" using n(2) by simp
    have b: "0 \<le> int n + 4096 - r" "int n + 4096 - r < 2147483648"
      using assms n r by linarith+
    have "heap_align_to_upper (int n) = u32 (int n + 4096 - r)"
      using False by (simp add: heap_align_to_upper_def Let_def r_def)
    then have "s32 (heap_align_to_upper (int n)) sdiv 4096 = (int n + 4096 - r) div 4096"
      using b by (simp add: sdiv_nonneg)
    then show ?thesis
      using div_round_up [OF n(1) r n(3)] by (simp add: blocks_for_def)
  qed
qed

text \<open>First fit: \<open>fits h m b n\<close> says that a run of \<open>n\<close> blocks may start at block \<open>b\<close>.\<close>

definition fits :: "heap_t \<Rightarrow> mem \<Rightarrow> int \<Rightarrow> int \<Rightarrow> bool" where
  "fits h m b n \<longleftrightarrow> 0 \<le> b \<and> b < table_size (table h) \<and> run_free m (entry_addr h b) n"

definition first_fit :: "heap_t \<Rightarrow> mem \<Rightarrow> int \<Rightarrow> int \<Rightarrow> bool" where
  "first_fit h m b n \<longleftrightarrow> fits h m b n \<and> (\<forall>c. c < b \<longrightarrow> \<not> fits h m c n)"

lemma find_free_block_start_spec:
  assumes "heap_layout h" and "0 < n"
  shows "(find_free_block_start h n m = 0 \<and> (\<forall>b. \<not> fits h m b n)) \<or>
    (\<exists>b. first_fit h m b n \<and> find_free_block_start h n m = entry_addr h b)"
proof -
  let ?s = "entries (table h)" and ?e = "entries (table h) + table_size (table h)"
  let ?c = "find_next_free_block m ?s ?e"
  let ?r = "search_blocks m ?c n ?e"
  have pos: "0 < ?s" and c: "?s \<le> ?c"
    using assms(1) find_next_ge by (auto simp: heap_layout_def)
  have r: "find_free_block_start h n m = ?r" by (simp add: find_free_block_start_def Let_def)
  have skip: "\<not> fits h m b n" if "?s + b < ?c" for b
    using that find_next_spec [of ?s m ?e] run_free_first [of m "?s + b" n] assms(2)
    by (auto simp: fits_def entry_addr_def)
  have search: "(?r = 0 \<and> (\<forall>b. ?c \<le> b \<and> b < ?e \<longrightarrow> \<not> run_free m b n)) \<or>
      (?c \<le> ?r \<and> ?r < ?e \<and> run_free m ?r n \<and> (\<forall>b. ?c \<le> b \<and> b < ?r \<longrightarrow> \<not> run_free m b n))"
    by (rule search_blocks_spec) (use assms pos c in auto)
  then show ?thesis
  proof
    assume none: "?r = 0 \<and> (\<forall>b. ?c \<le> b \<and> b < ?e \<longrightarrow> \<not> run_free m b n)"
    have "\<not> fits h m b n" for b
      using skip [of b] none by (cases "?s + b < ?c") (auto simp: fits_def entry_addr_def)
    with none r show ?thesis by simp
  next
    assume found: "?c \<le> ?r \<and> ?r < ?e \<and> run_free m ?r n \<and> (\<forall>b. ?c \<le> b \<and> b < ?r \<longrightarrow> \<not> run_free m b n)"
    have "\<not> fits h m b n" if "b < ?r - ?s" for b
      using skip [of b] found that by (cases "?s + b < ?c") (auto simp: fits_def entry_addr_def)
    moreover have "fits h m (?r - ?s) n" using found c by (simp add: fits_def entry_addr_def)
    ultimately have "first_fit h m (?r - ?s) n" by (simp add: first_fit_def)
    then show ?thesis using r by (intro disjI2 exI [of _ "?r - ?s"]) (simp add: entry_addr_def)
  qed
qed

lemma heap_malloc_cases:
  assumes h: "heap_layout h" and n: "0 < n" "n \<le> 2147479552"
  obtains (full) "heap_malloc h n m = (0, m)" "\<And>b. \<not> fits h m b (blocks_for n)"
  | (found) b where "first_fit h m b (blocks_for n)"
      "heap_malloc h n m = (block_addr h b, mark_run m (entry_addr h b) (blocks_for n))"
proof -
  let ?k = "blocks_for n"
  have m: "heap_malloc h n m = heap_malloc_blocks h ?k m"
    unfolding heap_malloc_def Let_def aligned_blocks [OF n(2)] ..
  show thesis
    using find_free_block_start_spec [OF h blocks_for_pos [OF n(1)], of m]
  proof (elim disjE exE conjE)
    assume "find_free_block_start h ?k m = 0" "\<forall>b. \<not> fits h m b ?k"
    then show thesis by (intro full) (auto simp: m heap_malloc_blocks_def)
  next
    fix b assume b: "first_fit h m b ?k" "find_free_block_start h ?k m = entry_addr h b"
    then have "0 \<le> b" "b < table_size (table h)" by (auto simp: first_fit_def fits_def)
    then have "entry_addr h b \<noteq> 0" "0 \<le> b * 4096" "b * 4096 < 2147483648"
      using h by (auto simp: heap_layout_def entry_addr_def)
    then have "heap_malloc_blocks h ?k m = (block_addr h b, mark_run m (entry_addr h b) ?k)"
      using b(2) by (simp add: heap_malloc_blocks_def mark_taken_eq block_addr_def entry_addr_def)
    with b(1) m show thesis by (intro found) simp_all
  qed
qed

text \<open>A request of no bytes asks for a run of no blocks: any free block satisfies it.\<close>

lemma search_blocks_zero:
  "c < e \<Longrightarrow> search_blocks m c 0 e = c"
  by (subst search_blocks.simps) (auto simp: is_free_blocks_def all_free_iff)

lemma heap_malloc_zero_eq:
  assumes h: "heap_layout h" and b: "first_fit h m b 1"
  shows "heap_malloc h 0 m = (block_addr h b, m)"
proof -
  let ?s = "entries (table h)" and ?e = "entries (table h) + table_size (table h)"
  let ?c = "find_next_free_block m ?s ?e"
  have bb: "0 \<le> b" "b < table_size (table h)" "is_free_block m (?s + b)"
    "\<And>c. 0 \<le> c \<Longrightarrow> c < b \<Longrightarrow> \<not> is_free_block m (?s + c)"
    using b by (auto simp: first_fit_def fits_def run_free_def entry_addr_def)
  have "?c = ?s + b"
  proof (rule antisym)
    show "?c \<le> ?s + b"
      using find_next_spec [of ?s m ?e] bb(1,3) by (meson le_add_same_cancel1 not_le)
    show "?s + b \<le> ?c"
    proof (rule ccontr)
      assume "\<not> ?s + b \<le> ?c"
      then have lt: "?c < ?s + b" by simp
      then have "is_free_block m ?c" using find_next_spec [of ?s m ?e] bb(2) by auto
      with bb(4) [of "?c - ?s"] lt show False using find_next_ge [of ?s m ?e] by simp
    qed
  qed
  then have "find_free_block_start h 0 m = ?s + b"
    using bb search_blocks_zero [of "?s + b" ?e m] by (simp add: find_free_block_start_def)
  moreover have "?s + b \<noteq> 0" "0 \<le> b * 4096" "b * 4096 < 2147483648"
    using h bb by (auto simp: heap_layout_def)
  ultimately have "heap_malloc_blocks h 0 m = (block_addr h b, m)"
    by (simp add: heap_malloc_blocks_def mark_taken_eq block_addr_def Let_def)
  then show ?thesis by (simp add: heap_malloc_def heap_align_to_upper_def)
qed

text \<open>The effect of the release loop over \<open>k\<close> blocks.\<close>

definition cleared :: "mem \<Rightarrow> addr \<Rightarrow> addr \<Rightarrow> nat \<Rightarrow> mem" where
  "cleared m d e k =
     (\<lambda>a. if e \<le> a \<and> a < e + int k \<or> d \<le> a \<and> a < d + 4096 * int k then 0 else m a)"

lemma cleared_entry: "a < d \<Longrightarrow> a < e \<or> e + int k \<le> a \<Longrightarrow> cleared m d e k a = m a"
  by (auto simp: cleared_def)

lemma cleared_Suc: "cleared (cleared m d e (Suc 0)) (d + 4096) (e + 1) k = cleared m d e (Suc k)"
  by (auto simp: cleared_def fun_eq_iff)

lemma has_next_cong: "m a = m' a \<Longrightarrow> heap_table_entry_has_next m a = heap_table_entry_has_next m' a"
  by (simp add: heap_table_entry_has_next_def)

lemma heap_free_loop_run:
  "(\<And>i. 0 < i \<Longrightarrow> i \<le> k \<Longrightarrow> heap_table_entry_has_next m (e + int i)) \<Longrightarrow>
     \<not> heap_table_entry_has_next m (e + int (Suc k)) \<Longrightarrow> e + int (Suc k) < d \<Longrightarrow>
     heap_free_loop d e m = Some (d + 4096 * int (Suc k), cleared m d e (Suc k))"
proof (induction k arbitrary: m d e)
  case 0
  have one: "(memset m d 0 4096)(e := 0) = cleared m d e (Suc 0)"
    using "0.prems" by (auto simp: cleared_def memset_eq fun_eq_iff)
  have "heap_table_entry_has_next (cleared m d e (Suc 0)) (e + 1) = heap_table_entry_has_next m (e + 1)"
    by (rule has_next_cong, rule cleared_entry) (use "0.prems" in auto)
  with 0 show ?case
    by (subst heap_free_loop.simps) (simp add: one)
next
  case (Suc k)
  let ?m = "cleared m d e (Suc 0)"
  have one: "(memset m d 0 4096)(e := 0) = ?m"
    using Suc.prems by (auto simp: cleared_def memset_eq fun_eq_iff)
  have keep: "heap_table_entry_has_next ?m a = heap_table_entry_has_next m a" if "e < a" "a < d" for a
    by (rule has_next_cong, rule cleared_entry) (use that in auto)
  have step: "heap_free_loop d e m = heap_free_loop (d + 4096) (e + 1) ?m"
    using Suc.prems(1) [of 1] keep [of "e + 1"] Suc.prems(3)
    by (subst heap_free_loop.simps) (simp add: one)
  have "heap_free_loop (d + 4096) (e + 1) ?m =
      Some (d + 4096 + 4096 * int (Suc k), cleared ?m (d + 4096) (e + 1) (Suc k))"
  proof (rule Suc.IH)
    fix i assume i: "0 < i" "i \<le> k"
    then show "heap_table_entry_has_next ?m (e + 1 + int i)"
      using Suc.prems(1) [of "Suc i"] Suc.prems(3) keep [of "e + 1 + int i"]
      by (simp add: algebra_simps)
  next
    show "\<not> heap_table_entry_has_next ?m (e + 1 + int (Suc k))"
      using Suc.prems(2,3) keep [of "e + 1 + int (Suc k)"] by (simp add: algebra_simps)
  qed (use Suc.prems(3) in simp)
  then show ?case by (simp add: step cleared_Suc)
qed

lemma heap_free_run:
  assumes "heap_layout h" and "0 \<le> b" and "b + int (Suc k) \<le> table_size (table h)"
    and "\<And>i. 0 < i \<Longrightarrow> i \<le> k \<Longrightarrow> heap_table_entry_has_next m (entry_addr h (b + int i))"
    and "\<not> heap_table_entry_has_next m (entry_addr h (b + int (Suc k)))"
  shows "heap_free h (block_addr h b) m =
    Some (block_addr h (b + int (Suc k)), cleared m (block_addr h b) (entry_addr h b) (Suc k))"
proof -
  have "(block_addr h b - start_addr h) sdiv KERNEL_HEAP_BLOCK_SIZE = b"
    using assms(2) by (simp add: block_addr_def sdiv_nonneg)
  then have "heap_free h (block_addr h b) m = heap_free_loop (block_addr h b) (entry_addr h b) m"
    by (simp add: heap_free_def entry_addr_def)
  also have "\<dots> = Some (block_addr h b + 4096 * int (Suc k), cleared m (block_addr h b) (entry_addr h b) (Suc k))"
    using assms by (intro heap_free_loop_run) (auto simp: entry_addr_def block_addr_def heap_layout_def algebra_simps)
  finally show ?thesis by (simp add: block_addr_def algebra_simps)
qed

lemma mark_run_has_next:
  "0 \<le> i \<Longrightarrow> i < n \<Longrightarrow> heap_table_entry_has_next (mark_run m c n) (c + i) \<longleftrightarrow> i < n - 1"
proof -
  assume i: "0 \<le> i" "i < n"
  have "heap_table_entry_has_next (mark_run m c n) (c + i) \<longleftrightarrow> HEAP_BLOCK_HAS_NEXT AND run_entry n i \<noteq> 0"
    using i by (simp add: heap_table_entry_has_next_def mark_run_def word_neq_0_conv word_less_def)
  then show ?thesis by (simp only: run_entry_bits)
qed

lemma mark_run_outside: "a < c \<or> c + n \<le> a \<Longrightarrow> mark_run m c n a = m a"
  by (auto simp: mark_run_def)

lemma first_fit_unique: "first_fit h m b n \<Longrightarrow> first_fit h m c n \<Longrightarrow> c = b"
  by (auto simp: first_fit_def intro: antisym not_le_imp_less)

lemma heap_malloc_run:
  assumes "heap_layout h" and "0 < n" and "n \<le> 2147479552" and ff: "first_fit h m b (blocks_for n)"
  shows "heap_malloc h n m = (block_addr h b, mark_run m (entry_addr h b) (blocks_for n))"
  using assms(1-3)
proof (cases rule: heap_malloc_cases [where m = m])
  case full
  then show ?thesis using ff by (auto simp: first_fit_def)
next
  case (found c)
  with first_fit_unique [OF ff] show ?thesis by simp
qed

lemma heap_malloc_single:
  "heap_layout h \<Longrightarrow> 0 < n \<Longrightarrow> n \<le> 4096 \<Longrightarrow> first_fit h m b 1 \<Longrightarrow>
     heap_malloc h n m = (block_addr h b, mark_run m (entry_addr h b) 1)"
  using heap_malloc_run [of h n m b] blocks_for_one by simp

lemma heap_free_single:
  assumes "heap_layout h" and "0 \<le> b" and "b < table_size (table h)"
    and "\<not> heap_table_entry_has_next m (entry_addr h (b + 1))"
  shows "heap_free h (block_addr h b) m =
    Some (block_addr h (b + 1), cleared m (block_addr h b) (entry_addr h b) 1)"
  using heap_free_run [of h b 0 m] assms by simp

section \<open>Properties\<close>

text \<open>C23: allocation is first fit.  A request of \<open>n\<close> bytes succeeds exactly when some run of
\<open>blocks_for n\<close> free entries starts inside the table; it then returns the page-aligned address
of the lowest such run, which was free, marks exactly that run's entries, and writes
nothing else.\<close>

theorem heap_malloc_first_fit:
  assumes "heap_layout h" and "0 < n" and "n \<le> 2147479552"
  shows "(case heap_malloc h n m of (p, m') \<Rightarrow>
      if p = 0 then m' = m \<and> (\<forall>b. \<not> fits h m b (blocks_for n))
      else \<exists>b. p = block_addr h b \<and> p mod 4096 = 0 \<and> first_fit h m b (blocks_for n)
        \<and> m' = mark_run m (entry_addr h b) (blocks_for n))"
  using assms
proof (cases rule: heap_malloc_cases [where m = m])
  case full
  then show ?thesis by simp
next
  case (found b)
  have "0 \<le> b" using found(1) by (simp add: first_fit_def fits_def)
  then have "block_addr h b \<noteq> 0" "block_addr h b mod 4096 = 0"
    using assms(1) by (auto simp: heap_layout_def block_addr_def)
  with found show ?thesis by auto
qed

definition small_heap :: heap_t where
  "small_heap = \<lparr>table = \<lparr>entries = 32256, table_size = 4\<rparr>, start_addr = 16777216\<rparr>"

lemma small_heap_layout: "heap_layout small_heap"
  by (simp add: heap_layout_def small_heap_def)

text \<open>With block 1 of the four blocks taken, two blocks fit first at block 2.\<close>

lemma small_heap_fit: "first_fit small_heap (mark_run (\<lambda>_. 0) 32257 1) b 2 \<longleftrightarrow> b = 2"
proof -
  let ?m = "mark_run (\<lambda>_. 0) 32257 1"
  have free: "is_free_block ?m a \<longleftrightarrow> a \<noteq> 32257" for a
    by (auto simp: is_free_block_def mark_run_def run_entry_def)
  have "fits small_heap ?m b 2 \<longleftrightarrow> 0 \<le> b \<and> b < 4 \<and> b \<noteq> 0 \<and> b \<noteq> 1" for b
  proof -
    have at: "(\<forall>a. c \<le> a \<and> a < c + 2 \<longrightarrow> a \<noteq> (32257 :: int)) \<longleftrightarrow> \<not> (c \<le> 32257 \<and> 32257 < c + 2)" for c
      by blast
    then show ?thesis
      unfolding fits_def run_free_def free at by (auto simp: entry_addr_def small_heap_def)
  qed
  note fits = this
  show ?thesis
  proof
    assume "first_fit small_heap ?m b 2"
    then have "fits small_heap ?m b 2" and "\<not> 2 < b"
      using fits [of 2] by (auto simp: first_fit_def)
    then show "b = 2" using fits [of b] by auto
  next
    assume "b = 2"
    then show "first_fit small_heap ?m b 2" by (auto simp: first_fit_def fits)
  qed
qed

theorem heap_malloc_first_fit_witness:
  "fst (heap_malloc small_heap 5000 (mark_run (\<lambda>_. 0) 32257 1)) = 16785408"
proof -
  have "blocks_for 5000 = 2" by (simp add: blocks_for_def)
  then show ?thesis
    using heap_malloc_first_fit [OF small_heap_layout, of 5000 "mark_run (\<lambda>_. 0) 32257 1"]
      small_heap_fit [of 2]
    by (auto simp: small_heap_fit first_fit_def [of _ _ 2] block_addr_def split: prod.splits if_splits)
       (simp_all add: small_heap_def)
qed

text \<open>A request of no bytes hands out the first free block without marking it, so the
next request of at most one block is given the same address.\<close>

theorem heap_malloc_zero_alias:
  assumes "heap_layout h" and "0 < n" and "n \<le> 4096" and "first_fit h m b 1"
  shows "heap_malloc h 0 m = (block_addr h b, m) \<and> fst (heap_malloc h n m) = block_addr h b"
  using assms by (simp add: heap_malloc_single heap_malloc_zero_eq)

theorem heap_malloc_zero_alias_witness:
  "heap_malloc small_heap 0 (\<lambda>_. 0) = (16777216, \<lambda>_. 0)
    \<and> fst (heap_malloc small_heap 32 (\<lambda>_. 0)) = 16777216"
proof -
  have "first_fit small_heap (\<lambda>_. 0) 0 1"
    by (auto simp: first_fit_def fits_def run_free_def is_free_block_def small_heap_def)
  then show ?thesis
    using heap_malloc_zero_alias [OF small_heap_layout, of 32 "\<lambda>_. 0" 0]
    by (simp add: block_addr_def small_heap_def)
qed

text \<open>For one block, release undoes allocation: when the entry after it has no successor
mark, freeing the block just allocated returns, and the memory is as before except that the
block's entry and its 4096 bytes are zero.\<close>

theorem heap_free_single_roundtrip:
  assumes "heap_layout h" and "0 < n" and "n \<le> 4096" and "first_fit h m b 1"
    and "\<not> heap_table_entry_has_next m (entry_addr h (b + 1))"
  shows "heap_free h (fst (heap_malloc h n m)) (snd (heap_malloc h n m)) =
    Some (block_addr h (b + 1), cleared m (block_addr h b) (entry_addr h b) 1)"
proof -
  let ?m = "mark_run m (entry_addr h b) 1"
  have "\<not> heap_table_entry_has_next ?m (entry_addr h (b + 1))"
    using assms(5) has_next_cong [of ?m "entry_addr h (b + 1)" m]
    by (simp add: entry_addr_def mark_run_outside)
  then have "heap_free h (block_addr h b) ?m =
      Some (block_addr h (b + 1), cleared ?m (block_addr h b) (entry_addr h b) 1)"
    using assms(4) by (intro heap_free_single [OF assms(1)]) (auto simp: first_fit_def fits_def)
  moreover have "cleared ?m (block_addr h b) (entry_addr h b) 1 = cleared m (block_addr h b) (entry_addr h b) 1"
    by (auto simp: cleared_def mark_run_def fun_eq_iff)
  ultimately show ?thesis using assms by (simp add: heap_malloc_single)
qed

theorem heap_free_single_roundtrip_witness:
  "heap_free small_heap (fst (heap_malloc small_heap 32 (\<lambda>_. 0))) (snd (heap_malloc small_heap 32 (\<lambda>_. 0)))
    = Some (16781312, \<lambda>_. 0)"
proof -
  have ff: "first_fit small_heap (\<lambda>_. 0) 0 1"
    by (auto simp: first_fit_def fits_def run_free_def is_free_block_def small_heap_def)
  have nn: "\<not> heap_table_entry_has_next (\<lambda>_. 0) (entry_addr small_heap (0 + 1))"
    by (simp add: heap_table_entry_has_next_def)
  show ?thesis
    using heap_free_single_roundtrip [OF small_heap_layout _ _ ff nn, of 32]
    by (simp add: block_addr_def small_heap_def cleared_def)
qed

text \<open>C34: freeing an allocation of several blocks leaks the last one.  The loop tests the entry
after the one it has just cleared, so it stops before the last block of the run: that entry stays
taken and its data is not cleared.\<close>

theorem heap_free_leaks_last_block:
  assumes "heap_layout h" and "4096 < n" and "n \<le> 2147479552"
    and "first_fit h m b (blocks_for n)" and "b + blocks_for n \<le> table_size (table h)"
  shows "\<exists>end1 m'. heap_free h (fst (heap_malloc h n m)) (snd (heap_malloc h n m)) = Some (end1, m')
    \<and> end1 = block_addr h (b + blocks_for n - 1)
    \<and> m' (entry_addr h (b + blocks_for n - 1)) = 0x01
    \<and> (\<forall>a. block_addr h (b + blocks_for n - 1) \<le> a \<longrightarrow> m' a = m a)"
proof -
  let ?k = "blocks_for n"
  let ?m = "mark_run m (entry_addr h b) ?k"
  have k: "2 \<le> ?k" using assms(2) unfolding blocks_for_def by linarith
  have b: "0 \<le> b" using assms(4) by (simp add: first_fit_def fits_def)
  have malloc: "heap_malloc h n m = (block_addr h b, ?m)"
    using assms by (intro heap_malloc_run) auto
  define j where "j = nat (?k - 2)"
  have j: "int (Suc j) = ?k - 1" using k by (simp add: j_def)
  have "heap_free h (block_addr h b) ?m =
      Some (block_addr h (b + int (Suc j)), cleared ?m (block_addr h b) (entry_addr h b) (Suc j))"
  proof (rule heap_free_run [OF assms(1) b])
    fix i :: nat assume "0 < i" "i \<le> j"
    then show "heap_table_entry_has_next ?m (entry_addr h (b + int i))"
      using mark_run_has_next [of "int i" ?k m "entry_addr h b"] j by (simp add: entry_addr_def algebra_simps)
  next
    have "entry_addr h (b + int (Suc j)) = entry_addr h b + (?k - 1)"
      using j by (simp add: entry_addr_def)
    then show "\<not> heap_table_entry_has_next ?m (entry_addr h (b + int (Suc j)))"
      using mark_run_has_next [of "?k - 1" ?k m "entry_addr h b"] k by simp
  qed (use assms(5) j in linarith)
  moreover have "cleared ?m (block_addr h b) (entry_addr h b) (Suc j) (entry_addr h (b + ?k - 1)) = 0x01"
    using assms(1,5) b k j
    by (subst cleared_entry) (auto simp: heap_layout_def entry_addr_def block_addr_def mark_run_def run_entry_def)
  moreover have "cleared ?m (block_addr h b) (entry_addr h b) (Suc j) a = m a"
    if "block_addr h (b + ?k - 1) \<le> a" for a
    using that assms(1,5) b k j
    by (auto simp: cleared_def mark_run_def heap_layout_def entry_addr_def block_addr_def)
  moreover have "b + int (Suc j) = b + ?k - 1" using j by simp
  ultimately show ?thesis unfolding malloc fst_conv snd_conv by metis
qed

theorem heap_free_leaks_last_block_witness:
  "\<exists>end1 m'. heap_free small_heap (fst (heap_malloc small_heap 5000 (mark_run (\<lambda>_. 0) 32257 1)))
      (snd (heap_malloc small_heap 5000 (mark_run (\<lambda>_. 0) 32257 1))) = Some (end1, m') \<and> m' 32259 = 0x01"
proof -
  have k: "blocks_for 5000 = 2" by (simp add: blocks_for_def)
  have "first_fit small_heap (mark_run (\<lambda>_. 0) 32257 1) 2 (blocks_for 5000)"
    by (simp add: k small_heap_fit)
  from heap_free_leaks_last_block [OF small_heap_layout _ _ this] show ?thesis
    by (auto simp: k entry_addr_def small_heap_def)
qed

text \<open>C35: freeing a one-block allocation that is directly followed by a run of \<open>k \<ge> 2\<close> blocks
also releases and clears all but the last block of that neighbour.\<close>

theorem heap_free_destroys_neighbour:
  assumes "heap_layout h" and "0 \<le> b" and "2 \<le> k" and "b + 1 + k \<le> table_size (table h)"
  shows "heap_free h (block_addr h b) (mark_run m (entry_addr h (b + 1)) k) =
    Some (block_addr h (b + k),
      cleared (mark_run m (entry_addr h (b + 1)) k) (block_addr h b) (entry_addr h b) (nat k))"
proof -
  let ?m = "mark_run m (entry_addr h (b + 1)) k"
  define j where "j = nat (k - 1)"
  have j: "int (Suc j) = k" "Suc j = nat k" using assms(3) by (auto simp: j_def)
  have "heap_free h (block_addr h b) ?m =
      Some (block_addr h (b + int (Suc j)), cleared ?m (block_addr h b) (entry_addr h b) (Suc j))"
  proof (rule heap_free_run [OF assms(1,2)])
    fix i :: nat assume "0 < i" "i \<le> j"
    then show "heap_table_entry_has_next ?m (entry_addr h (b + int i))"
      using mark_run_has_next [of "int i - 1" k m "entry_addr h (b + 1)"] j
      by (simp add: entry_addr_def algebra_simps)
  next
    have "entry_addr h (b + int (Suc j)) = entry_addr h (b + 1) + (k - 1)"
      using j by (simp add: entry_addr_def)
    then show "\<not> heap_table_entry_has_next ?m (entry_addr h (b + int (Suc j)))"
      using mark_run_has_next [of "k - 1" k m "entry_addr h (b + 1)"] assms(3) by simp
  qed (use assms(4) j in linarith)
  then show ?thesis using assms(3) by (simp add: j(2))
qed

theorem heap_free_destroys_neighbour_witness:
  "heap_free small_heap 16777216 (mark_run (\<lambda>_. 9) 32257 3) =
    Some (16789504, cleared (mark_run (\<lambda>_. 9) 32257 3) 16777216 32256 3)"
  using heap_free_destroys_neighbour [OF small_heap_layout, of 0 3 "\<lambda>_. 9"]
  by (simp add: block_addr_def entry_addr_def small_heap_def)

text \<open>The search checks only where a run starts.  When the table is free and so are the bytes
after it, a request larger than the whole pool succeeds: the result is the start of the pool,
and entries beyond the table are overwritten.\<close>

theorem heap_malloc_overruns_pool:
  assumes "heap_layout h" and "n \<le> 2147479552" and "0 < table_size (table h)"
    and "4096 * table_size (table h) < int n"
    and "run_free m (entries (table h)) (blocks_for n)"
  shows "heap_malloc h n m = (start_addr h, mark_run m (entries (table h)) (blocks_for n))
    \<and> table_size (table h) < blocks_for n"
proof -
  have n: "0 < n" using assms(3,4) by (cases n) auto
  have "first_fit h m 0 (blocks_for n)"
    using assms by (auto simp: first_fit_def fits_def entry_addr_def)
  then have "heap_malloc h n m = (block_addr h 0, mark_run m (entry_addr h 0) (blocks_for n))"
    using assms n by (intro heap_malloc_run) auto
  moreover have "table_size (table h) < blocks_for n"
    using assms(4) blocks_for_covers(1) [of n] by linarith
  ultimately show ?thesis by (simp add: block_addr_def entry_addr_def)
qed

theorem heap_malloc_overruns_pool_witness:
  "heap_malloc small_heap 20480 (\<lambda>_. 0) = (16777216, mark_run (\<lambda>_. 0) 32256 5)"
  using heap_malloc_overruns_pool [OF small_heap_layout, of 20480 "\<lambda>_. 0"]
  by (simp add: small_heap_def blocks_for_def run_free_def is_free_block_def)

end
