(* ===== verification/Kheap.thy ===== *)
theory Kheap
  imports Heap
begin

text \<open>
  \<open>memory/heap/kheap.c\<close>: the kernel's one heap, of 25600 blocks from 16 MB on with its table
  in low memory.  The static \<open>heap\<close> is an argument of the operations; \<open>kheap_init\<close> yields its
  value.  The locale \<open>block_allocator\<close> is the contract the kernel's other parts rely on when
  they ask for objects of at most one block; it is proved for \<open>kheap_zalloc\<close> at the end.
\<close>

definition kheap_init :: "heap_t \<Rightarrow> mem \<Rightarrow> (int \<times> heap_t \<times> mem) option" where
  "kheap_init heap m =
     (let heap_table_size = KERNEL_HEAP_SIZE_IN_BYTES div KERNEL_HEAP_BLOCK_SIZE;
          heap_table = \<lparr>entries = KERNEL_HEAP_TABLE_ADDRESS, table_size = heap_table_size\<rparr>
      in heap_create (heap\<lparr>table := heap_table\<rparr>) KERNEL_HEAP_ADDRESS KERNEL_HEAP_TABLE_ADDRESS
           KERNEL_HEAP_SIZE_IN_BYTES KERNEL_HEAP_BLOCK_SIZE m)"

definition kheap_malloc :: "heap_t \<Rightarrow> nat \<Rightarrow> mem \<Rightarrow> addr \<times> mem" where
  "kheap_malloc heap n m = heap_malloc heap n m"

definition kheap_zalloc :: "heap_t \<Rightarrow> nat \<Rightarrow> mem \<Rightarrow> addr \<times> mem" where
  "kheap_zalloc heap n m =
     (let (ptr, m) = kheap_malloc heap n m
      in if ptr \<noteq> 0 then (ptr, memset m ptr 0 n) else (ptr, m))"

definition kheap_free :: "heap_t \<Rightarrow> addr \<Rightarrow> mem \<Rightarrow> (addr \<times> mem) option" where
  "kheap_free heap ptr m = heap_free heap ptr m"

section \<open>The heap after initialisation\<close>

definition kernel_heap :: heap_t where
  "kernel_heap = \<lparr>table = \<lparr>entries = 0x7E00, table_size = 25600\<rparr>, start_addr = 0x01000000\<rparr>"

lemma kernel_heap_layout: "heap_layout kernel_heap"
  by (simp add: heap_layout_def kernel_heap_def)

lemma kernel_heap_fields [simp]:
  "entries (table kernel_heap) = 32256" "table_size (table kernel_heap) = 25600"
  "start_addr kernel_heap = 16777216"
  by (simp_all add: kernel_heap_def)

section \<open>Ownership\<close>

text \<open>
  \<open>owned h m a\<close>: the address lies in a block whose table entry says it is taken.
\<close>

definition block_of :: "heap_t \<Rightarrow> addr \<Rightarrow> int" where
  "block_of h a = (a - start_addr h) div 4096"

definition owned :: "heap_t \<Rightarrow> mem \<Rightarrow> addr \<Rightarrow> bool" where
  "owned h m a \<longleftrightarrow>
     0 \<le> block_of h a \<and> block_of h a < table_size (table h) \<and>
     \<not> is_free_block m (entry_addr h (block_of h a))"

lemma block_of_eq: "block_addr h b \<le> a \<Longrightarrow> a < block_addr h b + 4096 \<Longrightarrow> block_of h a = b"
  unfolding block_of_def block_addr_def
  by (rule int_div_pos_eq [of _ _ _ "a - start_addr h - 4096 * b"]) auto

lemma block_of_bounds: "block_addr h (block_of h a) \<le> a \<and> a < block_addr h (block_of h a) + 4096"
proof -
  have "a - start_addr h = 4096 * ((a - start_addr h) div 4096) + (a - start_addr h) mod 4096" by simp
  moreover have "0 \<le> (a - start_addr h) mod 4096" "(a - start_addr h) mod 4096 < 4096" by simp_all
  ultimately show ?thesis unfolding block_of_def block_addr_def by linarith
qed

lemma owned_above_table:
  "heap_layout h \<Longrightarrow> owned h m a \<Longrightarrow> entries (table h) + table_size (table h) < a"
  using block_of_bounds [of h a] by (auto simp: owned_def heap_layout_def block_addr_def)

lemma is_free_block_cong: "m a = m' a \<Longrightarrow> is_free_block m a = is_free_block m' a"
  by (simp add: is_free_block_def)

lemma owned_cong:
  "(\<And>b. 0 \<le> b \<Longrightarrow> b < table_size (table h) \<Longrightarrow> m (entry_addr h b) = m' (entry_addr h b)) \<Longrightarrow>
     owned h m a = owned h m' a"
  using is_free_block_cong [of m "entry_addr h (block_of h a)" m'] by (auto simp: owned_def)

section \<open>The allocator's contract\<close>

text \<open>
  What a client of the zeroing allocator may rely on for requests of at most one block: a
  failed request changes nothing; a successful one returns a whole page that was not owned,
  owned from now on, zero in the requested bytes, and leaves every other owned byte alone.
\<close>

locale block_allocator =
  fixes alloc :: "nat \<Rightarrow> 's \<Rightarrow> addr \<times> 's"
    and byte_at :: "'s \<Rightarrow> addr \<Rightarrow> byte"
    and own :: "'s \<Rightarrow> addr \<Rightarrow> bool"
    and store_byte :: "'s \<Rightarrow> addr \<Rightarrow> byte \<Rightarrow> 's"
  assumes alloc_null: "0 < n \<Longrightarrow> n \<le> 4096 \<Longrightarrow> alloc n s = (0, s') \<Longrightarrow> s' = s"
    and alloc_page: "0 < n \<Longrightarrow> n \<le> 4096 \<Longrightarrow> alloc n s = (p, s') \<Longrightarrow> p \<noteq> 0 \<Longrightarrow>
      p mod 4096 = 0 \<and> 0 < p \<and> p + 4096 \<le> 2147483648"
    and alloc_fresh: "0 < n \<Longrightarrow> n \<le> 4096 \<Longrightarrow> alloc n s = (p, s') \<Longrightarrow> p \<noteq> 0 \<Longrightarrow>
      p \<le> a \<Longrightarrow> a < p + 4096 \<Longrightarrow> \<not> own s a"
    and alloc_own: "0 < n \<Longrightarrow> n \<le> 4096 \<Longrightarrow> alloc n s = (p, s') \<Longrightarrow> p \<noteq> 0 \<Longrightarrow>
      own s' a \<longleftrightarrow> own s a \<or> p \<le> a \<and> a < p + 4096"
    and alloc_zero: "0 < n \<Longrightarrow> n \<le> 4096 \<Longrightarrow> alloc n s = (p, s') \<Longrightarrow> p \<noteq> 0 \<Longrightarrow>
      p \<le> a \<Longrightarrow> a < p + int n \<Longrightarrow> byte_at s' a = 0"
    and alloc_frame: "0 < n \<Longrightarrow> n \<le> 4096 \<Longrightarrow> alloc n s = (p, s') \<Longrightarrow> own s a \<Longrightarrow>
      byte_at s' a = byte_at s a"
    and store_at: "own s a \<Longrightarrow> byte_at (store_byte s a v) b = (if b = a then v else byte_at s b)"
    and store_own: "own s a \<Longrightarrow> own (store_byte s a v) b = own s b"
begin

text \<open>Pages handed out one after the other never overlap, whatever is stored in between.\<close>

lemma stores_own:
  "\<forall>(a, v) \<in> set xs. own s a \<Longrightarrow> own (foldl (\<lambda>s (a, v). store_byte s a v) s xs) b = own s b"
proof (induction xs arbitrary: s)
  case (Cons x xs)
  obtain a v where x: "x = (a, v)" by force
  with Cons.prems have "own s a" by simp
  then have "own (store_byte s a v) c = own s c" for c by (rule store_own)
  with Cons x show ?case by auto
qed simp

lemma successive_pages_disjoint:
  assumes "0 < n" "n \<le> 4096" "alloc n s = (p, s1)" "p \<noteq> 0"
    and "\<forall>(a, v) \<in> set xs. own s1 a"
    and "0 < k" "k \<le> 4096" "q \<noteq> 0"
    and "alloc k (foldl (\<lambda>s (a, v). store_byte s a v) s1 xs) = (q, s2)"
  shows "p + 4096 \<le> q \<or> q + 4096 \<le> p"
proof -
  let ?s = "foldl (\<lambda>s (a, v). store_byte s a v) s1 xs"
  have own: "own ?s a" if "p \<le> a" "a < p + 4096" for a
    using that alloc_own [OF assms(1-4), of a] stores_own [OF assms(5), of a] by simp
  have fresh: "\<not> own ?s a" if "q \<le> a" "a < q + 4096" for a
    using that alloc_fresh [OF assms(6,7,9,8)] by blast
  have "\<not> (q \<le> p \<and> p < q + 4096)" "\<not> (q \<le> p + 4095 \<and> p + 4095 < q + 4096)"
    using own [of p] own [of "p + 4095"] fresh [of p] fresh [of "p + 4095"] by auto
  then show ?thesis by linarith
qed

lemma alloc_owned_page:
  "0 < n \<Longrightarrow> n \<le> 4096 \<Longrightarrow> alloc n s = (p, s') \<Longrightarrow> p \<noteq> 0 \<Longrightarrow> p \<le> a \<Longrightarrow> a < p + 4096 \<Longrightarrow> own s' a"
  using alloc_own by blast

lemma alloc_keeps_own:
  "0 < n \<Longrightarrow> n \<le> 4096 \<Longrightarrow> alloc n s = (p, s') \<Longrightarrow> own s a \<Longrightarrow> own s' a"
  using alloc_own alloc_null by (cases "p = 0") blast+

end

section \<open>\<open>kheap_zalloc\<close> keeps the contract\<close>

lemma kheap_zalloc_cases:
  assumes h: "heap_layout h" and n: "0 < n" "n \<le> 4096"
  obtains (full) "kheap_zalloc h n m = (0, m)" "\<And>b. \<not> fits h m b 1"
  | (found) b where "first_fit h m b 1" "block_addr h b \<noteq> 0"
      "kheap_zalloc h n m = (block_addr h b, memset (mark_run m (entry_addr h b) 1) (block_addr h b) 0 n)"
proof -
  have n': "n \<le> 2147479552" and k: "blocks_for n = 1" using n blocks_for_one by auto
  from h n(1) n' show thesis
  proof (cases rule: heap_malloc_cases [where m = m])
    case full
    then show thesis by (intro that(1)) (auto simp: kheap_zalloc_def kheap_malloc_def k)
  next
    case (found b)
    then have "block_addr h b \<noteq> 0"
      using h by (auto simp: heap_layout_def block_addr_def first_fit_def fits_def)
    with found show thesis by (intro that(2)) (auto simp: kheap_zalloc_def kheap_malloc_def k)
  qed
qed

text \<open>A page of the pool as seen through its table entry.\<close>

lemma page_facts:
  assumes h: "heap_layout h" and ff: "first_fit h m b 1" and n: "n \<le> 4096"
  defines "p \<equiv> block_addr h b" and "m' \<equiv> memset (mark_run m (entry_addr h b) 1) (block_addr h b) 0 n"
  shows "p mod 4096 = 0" "0 < p" "p + 4096 \<le> 2147483648"
    and "p \<le> a \<Longrightarrow> a < p + 4096 \<Longrightarrow> \<not> owned h m a"
    and "owned h m' a \<longleftrightarrow> owned h m a \<or> p \<le> a \<and> a < p + 4096"
    and "p \<le> a \<Longrightarrow> a < p + int n \<Longrightarrow> m' a = 0"
    and "owned h m a \<Longrightarrow> m' a = m a"
proof -
  have b: "0 \<le> b" "b < table_size (table h)" "is_free_block m (entry_addr h b)"
    using ff by (auto simp: first_fit_def fits_def run_free_def)
  show "p mod 4096 = 0" "0 < p" "p + 4096 \<le> 2147483648"
    using h b by (auto simp: p_def block_addr_def heap_layout_def)
  have block: "p \<le> a \<and> a < p + 4096 \<longleftrightarrow> block_of h a = b" for a
    using block_of_eq [of h b a] block_of_bounds [of h a] by (auto simp: p_def)
  show fresh: "p \<le> a \<Longrightarrow> a < p + 4096 \<Longrightarrow> \<not> owned h m a" for a
    using block [of a] b(3) by (auto simp: owned_def)
  have entry: "m' (entry_addr h c) = (if c = b then run_entry 1 0 else m (entry_addr h c))"
    if "0 \<le> c" "c < table_size (table h)" for c
    using that h b n unfolding m'_def
    by (subst memset_out) (auto simp: heap_layout_def entry_addr_def block_addr_def mark_run_def)
  have "is_free_block m' (entry_addr h c) \<longleftrightarrow> c \<noteq> b \<and> is_free_block m (entry_addr h c)"
    if "0 \<le> c" "c < table_size (table h)" for c
    using entry [OF that] by (simp add: is_free_block_def run_entry_def)
  then show "owned h m' a \<longleftrightarrow> owned h m a \<or> p \<le> a \<and> a < p + 4096"
    unfolding block using b by (auto simp: owned_def)
  show "p \<le> a \<Longrightarrow> a < p + int n \<Longrightarrow> m' a = 0"
    by (simp add: m'_def p_def memset_in)
  show "owned h m a \<Longrightarrow> m' a = m a"
  proof -
    assume own: "owned h m a"
    then have "\<not> (p \<le> a \<and> a < p + 4096)" using fresh by blast
    moreover have "entries (table h) + table_size (table h) < a"
      using owned_above_table [OF h own] .
    ultimately show ?thesis
      unfolding m'_def using n b(2)
      by (subst memset_out) (auto simp: p_def mark_run_def entry_addr_def)
  qed
qed

lemma store_owned:
  assumes "heap_layout h" and "owned h m a"
  shows "owned h (m(a := v)) c = owned h m c"
  by (rule owned_cong)
     (use owned_above_table [OF assms] in \<open>auto simp: entry_addr_def\<close>)

interpretation kh: block_allocator "kheap_zalloc kernel_heap" "\<lambda>m. m" "owned kernel_heap"
  "\<lambda>m a v. m(a := v)"
proof
  fix n m p m' a
  assume n: "0 < n" "n \<le> 4096" and z: "kheap_zalloc kernel_heap n m = (p, m')"
  note cases = kheap_zalloc_cases [OF kernel_heap_layout n, of m]
  show "p \<noteq> 0 \<Longrightarrow> p mod 4096 = 0 \<and> 0 < p \<and> p + 4096 \<le> 2147483648"
    by (rule cases) (use z page_facts(1-3) [OF kernel_heap_layout _ n(2)] in auto)
  show "p \<noteq> 0 \<Longrightarrow> p \<le> a \<Longrightarrow> a < p + 4096 \<Longrightarrow> \<not> owned kernel_heap m a"
    by (rule cases) (use z page_facts(4) [OF kernel_heap_layout _ n(2)] in auto)
  show "p \<noteq> 0 \<Longrightarrow> owned kernel_heap m' a \<longleftrightarrow> owned kernel_heap m a \<or> p \<le> a \<and> a < p + 4096"
    by (rule cases) (use z page_facts(5) [OF kernel_heap_layout _ n(2)] in auto)
  show "p \<noteq> 0 \<Longrightarrow> p \<le> a \<Longrightarrow> a < p + int n \<Longrightarrow> m' a = 0"
    by (rule cases) (use z page_facts(6) [OF kernel_heap_layout _ n(2)] in auto)
  show "owned kernel_heap m a \<Longrightarrow> m' a = m a"
    by (rule cases) (use z page_facts(7) [OF kernel_heap_layout _ n(2)] in auto)
next
  fix n m m'
  assume "0 < n" "n \<le> 4096" "kheap_zalloc kernel_heap n m = (0, m')"
  then show "m' = m"
    using kheap_zalloc_cases [OF kernel_heap_layout, of n m] by (metis prod.inject)
qed (auto simp: store_owned kernel_heap_layout)

section \<open>Counting free pages\<close>

text \<open>The contract extended by the number of pages left: an allocation fails only at zero.\<close>

locale counted_allocator = block_allocator +
  fixes avail :: "'a \<Rightarrow> nat"
  assumes alloc_avail: "0 < n \<Longrightarrow> n \<le> 4096 \<Longrightarrow> alloc n s = (p, s') \<Longrightarrow> 0 < avail s \<Longrightarrow>
      p \<noteq> 0 \<and> avail s = Suc (avail s')"
    and store_avail: "own s a \<Longrightarrow> avail (store_byte s a v) = avail s"
begin

lemma stores_avail:
  "\<forall>(a, v) \<in> set xs. own s a \<Longrightarrow> avail (foldl (\<lambda>s (a, v). store_byte s a v) s xs) = avail s"
proof (induction xs arbitrary: s)
  case (Cons x xs)
  obtain a v where x: "x = (a, v)" by force
  with Cons.prems have a: "own s a" by simp
  then have "own (store_byte s a v) c = own s c" for c by (rule store_own)
  with a Cons x show ?case by (auto simp: store_avail)
qed simp

text \<open>With a page left, a request is granted and its whole page is owned.\<close>

lemma alloc_granted:
  assumes "0 < n" "n \<le> 4096" "0 < avail s"
  obtains p s' where "alloc n s = (p, s')" "p \<noteq> 0" "p mod 4096 = 0" "0 < p" "p + 4096 \<le> 2147483648"
    "avail s = Suc (avail s')" "\<And>a. p \<le> a \<Longrightarrow> a < p + 4096 \<Longrightarrow> own s' a"
    "\<And>a. p \<le> a \<Longrightarrow> a < p + 4096 \<Longrightarrow> \<not> own s a" "\<And>a. own s a \<Longrightarrow> own s' a"
    "\<And>a. own s a \<Longrightarrow> byte_at s' a = byte_at s a"
proof -
  obtain p s' where a: "alloc n s = (p, s')" by force
  then have p: "p \<noteq> 0" "avail s = Suc (avail s')"
    using alloc_avail [OF assms(1,2) a assms(3)] by auto
  show thesis
    using alloc_page [OF assms(1,2) a p(1)] alloc_own [OF assms(1,2) a p(1)]
      alloc_fresh [OF assms(1,2) a p(1)] alloc_frame [OF assms(1,2) a] a p
    by (intro that [of p s']) auto
qed

end

text \<open>The free blocks among the first \<open>N\<close>, and among all.\<close>

definition free_below :: "heap_t \<Rightarrow> nat \<Rightarrow> mem \<Rightarrow> nat" where
  "free_below h N m = length (filter (\<lambda>b. is_free_block m (entry_addr h (int b))) [0..<N])"

definition free_pages :: "heap_t \<Rightarrow> mem \<Rightarrow> nat" where
  "free_pages h m = free_below h (nat (table_size (table h))) m"

lemma free_below_card: "free_below h N m = card {b. b < N \<and> is_free_block m (entry_addr h (int b))}"
  unfolding free_below_def length_filter_conv_card by (rule arg_cong [of _ _ card]) auto

lemmas free_pages_card = free_pages_def [unfolded free_below_card]

lemma free_below_mono: "N \<le> M \<Longrightarrow> free_below h N m \<le> free_below h M m"
  unfolding free_below_card by (rule card_mono) auto

lemma free_below_first_fit:
  assumes "0 < free_below h N m" and "int N \<le> table_size (table h)"
  shows "\<not> (\<forall>b. \<not> fits h m b 1)" and "first_fit h m b 1 \<Longrightarrow> b < int N"
proof -
  from assms obtain c where "c < N" "is_free_block m (entry_addr h (int c))"
    unfolding free_below_card card_gt_0_iff by blast
  then have c: "fits h m (int c) 1" "c < N" using assms(2) by (auto simp: fits_def run_free_def)
  then show "\<not> (\<forall>b. \<not> fits h m b 1)" by blast
  show "first_fit h m b 1 \<Longrightarrow> b < int N"
    using c by (metis first_fit_def linorder_not_less of_nat_less_iff order.strict_trans1)
qed

lemma free_below_alloc:
  assumes h: "heap_layout h" and ff: "first_fit h m b 1" and n: "n \<le> 4096"
    and N: "b < int N" "int N \<le> table_size (table h)"
  shows "free_below h N m = Suc (free_below h N (memset (mark_run m (entry_addr h b) 1) (block_addr h b) 0 n))"
    (is "_ = Suc (free_below h N ?m)")
proof -
  let ?A = "\<lambda>m. {b. b < N \<and> is_free_block m (entry_addr h (int b))}"
  have b: "0 \<le> b" "b < table_size (table h)" "is_free_block m (entry_addr h b)"
    using ff by (auto simp: first_fit_def fits_def run_free_def)
  have entry: "is_free_block ?m (entry_addr h (int c)) \<longleftrightarrow> int c \<noteq> b \<and> is_free_block m (entry_addr h (int c))"
    if "c < N" for c
  proof -
    have "?m (entry_addr h (int c)) = (if int c = b then run_entry 1 0 else m (entry_addr h (int c)))"
      using that h b n N(2)
      by (subst memset_out) (auto simp: heap_layout_def entry_addr_def block_addr_def mark_run_def)
    then show ?thesis by (simp add: is_free_block_def run_entry_def)
  qed
  have "?A m = insert (nat b) (?A ?m)" "nat b \<notin> ?A ?m"
    using b N(1) entry entry [of "nat b"] by (auto simp: nat_less_iff)
  then show ?thesis unfolding free_below_card by simp
qed

text \<open>Writing above the table changes neither ownership nor the number of free pages.\<close>

lemma above_table_frame:
  assumes "\<And>a. a < entries (table h) + table_size (table h) \<Longrightarrow> m' a = m a"
  shows "owned h m' a = owned h m a" and "free_pages h m' = free_pages h m"
    and "int N \<le> table_size (table h) \<Longrightarrow> free_below h N m' = free_below h N m"
proof -
  have e: "m' (entry_addr h b) = m (entry_addr h b)" if "b < table_size (table h)" for b
    by (rule assms) (use that in \<open>simp add: entry_addr_def\<close>)
  then show "owned h m' a = owned h m a" by (intro owned_cong) auto
  show below: "free_below h N m' = free_below h N m" if "int N \<le> table_size (table h)" for N
    unfolding free_below_card
    by (intro arg_cong [of _ _ card] Collect_cong conj_cong is_free_block_cong) (use that in \<open>auto intro: e\<close>)
  show "free_pages h m' = free_pages h m"
    by (cases "0 \<le> table_size (table h)") (simp_all add: free_pages_def below, simp add: free_below_def)
qed

text \<open>\<open>kheap_zalloc\<close> with the free blocks among the first \<open>N\<close>: as long as there are some, it takes the lowest of them.\<close>

lemma kheap_zalloc_low:
  assumes n: "0 < n" "n \<le> 4096" and z: "kheap_zalloc kernel_heap n m = (p, m')"
    and N: "0 < free_below kernel_heap N m" "N \<le> 25600"
  obtains b where "0 \<le> b" "b < int N" "first_fit kernel_heap m b 1" "p = block_addr kernel_heap b" "p \<noteq> 0"
    "m' = memset (mark_run m (entry_addr kernel_heap b) 1) (block_addr kernel_heap b) 0 n"
    "free_below kernel_heap N m = Suc (free_below kernel_heap N m')"
  using kernel_heap_layout n
proof (cases rule: kheap_zalloc_cases [where m = m])
  case full
  then show thesis using free_below_first_fit(1) [OF N(1)] N(2) by simp
next
  case (found b)
  have "b < int N" using free_below_first_fit(2) [OF N(1) _ found(1)] N(2) by simp
  moreover have "0 \<le> b" using found(1) by (simp add: first_fit_def fits_def)
  ultimately show thesis
    using found z free_below_alloc [OF kernel_heap_layout found(1) n(2), of N] N(2) by (intro that [of b]) auto
qed

lemma store_free_below:
  "owned kernel_heap m a \<Longrightarrow> N \<le> 25600 \<Longrightarrow> free_below kernel_heap N (m(a := v)) = free_below kernel_heap N m"
  by (rule above_table_frame(3)) (use owned_above_table [OF kernel_heap_layout, of m a] in auto)

interpretation kh: counted_allocator "kheap_zalloc kernel_heap" "\<lambda>m. m" "owned kernel_heap"
  "\<lambda>m a v. m(a := v)" "free_pages kernel_heap"
proof
  fix n m p m'
  assume z: "0 < n" "n \<le> 4096" "kheap_zalloc kernel_heap n m = (p, m')" and "0 < free_pages kernel_heap m"
  then have "0 < free_below kernel_heap 25600 m" by (simp add: free_pages_def)
  then show "p \<noteq> 0 \<and> free_pages kernel_heap m = Suc (free_pages kernel_heap m')"
    by (rule kheap_zalloc_low [OF z]) (simp_all add: free_pages_def)
qed (simp add: free_pages_def store_free_below)

text \<open>
  The last 1024 blocks are kept in reserve for buffers of many blocks: \<open>spare_pages\<close> counts the free blocks before
  them, and requests of at most a page stay out of the reserve as long as there are some.
\<close>

abbreviation spare_pages :: "mem \<Rightarrow> nat" where
  "spare_pages \<equiv> free_below kernel_heap 24576"

lemma spare_free: "spare_pages m \<le> free_pages kernel_heap m"
  by (simp add: free_pages_def free_below_mono)

interpretation low: counted_allocator "kheap_zalloc kernel_heap" "\<lambda>m. m" "owned kernel_heap"
  "\<lambda>m a v. m(a := v)" spare_pages
proof
  fix n m p m'
  assume z: "0 < n" "n \<le> 4096" "kheap_zalloc kernel_heap n m = (p, m')" "0 < spare_pages m"
  then show "p \<noteq> 0 \<and> spare_pages m = Suc (spare_pages m')" by (rule kheap_zalloc_low) simp_all
qed (simp add: store_free_below)

lemma kheap_zalloc_single:
  "heap_layout h \<Longrightarrow> 0 < n \<Longrightarrow> n \<le> 4096 \<Longrightarrow> first_fit h m b 1 \<Longrightarrow>
     kheap_zalloc h n m = (block_addr h b, memset (mark_run m (entry_addr h b) 1) (block_addr h b) 0 n)"
  using page_facts(2) [of h m b n]
  by (simp add: kheap_zalloc_def kheap_malloc_def heap_malloc_single)

lemma first_fit_empty: "first_fit kernel_heap (\<lambda>_. 0) 0 1"
  by (auto simp: first_fit_def fits_def run_free_def is_free_block_def)

text \<open>
  A byte that no allocation of a page touches: outside the table up to the entries of the reserve, and owned if it
  lies in the pool.
\<close>

definition settled :: "mem \<Rightarrow> addr \<Rightarrow> bool" where
  "settled m a \<longleftrightarrow> (a < 32256 \<or> 56832 \<le> a) \<and>
     (16777216 \<le> a \<and> a < 121634816 \<longrightarrow> owned kernel_heap m a)"

lemma owned_pool: "owned kernel_heap m a \<Longrightarrow> 16777216 \<le> a \<and> a < 121634816"
  using block_of_bounds [of kernel_heap a] by (auto simp: owned_def block_addr_def)

lemma owned_settled: "owned kernel_heap m a \<Longrightarrow> settled m a"
  using owned_pool [of m a] by (simp add: settled_def)

lemma kheap_zalloc_settled:
  assumes n: "0 < n" "n \<le> 4096" and z: "kheap_zalloc kernel_heap n m = (p, m')" and a: "settled m a"
    and spare: "0 < spare_pages m"
  shows "m' a = m a \<and> settled m' a"
proof -
  have own: "owned kernel_heap m a \<Longrightarrow> owned kernel_heap m' a" using kh.alloc_keeps_own [OF n z] .
  obtain b where b: "0 \<le> b" "b < 24576" "first_fit kernel_heap m b 1"
    "m' = memset (mark_run m (entry_addr kernel_heap b) 1) (block_addr kernel_heap b) 0 n"
    by (rule kheap_zalloc_low [OF n z spare]) simp_all
  have "is_free_block m (entry_addr kernel_heap b)" using b(3) by (auto simp: first_fit_def fits_def run_free_def)
  then have "\<not> (block_addr kernel_heap b \<le> a \<and> a < block_addr kernel_heap b + 4096)"
    using a b(1,2) block_of_eq [of kernel_heap b a] by (auto simp: settled_def owned_def block_addr_def)
  moreover have "a \<noteq> entry_addr kernel_heap b" using a b(1,2) by (auto simp: settled_def entry_addr_def)
  ultimately have "m' a = m a" using b(4) n(2) by (auto simp: memset_eq mark_run_def)
  then show ?thesis using a own by (simp add: settled_def)
qed

text \<open>Stores into owned pages keep this.\<close>

lemma settled_above_table:
  "(\<And>a. a < 57856 \<Longrightarrow> m' a = m a) \<Longrightarrow> settled m' a = settled m a"
  using above_table_frame(1) [of kernel_heap m' m a] by (simp add: settled_def)

text \<open>A block that is cleared counts again.\<close>

lemma spare_pages_cleared:
  assumes "0 \<le> b" "b < 24576" and "\<not> is_free_block m (entry_addr kernel_heap b)"
  shows "spare_pages (cleared m (16777216 + 4096 * b) (entry_addr kernel_heap b) 1) = Suc (spare_pages m)"
    (is "spare_pages ?m = _")
proof -
  let ?A = "\<lambda>m. {c. c < 24576 \<and> is_free_block m (entry_addr kernel_heap (int c))}"
  have "is_free_block ?m (entry_addr kernel_heap (int c)) \<longleftrightarrow> int c = b \<or> is_free_block m (entry_addr kernel_heap (int c))"
    if "c < 24576" for c
    using that assms by (auto simp: is_free_block_def cleared_def entry_addr_def)
  note entry = this
  have "?A ?m = insert (nat b) (?A m)"
  proof (rule set_eqI)
    fix c
    show "c \<in> ?A ?m \<longleftrightarrow> c \<in> insert (nat b) (?A m)"
      using assms(1,2) entry [of c] by (cases "c < 24576") (auto simp: nat_eq_iff2)
  qed
  moreover have "nat b \<notin> ?A m" using assms by auto
  ultimately show ?thesis unfolding free_below_card by simp
qed

text \<open>All of a heap's blocks are free when its table is zero.\<close>

lemma free_pages_empty: "free_pages kernel_heap (\<lambda>_. 0) = 25600" "spare_pages (\<lambda>_. 0) = 24576"
  by (simp_all add: free_pages_def free_below_def is_free_block_def)

section \<open>Properties\<close>

lemma kheap_init_eq:
  "kheap_init heap m =
     Some (0, kernel_heap, \<lambda>a. if 0x7E00 \<le> a \<and> a < 0x7E00 + 25600 then 0 else m a)"
  by (simp add: kheap_init_def heap_create_def validate_alignment_def memset_eq kernel_heap_def Let_def
      cong: if_cong)

text \<open>Initialisation succeeds, clears exactly the 25600 table entries, and leaves a heap in
which nothing is owned and every block is free.\<close>

theorem kheap_init_empty:
  "\<exists>m'. kheap_init heap m = Some (0, kernel_heap, m')
    \<and> (\<forall>a. m' a = (if 0x7E00 \<le> a \<and> a < 0xE200 then 0 else m a))
    \<and> (\<forall>b. 0 \<le> b \<and> b < 25600 \<longrightarrow> fits kernel_heap m' b 1) \<and> (\<forall>a. \<not> owned kernel_heap m' a)"
  by (auto simp: kheap_init_eq fits_def run_free_def owned_def entry_addr_def is_free_block_def)

theorem kheap_init_empty_witness:
  "\<exists>m'. kheap_init kernel_heap (\<lambda>_. 255) = Some (0, kernel_heap, m') \<and> m' 32256 = 0
    \<and> fits kernel_heap m' 25599 1"
  using kheap_init_empty [of kernel_heap "\<lambda>_. 255"] by auto

text \<open>C22: a zeroing allocation of at most one block either finds no free block and changes
nothing, or returns a page of the pool that nobody owned, which is owned from then on, reads as
zero in the requested bytes, and does not disturb any byte that was owned before.\<close>

theorem kheap_zalloc_fresh_page:
  assumes "0 < n" and "n \<le> 4096" and "kheap_zalloc kernel_heap n m = (p, m')"
  shows "if p = 0 then m' = m
    else p mod 4096 = 0 \<and> 0 < p \<and> p + 4096 \<le> 2147483648
      \<and> (\<forall>a. p \<le> a \<and> a < p + 4096 \<longrightarrow> \<not> owned kernel_heap m a)
      \<and> (\<forall>a. owned kernel_heap m' a \<longleftrightarrow> owned kernel_heap m a \<or> p \<le> a \<and> a < p + 4096)
      \<and> (\<forall>a. p \<le> a \<and> a < p + int n \<longrightarrow> m' a = 0)
      \<and> (\<forall>a. owned kernel_heap m a \<longrightarrow> m' a = m a)"
  using assms kh.alloc_null [OF assms(1,2)] kh.alloc_page [OF assms] kh.alloc_fresh [OF assms]
    kh.alloc_own [OF assms] kh.alloc_zero [OF assms] kh.alloc_frame [OF assms]
  by auto

theorem kheap_zalloc_fresh_page_witness:
  "\<exists>m'. kheap_zalloc kernel_heap 32 (\<lambda>_. 0) = (16777216, m') \<and> owned kernel_heap m' 16777216"
proof -
  obtain m' where z: "kheap_zalloc kernel_heap 32 (\<lambda>_. 0) = (16777216, m')"
    using kheap_zalloc_single [OF kernel_heap_layout _ _ first_fit_empty, of 32]
    by (auto simp: block_addr_def)
  with kheap_zalloc_fresh_page [OF _ _ z] show ?thesis by simp
qed

text \<open>Two allocations of at most one block each, with any stores into owned memory in
between, return pages that do not overlap.\<close>

theorem kheap_pages_disjoint:
  assumes "0 < n" and "n \<le> 4096" and "kheap_zalloc kernel_heap n m = (p, m1)" and "p \<noteq> 0"
    and "\<forall>(a, v) \<in> set xs. owned kernel_heap m1 a"
    and "0 < k" and "k \<le> 4096"
    and "kheap_zalloc kernel_heap k (foldl (\<lambda>m (a, v). m(a := v)) m1 xs) = (q, m2)" and "q \<noteq> 0"
  shows "p + 4096 \<le> q \<or> q + 4096 \<le> p"
  by (rule kh.successive_pages_disjoint [OF assms(1-7,9,8)])

theorem kheap_pages_disjoint_witness:
  "\<exists>p m1 q m2. kheap_zalloc kernel_heap 32 (\<lambda>_. 0) = (p, m1) \<and> kheap_zalloc kernel_heap 8 m1 = (q, m2)
    \<and> p \<noteq> 0 \<and> q \<noteq> 0 \<and> (p + 4096 \<le> q \<or> q + 4096 \<le> p)"
proof -
  let ?m = "memset (mark_run (\<lambda>_. 0) 32256 1) 16777216 0 32"
  have p: "kheap_zalloc kernel_heap 32 (\<lambda>_. 0) = (16777216, ?m)"
    using kheap_zalloc_single [OF kernel_heap_layout _ _ first_fit_empty, of 32]
    by (simp add: block_addr_def entry_addr_def)
  have entry: "?m a = (if a = 32256 then run_entry 1 0 else 0)" for a
    by (auto simp: memset_eq mark_run_def)
  have "first_fit kernel_heap ?m 1 1"
    by (auto simp: first_fit_def fits_def run_free_def entry_addr_def is_free_block_def entry run_entry_def)
  then obtain m2 where q: "kheap_zalloc kernel_heap 8 ?m = (16781312, m2)"
    using kheap_zalloc_single [OF kernel_heap_layout, of 8 ?m 1] by (simp add: block_addr_def)
  show ?thesis
    using p q kheap_pages_disjoint [OF _ _ p, of "[]" 8 16781312 m2] by simp
qed

end
