(* ===== verification/Page_Pool.thy ===== *)
theory Page_Pool
  imports Kheap
begin

text \<open>
  What the kernel heap is for a client that asks for at most one page at a time: a finite map
  from page numbers to page contents.  \<open>heap_step\<close> lets the functions of \<open>kheap.c\<close> and the
  client's own loads and stores act on the flat memory; \<open>pool_step\<close> is the abstract pool, which
  knows neither table entries nor memory.  The invariant \<open>single_pages\<close> makes the heap a
  refinement of the pool; it is what \<open>heap_free\<close> needs, which looks at the entry behind the one
  it frees.
\<close>

section \<open>Steps of the heap\<close>

text \<open>The events: a request with its result, a load and a store of one byte, a release.\<close>

datatype heap_event = Alloc nat addr | Load addr byte | Store addr byte | Free addr

inductive heap_step :: "mem \<Rightarrow> heap_event \<Rightarrow> mem \<Rightarrow> bool" where
  step_alloc: "0 < n \<Longrightarrow> n \<le> 4096 \<Longrightarrow> kheap_zalloc kernel_heap n m = (p, m') \<Longrightarrow>
    heap_step m (Alloc n p) m'"
| step_load: "owned kernel_heap m a \<Longrightarrow> v = m a \<Longrightarrow> heap_step m (Load a v) m"
| step_store: "owned kernel_heap m a \<Longrightarrow> heap_step m (Store a v) (m(a := v))"
| step_free: "owned kernel_heap m p \<Longrightarrow> p mod 4096 = 0 \<Longrightarrow> kheap_free kernel_heap p m = Some (q, m') \<Longrightarrow>
    heap_step m (Free p) m'"

code_pred (modes: i \<Rightarrow> i \<Rightarrow> o \<Rightarrow> bool) heap_step .

inductive_cases heap_stepE: "heap_step m e m'"

section \<open>The abstract pool\<close>

type_synonym pool = "int \<rightharpoonup> (int \<Rightarrow> byte)"

abbreviation page_no :: "int \<Rightarrow> bool" where
  "page_no b \<equiv> 0 \<le> b \<and> b < 25600"

inductive pool_step :: "pool \<Rightarrow> heap_event \<Rightarrow> pool \<Rightarrow> bool" where
  pool_alloc: "page_no b \<Longrightarrow> P b = None \<Longrightarrow> (\<And>c. 0 \<le> c \<Longrightarrow> c < b \<Longrightarrow> P c \<noteq> None) \<Longrightarrow>
    (\<And>i. 0 \<le> i \<Longrightarrow> i < int n \<Longrightarrow> pg i = 0) \<Longrightarrow>
    pool_step P (Alloc n (16777216 + 4096 * b)) (P(b \<mapsto> pg))"
| pool_full: "(\<And>b. page_no b \<Longrightarrow> P b \<noteq> None) \<Longrightarrow> pool_step P (Alloc n 0) P"
| pool_load: "P b = Some pg \<Longrightarrow> 0 \<le> i \<Longrightarrow> i < 4096 \<Longrightarrow>
    pool_step P (Load (16777216 + 4096 * b + i) (pg i)) P"
| pool_store: "P b = Some pg \<Longrightarrow> 0 \<le> i \<Longrightarrow> i < 4096 \<Longrightarrow>
    pool_step P (Store (16777216 + 4096 * b + i) v) (P(b \<mapsto> pg(i := v)))"
| pool_free: "P b \<noteq> None \<Longrightarrow> pool_step P (Free (16777216 + 4096 * b)) (P(b := None))"

text \<open>The pool that a memory stands for.\<close>

definition page_at :: "mem \<Rightarrow> int \<Rightarrow> int \<Rightarrow> byte" where
  "page_at m b = (\<lambda>i. if 0 \<le> i \<and> i < 4096 then m (block_addr kernel_heap b + i) else 0)"

definition pool_of :: "mem \<Rightarrow> pool" where
  "pool_of m =
     (\<lambda>b. if page_no b \<and> \<not> is_free_block m (entry_addr kernel_heap b) then Some (page_at m b) else None)"

text \<open>Every entry of the table is free or marks a block of its own, and nothing follows the last.\<close>

definition single_pages :: "mem \<Rightarrow> bool" where
  "single_pages m \<longleftrightarrow>
     (\<forall>b. page_no b \<longrightarrow> m (entry_addr kernel_heap b) = 0 \<or> m (entry_addr kernel_heap b) = run_entry 1 0) \<and>
     \<not> heap_table_entry_has_next m (entry_addr kernel_heap 25600)"

section \<open>The four operations on the pool\<close>

lemma page_offset:
  "0 \<le> j \<Longrightarrow> j < 4096 \<Longrightarrow> 0 \<le> i \<Longrightarrow> i < 4096 \<Longrightarrow> 4096 * c + j = 4096 * b + i \<longleftrightarrow> c = b \<and> j = i"
  for b c i j :: int
proof -
  assume "0 \<le> j" "j < 4096" "0 \<le> i" "i < 4096"
  then have "(4096 * c + j) div 4096 = c" "(4096 * b + i) div 4096 = b" by simp_all
  then have "4096 * c + j = 4096 * b + i \<Longrightarrow> c = b" by metis
  then show ?thesis by auto
qed

lemma single_no_next:
  assumes "single_pages m" and "0 \<le> b" and "b \<le> 25600"
  shows "\<not> heap_table_entry_has_next m (entry_addr kernel_heap b)"
  using assms by (cases "b = 25600") (auto simp: single_pages_def heap_table_entry_has_next_def run_entry_def)

lemma single_pages_cong:
  assumes "single_pages m" and "\<And>b. page_no b \<Longrightarrow> m' (entry_addr kernel_heap b) = m (entry_addr kernel_heap b)
      \<or> m' (entry_addr kernel_heap b) = 0 \<or> m' (entry_addr kernel_heap b) = run_entry 1 0"
    and "m' (entry_addr kernel_heap 25600) = m (entry_addr kernel_heap 25600)"
  shows "single_pages m'"
  using assms has_next_cong [of m' "entry_addr kernel_heap 25600" m] unfolding single_pages_def by metis

lemma pool_owned: "pool_of m b = Some pg \<Longrightarrow> 0 \<le> i \<Longrightarrow> i < 4096 \<Longrightarrow>
    page_no b \<and> owned kernel_heap m (16777216 + 4096 * b + i) \<and> pg i = m (16777216 + 4096 * b + i)"
  using block_of_eq [of kernel_heap b "16777216 + 4096 * b + i"]
  by (auto simp: pool_of_def page_at_def owned_def block_addr_def split: if_splits)

lemma owned_pool_of:
  assumes "owned kernel_heap m a"
  obtains b i where "page_no b" "0 \<le> i" "i < 4096" "a = 16777216 + 4096 * b + i"
    "pool_of m b = Some (page_at m b)" "page_at m b i = m a"
proof -
  let ?b = "block_of kernel_heap a"
  have "block_addr kernel_heap ?b \<le> a \<and> a < block_addr kernel_heap ?b + 4096" by (rule block_of_bounds)
  moreover have "page_no ?b" "pool_of m ?b = Some (page_at m ?b)"
    using assms by (auto simp: owned_def pool_of_def)
  ultimately show thesis
    by (intro that [of ?b "a - block_addr kernel_heap ?b"]) (auto simp: page_at_def block_addr_def)
qed


text \<open>The memory after a granted request for at most a page, as seen by the table and by the pages.\<close>

lemma zalloc_memory:
  fixes m :: mem
  assumes "page_no b" and "n \<le> 4096"
  defines "m' \<equiv> memset (mark_run m (entry_addr kernel_heap b) 1) (block_addr kernel_heap b) 0 n"
  shows "0 \<le> c \<Longrightarrow> c \<le> 25600 \<Longrightarrow>
      m' (entry_addr kernel_heap c) = (if c = b then run_entry 1 0 else m (entry_addr kernel_heap c))"
    and "0 \<le> c \<Longrightarrow> c \<noteq> b \<Longrightarrow> page_at m' c = page_at m c"
    and "0 \<le> i \<Longrightarrow> i < int n \<Longrightarrow> page_at m' b i = 0"
  using assms(1,2)
  by (auto simp: m'_def memset_eq mark_run_def entry_addr_def block_addr_def page_at_def fun_eq_iff)

lemma alloc_single_pages:
  assumes inv: "single_pages m" and n: "0 < n" "n \<le> 4096" and z: "kheap_zalloc kernel_heap n m = (p, m')"
  shows "single_pages m' \<and> pool_step (pool_of m) (Alloc n p) (pool_of m')"
  using kernel_heap_layout n
proof (cases rule: kheap_zalloc_cases [where m = m])
  case full
  have "pool_of m b \<noteq> None" if "page_no b" for b
    using full(2) [of b] that by (auto simp: pool_of_def fits_def run_free_def)
  then show ?thesis using full(1) z inv by (auto intro: pool_full)
next
  case (found b)
  have b: "page_no b" "is_free_block m (entry_addr kernel_heap b)"
    using found(1) by (auto simp: first_fit_def fits_def run_free_def)
  have taken: "pool_of m c \<noteq> None" if "0 \<le> c" "c < b" for c
    using found(1) that by (auto simp: first_fit_def fits_def run_free_def pool_of_def)
  have p: "p = 16777216 + 4096 * b"
    and m': "m' = memset (mark_run m (entry_addr kernel_heap b) 1) (block_addr kernel_heap b) 0 n"
    using found(3) z by (auto simp: block_addr_def)
  note mem = zalloc_memory [OF b(1) n(2), where m = m, folded m']
  have "single_pages m'"
    by (rule single_pages_cong [OF inv]) (use mem(1) b(1) in auto)
  moreover have "pool_of m' = (pool_of m)(b \<mapsto> page_at m' b)"
    using mem(1,2) b by (auto simp: fun_eq_iff pool_of_def is_free_block_def run_entry_def split: if_splits)
  moreover have "pool_of m b = None" using b by (simp add: pool_of_def)
  ultimately show ?thesis
    using pool_alloc [of b "pool_of m" n "page_at m' b"] b(1) taken mem(3) p by auto
qed

lemma load_single_pages:
  assumes "single_pages m" and own: "owned kernel_heap m a"
  shows "single_pages m \<and> pool_step (pool_of m) (Load a (m a)) (pool_of m)"
proof -
  obtain b i where "page_no b" "0 \<le> i" "i < 4096" "a = 16777216 + 4096 * b + i"
    "pool_of m b = Some (page_at m b)" "page_at m b i = m a" using own by (rule owned_pool_of)
  then show ?thesis using assms(1) pool_load [of "pool_of m" b "page_at m b" i] by simp
qed

lemma store_single_pages:
  assumes inv: "single_pages m" and own: "owned kernel_heap m a"
  shows "single_pages (m(a := v)) \<and> pool_step (pool_of m) (Store a v) (pool_of (m(a := v)))"
proof -
  obtain b i where a: "page_no b" "0 \<le> i" "i < 4096" "a = 16777216 + 4096 * b + i"
    "pool_of m b = Some (page_at m b)" using own by (rule owned_pool_of)
  have entry: "(m(a := v)) (entry_addr kernel_heap c) = m (entry_addr kernel_heap c)" if "c \<le> 25600" for c
    using a that by (simp add: entry_addr_def)
  have "single_pages (m(a := v))"
    by (rule single_pages_cong [OF inv]) (use entry in auto)
  moreover have "pool_of (m(a := v)) = (pool_of m)(b \<mapsto> (page_at m b)(i := v))"
  proof
    fix c
    show "pool_of (m(a := v)) c = ((pool_of m)(b \<mapsto> (page_at m b)(i := v))) c"
    proof (cases "page_no c")
      case True
      have "16777216 + 4096 * c + j = a \<longleftrightarrow> c = b \<and> j = i" if "0 \<le> j" "j < 4096" for j
        using page_offset [OF that a(2,3), of c b] unfolding a(4) by linarith
      then have "page_at (m(a := v)) c = (if c = b then (page_at m b)(i := v) else page_at m c)"
        using a(2,3) by (auto simp: page_at_def block_addr_def fun_eq_iff)
      moreover have "is_free_block (m(a := v)) (entry_addr kernel_heap c) = is_free_block m (entry_addr kernel_heap c)"
        using entry [of c] True by (simp add: is_free_block_def)
      ultimately show ?thesis using a(5) True by (auto simp: pool_of_def)
    next
      case False
      with a(1) show ?thesis by (auto simp: pool_of_def)
    qed
  qed
  ultimately show ?thesis
    using pool_store [where P = "pool_of m" and pg = "page_at m b" and v = v, OF a(5,2,3)] by (simp add: a(4))
qed

text \<open>A table without chained entries.\<close>

definition unchained :: "mem \<Rightarrow> bool" where
  "unchained m \<longleftrightarrow> (\<forall>b. 0 \<le> b \<and> b \<le> 25600 \<longrightarrow> \<not> heap_table_entry_has_next m (entry_addr kernel_heap b))"

lemma single_unchained: "single_pages m \<Longrightarrow> unchained m"
  by (simp add: unchained_def single_no_next)

lemma unchained_cong:
  assumes "unchained m" and "\<And>b. 0 \<le> b \<Longrightarrow> b \<le> 25600 \<Longrightarrow>
    m' (entry_addr kernel_heap b) = m (entry_addr kernel_heap b) \<or> m' (entry_addr kernel_heap b) \<in> {0, run_entry 1 0}"
  shows "unchained m'"
  using assms by (fastforce simp: unchained_def heap_table_entry_has_next_def run_entry_def)

lemma kheap_zalloc_unchained:
  assumes "unchained m" and "0 < n" "n \<le> 4096" and "kheap_zalloc kernel_heap n m = (p, m')"
  shows "unchained m'"
  using kernel_heap_layout assms(2,3)
proof (cases rule: kheap_zalloc_cases [where m = m])
  case (found b)
  then have b: "page_no b" "m' = memset (mark_run m (entry_addr kernel_heap b) 1) (block_addr kernel_heap b) 0 n"
    using assms(4) by (auto simp: first_fit_def fits_def)
  show ?thesis by (rule unchained_cong [OF assms(1)]) (use zalloc_memory(1) [OF b(1) assms(3), of _ m] b(2) in simp)
qed (use assms in simp)

text \<open>Without chains a release returns and does what it should.\<close>

lemma free_returns:
  assumes inv: "unchained m" and own: "owned kernel_heap m p" and p: "p mod 4096 = 0"
  obtains b where "page_no b" "p = 16777216 + 4096 * b" "pool_of m b \<noteq> None"
    "kheap_free kernel_heap p m = Some (p + 4096, cleared m p (entry_addr kernel_heap b) 1)"
proof -
  obtain b i where b: "page_no b" "0 \<le> i" "i < 4096" "p = 16777216 + 4096 * b + i"
    "pool_of m b = Some (page_at m b)" using own by (rule owned_pool_of)
  have "p = i + 4096 * (4096 + b)" using b(4) by simp
  then have "p mod 4096 = i mod 4096" by (simp only: mod_mult_self2)
  then have i: "i = 0" using p b(2,3) by simp
  have "\<not> heap_table_entry_has_next m (entry_addr kernel_heap (b + 1))"
    using inv b(1) by (simp add: unchained_def)
  then have "heap_free kernel_heap p m = Some (p + 4096, cleared m p (entry_addr kernel_heap b) 1)"
    using heap_free_single [OF kernel_heap_layout, of b m] b(1,4) i by (simp add: block_addr_def algebra_simps)
  then show thesis using b i by (intro that [of b]) (auto simp: kheap_free_def)
qed

lemma cleared_page:
  assumes b: "page_no b" and m': "m' = cleared m (16777216 + 4096 * b) (entry_addr kernel_heap b) 1"
  shows "pool_of m' = (pool_of m)(b := None)" "single_pages m \<Longrightarrow> single_pages m'" "unchained m \<Longrightarrow> unchained m'"
proof -
  have entry: "m' (entry_addr kernel_heap c) = (if c = b then 0 else m (entry_addr kernel_heap c))"
    if "0 \<le> c" "c \<le> 25600" for c
    using that b unfolding m' by (auto simp: cleared_def entry_addr_def)
  have page: "page_at m' c = page_at m c" if "0 \<le> c" "c \<noteq> b" for c
  proof
    fix i
    have "\<not> (16777216 + 4096 * b \<le> 16777216 + 4096 * c + i \<and> 16777216 + 4096 * c + i < 16777216 + 4096 * b + 4096)"
      if "0 \<le> i" "i < 4096" using that \<open>c \<noteq> b\<close> by linarith
    then show "page_at m' c i = page_at m c i"
      using that(1) b unfolding m'
      by (cases "0 \<le> i \<and> i < 4096") (auto simp: page_at_def cleared_def entry_addr_def block_addr_def)
  qed
  show "single_pages m \<Longrightarrow> single_pages m'"
    by (rule single_pages_cong [of m]) (use entry b in auto)
  show "unchained m \<Longrightarrow> unchained m'"
    by (rule unchained_cong [of m]) (use entry b in auto)
  show "pool_of m' = (pool_of m)(b := None)"
    using entry page b by (auto simp: fun_eq_iff pool_of_def is_free_block_def split: if_splits)
qed

lemma free_single_pages:
  assumes inv: "single_pages m" and "owned kernel_heap m p" and "p mod 4096 = 0"
    and f: "kheap_free kernel_heap p m = Some (q, m')"
  shows "single_pages m' \<and> pool_step (pool_of m) (Free p) (pool_of m')"
proof -
  obtain b where b: "page_no b" "p = 16777216 + 4096 * b" "pool_of m b \<noteq> None"
    "m' = cleared m p (entry_addr kernel_heap b) 1"
    by (rule free_returns [OF single_unchained [OF inv] assms(2,3)]) (use f in auto)
  show ?thesis
    using cleared_page(1,2) [OF b(1), of m' m] inv pool_free [where P = "pool_of m", OF b(3)] b(2,4) by simp
qed

interpretation heap_pool: simulation heap_step pool_step pool_of single_pages
proof
  fix m e m'
  assume inv: "single_pages m" and "heap_step m e m'"
  from this(2) have "single_pages m' \<and> pool_step (pool_of m) e (pool_of m')"
  proof cases
    case (step_load a v)
    then show ?thesis using load_single_pages [OF inv] by blast
  next
    case (step_alloc n p)
    then show ?thesis using alloc_single_pages [OF inv] by blast
  next
    case (step_store a v)
    then show ?thesis using store_single_pages [OF inv] by blast
  next
    case (step_free p q)
    show ?thesis unfolding step_free(1) by (rule free_single_pages [OF inv step_free(2-4)])
  qed
  then show "single_pages m'" and "pool_step (pool_of m) e (pool_of m')" by auto
qed


text \<open>The heap that \<open>kheap_init\<close> leaves is the empty pool.\<close>

lemma kheap_init_pool:
  assumes "kheap_init heap m0 = Some (r, h, m)" and "\<not> heap_table_entry_has_next m0 57856"
  shows "single_pages m \<and> pool_of m = (\<lambda>_. None)"
proof -
  have m: "m = (\<lambda>a. if 32256 \<le> a \<and> a < 57856 then 0 else m0 a)"
    using assms(1) by (simp add: kheap_init_eq)
  show ?thesis
    using assms(2) unfolding m
    by (auto simp: single_pages_def pool_of_def entry_addr_def heap_table_entry_has_next_def is_free_block_def
        fun_eq_iff)
qed

lemma finite_pool: "finite (dom (pool_of m))"
proof (rule finite_subset)
  show "dom (pool_of m) \<subseteq> {0..<25600}"
  proof
    fix b assume "b \<in> dom (pool_of m)"
    then have "page_no b" by (auto simp: pool_of_def split: if_splits)
    then show "b \<in> {0..<25600}" by simp
  qed
qed (rule finite_atLeastLessThan_int)

text \<open>Free entries and pages of the pool make up the table.\<close>

lemma free_pages_pool: "free_pages kernel_heap m + card (dom (pool_of m)) = 25600"
proof -
  let ?T = "{b. page_no b}" and ?F = "{b. page_no b \<and> is_free_block m (entry_addr kernel_heap b)}"
  have fin: "finite ?T" by (rule finite_subset [of _ "{0..<25600}"]) auto
  have dom: "dom (pool_of m) = ?T - ?F" by (auto simp: dom_def pool_of_def split: if_splits)
  have "?F = int ` {b. b < 25600 \<and> is_free_block m (entry_addr kernel_heap (int b))}"
    by (auto simp: image_iff) (metis nat_int_comparison(2) nonneg_int_cases of_nat_numeral)
  then have F: "card ?F = free_pages kernel_heap m" by (simp add: free_pages_card card_image)
  have "?T = int ` {..<25600}"
    by (auto simp: image_iff) (metis nat_int_comparison(2) nonneg_int_cases of_nat_numeral lessThan_iff)
  then have T: "card ?T = 25600" by (simp add: card_image)
  have "?F \<subseteq> ?T" by auto
  then show ?thesis
    using card_Diff_subset [of ?F ?T] card_mono [OF fin, of ?F] fin finite_subset [of ?F ?T]
    unfolding dom F T by simp
qed

section \<open>Properties\<close>

text \<open>C9: the kernel heap refines the page pool.  Any sequence of requests of at most a page, loads
and stores in owned pages and releases of pages that the heap can perform, with the results it
gives, is a run of the abstract pool: requests take the lowest free page number, or fail when none
is left, the requested bytes read zero, loads see the last store to that page and offset, and a
release makes that one page free.\<close>

theorem kernel_heap_refines_pool:
  assumes "single_pages m" and "runs heap_step m es m'"
  shows "runs pool_step (pool_of m) es (pool_of m')"
  using assms(2,1) by (rule heap_pool.runs_abs)

text \<open>C10: from initialisation on, under any such sequence, every table entry is 0 or 0x41 (taken,
first, without successor), the result for the pool is reached from the empty pool, and free entries
and owned pages together are always 25600.  The byte behind the table must not look like a chained
entry at boot, for \<open>heap_free\<close> of the last page reads it.\<close>

theorem kernel_heap_invariant:
  assumes "kheap_init heap m0 = Some (r, h, m)" and "\<not> heap_table_entry_has_next m0 57856"
    and "runs heap_step m es m'"
  shows "(\<forall>b. page_no b \<longrightarrow> m' (32256 + b) = 0 \<or> m' (32256 + b) = 0x41)
    \<and> runs pool_step (\<lambda>_. None) es (pool_of m')
    \<and> free_pages kernel_heap m' + card (dom (pool_of m')) = 25600"
proof -
  note start = kheap_init_pool [OF assms(1,2)]
  then have "single_pages m'" using heap_pool.runs_inv [OF assms(3)] by blast
  then have "\<forall>b. page_no b \<longrightarrow> m' (32256 + b) = 0 \<or> m' (32256 + b) = 0x41"
    by (simp add: single_pages_def entry_addr_def run_entry_def)
  then show ?thesis
    using heap_pool.runs_abs [OF assms(3)] start free_pages_pool by metis
qed

text \<open>C21: in every memory reached from initialisation by such steps, \<open>kheap_free\<close> of an owned page
returns: its loop visits that page's entry only, and the pool loses exactly that page.\<close>

theorem kheap_free_returns:
  assumes "kheap_init heap m0 = Some (r, h, m)" and "\<not> heap_table_entry_has_next m0 57856"
    and "runs heap_step m es m'" and "pool_of m' b = Some pg"
  shows "\<exists>m''. kheap_free kernel_heap (16777216 + 4096 * b) m' = Some (16777216 + 4096 * (b + 1), m'')
    \<and> pool_of m'' = (pool_of m')(b := None)"
proof -
  have inv: "single_pages m'"
    using heap_pool.runs_inv [OF assms(3)] kheap_init_pool [OF assms(1,2)] by blast
  have b: "page_no b" "owned kernel_heap m' (16777216 + 4096 * b)"
    using pool_owned [OF assms(4), of 0] by auto
  have "kheap_free kernel_heap (16777216 + 4096 * b) m' = Some (16777216 + 4096 * b + 4096,
      cleared m' (16777216 + 4096 * b) (entry_addr kernel_heap b) 1)"
    by (rule free_returns [OF single_unchained [OF inv] b(2)]) auto
  then show ?thesis using cleared_page(1,2) [OF b(1) refl] inv by (simp add: algebra_simps)
qed

text \<open>A run from the empty memory: one page is taken, written, read and given back.\<close>

lemma demo_run:
  obtains m' where "runs heap_step (\<lambda>_. 0) [Alloc 32 0x1000000, Store 0x1000005 7, Load 0x1000005 7] m'"
    and "pool_of m' 0 \<noteq> None"
proof -
  obtain m1 where z: "kheap_zalloc kernel_heap 32 (\<lambda>_. 0) = (0x1000000, m1)"
    using kheap_zalloc_single [OF kernel_heap_layout _ _ first_fit_empty, of 32]
    by (auto simp: block_addr_def)
  then have own: "owned kernel_heap m1 0x1000005"
    using kh.alloc_owned_page [of 32 "\<lambda>_. 0" "0x1000000" m1 "0x1000005"] by simp
  then have "owned kernel_heap (m1(0x1000005 := 7)) 0x1000005" by (simp add: kh.store_own)
  moreover from this have "pool_of (m1(0x1000005 := 7)) 0 \<noteq> None"
    by (simp add: owned_def pool_of_def block_of_def)
  ultimately show thesis
    using z own by (intro that [of "m1(0x1000005 := 7)"])
      (auto intro!: runs_Cons runs_Nil step_alloc step_store step_load)
qed

lemma demo_init: "kheap_init kernel_heap (\<lambda>_. 0) = Some (0, kernel_heap, \<lambda>_. 0)"
  "\<not> heap_table_entry_has_next (\<lambda>_. 0) 57856"
  by (auto simp: kheap_init_eq heap_table_entry_has_next_def)

theorem kernel_heap_refines_pool_witness:
  "\<exists>P. runs pool_step (pool_of (\<lambda>_. 0)) [Alloc 32 0x1000000, Store 0x1000005 7, Load 0x1000005 7] P"
proof -
  obtain m' where run: "runs heap_step (\<lambda>_. 0) [Alloc 32 0x1000000, Store 0x1000005 7, Load 0x1000005 7] m'"
    by (rule demo_run)
  show ?thesis using kernel_heap_refines_pool [OF _ run] kheap_init_pool [OF demo_init] by blast
qed

theorem kernel_heap_invariant_witness:
  "\<exists>m'. runs heap_step (\<lambda>_. 0) [Alloc 32 0x1000000, Store 0x1000005 7, Load 0x1000005 7] m'
    \<and> (m' 32256 = 0 \<or> m' 32256 = 0x41) \<and> free_pages kernel_heap m' + card (dom (pool_of m')) = 25600"
proof -
  obtain m' where run: "runs heap_step (\<lambda>_. 0) [Alloc 32 0x1000000, Store 0x1000005 7, Load 0x1000005 7] m'"
    by (rule demo_run)
  show ?thesis
    using kernel_heap_invariant [OF demo_init run] run by (metis add_0_right order_refl zero_less_numeral)
qed

theorem kheap_free_returns_witness:
  "\<exists>m' m''. runs heap_step (\<lambda>_. 0) [Alloc 32 0x1000000, Store 0x1000005 7, Load 0x1000005 7] m'
    \<and> kheap_free kernel_heap 0x1000000 m' = Some (0x1001000, m'') \<and> pool_of m'' 0 = None"
proof -
  obtain m' pg where run: "runs heap_step (\<lambda>_. 0) [Alloc 32 0x1000000, Store 0x1000005 7, Load 0x1000005 7] m'"
    and pg: "pool_of m' 0 = Some pg"
    by (rule demo_run) blast
  show ?thesis using kheap_free_returns [OF demo_init run pg] run by auto
qed

end
