(* ===== verification/Paging.thy ===== *)
theory Paging
  imports Kheap
begin

text \<open>
  \<open>memory/paging/paging.c\<close> and \<open>paging.h\<close>: building the page directory and changing one
  entry.  Directory and tables are arrays of 32-bit words in the flat memory, at the addresses
  the kernel heap hands out; a directory entry holds its table's address and flags, so the
  model works on the words the processor reads.  \<open>translate\<close> is the processor's two-level
  walk, against which the functions are specified.
\<close>

definition PAGING_CACHE_DISABLED :: "8 word" where [simp]: "PAGING_CACHE_DISABLED = 0x10"
definition PAGING_WRITE_THROUGH :: "8 word" where [simp]: "PAGING_WRITE_THROUGH = 0x08"
definition PAGING_ACCESS_FROM_ALL :: "8 word" where [simp]: "PAGING_ACCESS_FROM_ALL = 0x04"
definition PAGING_IS_WRITABLE :: "8 word" where [simp]: "PAGING_IS_WRITABLE = 0x02"
definition PAGING_IS_PRESENT :: "8 word" where [simp]: "PAGING_IS_PRESENT = 0x01"
definition PAGING_ADDRESS_MASK :: "32 word" where [simp]: "PAGING_ADDRESS_MASK = 0xfffff000"
definition PAGING_TOTAL_ENTRIES_PER_TABLE :: nat where [simp]: "PAGING_TOTAL_ENTRIES_PER_TABLE = 1024"
definition PAGING_PAGE_SIZE :: int where [simp]: "PAGING_PAGE_SIZE = 4096"

section \<open>The operations\<close>

text \<open>\<open>table[j] = (offset + j * PAGING_PAGE_SIZE) | flags\<close>, for \<open>j\<close> up to 1023.\<close>

function fill_table :: "mem \<Rightarrow> addr \<Rightarrow> int \<Rightarrow> 8 word \<Rightarrow> nat \<Rightarrow> mem" where
  "fill_table m tbl offset flags j =
     (if j < PAGING_TOTAL_ENTRIES_PER_TABLE
      then fill_table (store32 m (tbl + 4 * int j)
             (word_of_int (offset + int j * PAGING_PAGE_SIZE) OR ucast flags)) tbl offset flags (Suc j)
      else m)"
  by pat_completeness auto
termination
  by (relation "measure (\<lambda>(m, tbl, offset, flags, j). PAGING_TOTAL_ENTRIES_PER_TABLE - j)") auto

declare fill_table.simps [simp del]

function fill_directory :: "heap_t \<Rightarrow> mem \<Rightarrow> addr \<Rightarrow> int \<Rightarrow> 8 word \<Rightarrow> nat \<Rightarrow> mem" where
  "fill_directory heap m directory offset flags i =
     (if i < PAGING_TOTAL_ENTRIES_PER_TABLE then
        let (tbl, m) = kheap_zalloc heap (PAGING_TOTAL_ENTRIES_PER_TABLE * 4) m;
            m = fill_table m tbl offset flags 0;
            offset = u32 (offset + PAGING_PAGE_SIZE * int PAGING_TOTAL_ENTRIES_PER_TABLE);
            m = store32 m (directory + 4 * int i)
                  ((word_of_int tbl OR ucast flags) OR ucast PAGING_IS_WRITABLE)
        in fill_directory heap m directory offset flags (Suc i)
      else m)"
  by pat_completeness auto
termination
  by (relation "measure (\<lambda>(heap, m, directory, offset, flags, i). PAGING_TOTAL_ENTRIES_PER_TABLE - i)")
     auto

declare fill_directory.simps [simp del]

text \<open>\<open>paging_new_4gb\<close> returns the address of a \<open>paging_4gb_chunk\<close>, a struct of one pointer.\<close>

definition paging_new_4gb :: "heap_t \<Rightarrow> 8 word \<Rightarrow> mem \<Rightarrow> addr \<times> mem" where
  "paging_new_4gb heap flags m =
     (let (directory, m) = kheap_zalloc heap (PAGING_TOTAL_ENTRIES_PER_TABLE * 4) m;
          offset = 0;
          m = fill_directory heap m directory offset flags 0;
          (page_chunk, m) = kheap_zalloc heap 4 m;
          m = store32 m page_chunk (word_of_int directory)
      in (page_chunk, m))"

definition paging_4gb_chunk_get_directory :: "mem \<Rightarrow> addr \<Rightarrow> addr" where
  "paging_4gb_chunk_get_directory m chunk = uint (load32 m chunk)"

text \<open>
  The paging registers: \<open>paging_load_directory\<close> (\<open>paging.asm\<close>) loads \<open>cr3\<close>, and
  \<open>paging_enable_paging\<close> sets the paging bit.
\<close>

record paging_state =
  current_directory :: addr
  cr3 :: addr
  paging_enabled :: bool

definition paging_load_directory :: "addr \<Rightarrow> paging_state \<Rightarrow> paging_state" where
  "paging_load_directory directory s = s\<lparr>cr3 := directory\<rparr>"

definition paging_switch :: "addr \<Rightarrow> paging_state \<Rightarrow> paging_state" where
  "paging_switch directory s = (paging_load_directory directory s)\<lparr>current_directory := directory\<rparr>"

definition paging_is_address_aligned :: "addr \<Rightarrow> bool" where
  "paging_is_address_aligned address \<longleftrightarrow> u32 address mod PAGING_PAGE_SIZE = 0"

definition paging_set_value :: "addr \<Rightarrow> addr \<Rightarrow> 32 word \<Rightarrow> mem \<Rightarrow> int \<times> mem" where
  "paging_set_value directory virtual_address table_entry m =
     (if \<not> paging_is_address_aligned virtual_address then (- EINVARG, m)
      else
        let addr1 = u32 virtual_address;
            table_total = int PAGING_TOTAL_ENTRIES_PER_TABLE * PAGING_PAGE_SIZE;
            directory_entry = load32 m (directory + 4 * (addr1 div table_total));
            tbl = uint (directory_entry AND PAGING_ADDRESS_MASK)
        in (0, store32 m (tbl + 4 * (addr1 mod table_total div PAGING_PAGE_SIZE)) table_entry))"

section \<open>The processor's walk\<close>

text \<open>
  The translation of a 32-bit linear address by the directory at \<open>dir\<close>, \<open>None\<close> for a page
  fault; \<open>page_of\<close> is the address part of an entry.
\<close>

definition page_of :: "32 word \<Rightarrow> addr" where
  "page_of e = uint (e AND 0xfffff000)"

definition pde_of :: "mem \<Rightarrow> addr \<Rightarrow> int \<Rightarrow> 32 word" where
  "pde_of m dir va = load32 m (dir + 4 * (va div 4194304))"

definition pte_addr :: "mem \<Rightarrow> addr \<Rightarrow> int \<Rightarrow> addr" where
  "pte_addr m dir va = page_of (pde_of m dir va) + 4 * (va mod 4194304 div 4096)"

definition translate :: "mem \<Rightarrow> addr \<Rightarrow> int \<Rightarrow> addr option" where
  "translate m dir va =
     (let pde = pde_of m dir va; pte = load32 m (pte_addr m dir va)
      in if bit pde 0 \<and> bit pte 0 then Some (page_of pte + va mod 4096) else None)"

section \<open>Entries\<close>

lemma page_of_or_flags:
  assumes "uint w mod 4096 = 0" and "uint f < 4096"
  shows "page_of (w OR f) = uint w"
proof -
  have mask: "(0xfffff000 :: 32 word) = NOT (mask 12)" by (simp add: mask_numeral)
  have "w AND mask 12 = 0"
    using assms(1) uint_and_mask [of w 12] by (simp add: word_uint_eq_iff)
  then have "\<not> (bit w n \<and> bit (mask 12 :: 32 word) n)" for n
    by (metis bit_0_eq bit_and_iff bot_apply bot_bool_def)
  then have "w AND NOT (mask 12) = w"
    by (intro bit_word_eqI) (auto simp only: bit_and_iff bit_not_iff possible_bit_word)
  moreover have "f AND mask 12 = f"
    using assms(2) uint_and_mask [of f 12] by (simp add: word_uint_eq_iff)
  then have "f AND NOT (mask 12) = f AND (mask 12 AND NOT (mask 12))"
    by (simp only: and.assoc [symmetric])
  then have "f AND NOT (mask 12) = 0" by simp
  ultimately have "(w OR f) AND NOT (mask 12) = w"
    by (simp add: bit.conj_disj_distrib2)
  then show ?thesis by (simp only: page_of_def mask)
qed

lemma page_offset_bound: "j < 1024 \<Longrightarrow> 4 * int j + 4 \<le> 4096"
  by simp

text \<open>The entry of a table for page \<open>j\<close> of the 4 MB region at \<open>offset\<close>.\<close>

definition table_entry_for :: "int \<Rightarrow> 8 word \<Rightarrow> nat \<Rightarrow> 32 word" where
  "table_entry_for offset flags j = word_of_int (offset + int j * 4096) OR ucast flags"

lemma fill_table_effect:
  "i \<le> 1024 \<Longrightarrow>
     (\<forall>j. i \<le> j \<and> j < 1024 \<longrightarrow>
        load32 (fill_table m t off fl i) (t + 4 * int j) = table_entry_for off fl j) \<and>
     (\<forall>a. a < t + 4 * int i \<or> t + 4096 \<le> a \<longrightarrow> fill_table m t off fl i a = m a)"
proof (induction m t off fl i rule: fill_table.induct)
  case (1 m t off fl i)
  show ?case
  proof (cases "i < 1024")
    case True
    let ?m = "store32 m (t + 4 * int i) (table_entry_for off fl i)"
    have step: "fill_table m t off fl i = fill_table ?m t off fl (Suc i)"
      using True by (subst fill_table.simps) (simp add: table_entry_for_def)
    have IH: "(\<forall>j. Suc i \<le> j \<and> j < 1024 \<longrightarrow>
          load32 (fill_table ?m t off fl (Suc i)) (t + 4 * int j) = table_entry_for off fl j) \<and>
        (\<forall>a. a < t + 4 * int (Suc i) \<or> t + 4096 \<le> a \<longrightarrow> fill_table ?m t off fl (Suc i) a = ?m a)"
      using "1.IH" True by (simp add: table_entry_for_def)
    have "load32 (fill_table ?m t off fl (Suc i)) (t + 4 * int i) = load32 ?m (t + 4 * int i)"
      using IH by (intro load32_cong) auto
    moreover have "fill_table ?m t off fl (Suc i) a = m a" if "a < t + 4 * int i \<or> t + 4096 \<le> a" for a
      using that IH True store32_out [of a "t + 4 * int i" m] by auto
    moreover have "load32 (fill_table ?m t off fl (Suc i)) (t + 4 * int j) = table_entry_for off fl j"
      if "Suc i \<le> j" "j < 1024" for j
      using IH that by blast
    ultimately show ?thesis
      unfolding step by (metis load32_store32 le_neq_implies_less Suc_leI)
  next
    case False
    then show ?thesis by (subst (1 2) fill_table.simps) auto
  qed
qed

text \<open>
  \<open>maps_region m D fl i\<close>: entry \<open>i\<close> of the directory at \<open>D\<close> points to a page of its own that maps
  the \<open>i\<close>th 4 MB region to itself.
\<close>

definition maps_region :: "mem \<Rightarrow> addr \<Rightarrow> 8 word \<Rightarrow> nat \<Rightarrow> bool" where
  "maps_region m D fl i \<longleftrightarrow>
     (\<exists>T. T mod 4096 = 0 \<and> 0 < T \<and> T + 4096 \<le> 2147483648 \<and> (T + 4096 \<le> D \<or> D + 4096 \<le> T) \<and>
        (\<forall>a. T \<le> a \<and> a < T + 4096 \<longrightarrow> owned kernel_heap m a) \<and>
        load32 m (D + 4 * int i) = (word_of_int T OR ucast fl) OR 2 \<and>
        (\<forall>j < 1024. load32 m (T + 4 * int j) = table_entry_for (int i * 4194304) fl j))"

lemma maps_region_cong:
  assumes "maps_region m D fl i"
    and "\<And>a. owned kernel_heap m a \<Longrightarrow> owned kernel_heap m' a"
    and "\<And>a. owned kernel_heap m a \<Longrightarrow> a < D \<or> D + 4096 \<le> a \<Longrightarrow> m' a = m a"
    and "\<And>a. D + 4 * int i \<le> a \<Longrightarrow> a < D + 4 * int i + 4 \<Longrightarrow> m' a = m a"
  shows "maps_region m' D fl i"
proof -
  obtain T where T: "T mod 4096 = 0" "0 < T" "T + 4096 \<le> 2147483648"
    and dis: "T + 4096 \<le> D \<or> D + 4096 \<le> T"
    and own: "\<forall>a. T \<le> a \<and> a < T + 4096 \<longrightarrow> owned kernel_heap m a"
    and pde: "load32 m (D + 4 * int i) = (word_of_int T OR ucast fl) OR 2"
    and ptes: "\<forall>j < 1024. load32 m (T + 4 * int j) = table_entry_for (int i * 4194304) fl j"
    using assms(1) unfolding maps_region_def by (elim exE conjE) (rule that)
  have "m' a = m a" if "T \<le> a" "a < T + 4096" for a
    using own that dis assms(3) [of a] by auto
  then have "load32 m' (T + 4 * int j) = load32 m (T + 4 * int j)" if "j < 1024" for j
    using that by (intro load32_cong) auto
  moreover have "load32 m' (D + 4 * int i) = load32 m (D + 4 * int i)"
    using assms(4) by (intro load32_cong) auto
  ultimately show ?thesis
    unfolding maps_region_def using T dis own pde ptes assms(2) by (intro exI [of _ T]) auto
qed

lemma u32_region_step: "u32 (u32 (int i * 4194304) + 4194304) = u32 (int (Suc i) * 4194304)"
  by (simp add: u32_def mod_add_left_eq mod_add_right_eq algebra_simps)

lemma table_entry_for_u32: "table_entry_for (u32 x) fl j = table_entry_for x fl j"
proof -
  have "(word_of_int (u32 x) :: 32 word) = word_of_int x"
    by (simp add: u32_def word_uint_eq_iff uint_word_of_int)
  then show ?thesis by (simp add: table_entry_for_def)
qed

text \<open>
  One round of the directory loop: it allocates a page for the table, fills it and stores the
  directory entry; nothing owned outside that entry changes.
\<close>

lemma fill_directory_step:
  assumes D: "\<And>a. D \<le> a \<Longrightarrow> a < D + 4096 \<Longrightarrow> owned kernel_heap m a"
    and av: "0 < free_pages kernel_heap m" and i: "i < 1024"
  obtains m' where
    "fill_directory kernel_heap m D (u32 (int i * 4194304)) fl i =
       fill_directory kernel_heap m' D (u32 (int (Suc i) * 4194304)) fl (Suc i)"
    "free_pages kernel_heap m = Suc (free_pages kernel_heap m')"
    "maps_region m' D fl i"
    "\<And>a. owned kernel_heap m a \<Longrightarrow> owned kernel_heap m' a"
    "\<And>a. owned kernel_heap m a \<Longrightarrow> a < D + 4 * int i \<or> D + 4 * int i + 4 \<le> a \<Longrightarrow> m' a = m a"
proof -
  obtain T m1 where T: "kheap_zalloc kernel_heap 4096 m = (T, m1)" "T mod 4096 = 0" "0 < T"
    "T + 4096 \<le> 2147483648" "free_pages kernel_heap m = Suc (free_pages kernel_heap m1)"
    and ownT: "\<And>a. T \<le> a \<Longrightarrow> a < T + 4096 \<Longrightarrow> owned kernel_heap m1 a"
    and fresh: "\<And>a. T \<le> a \<Longrightarrow> a < T + 4096 \<Longrightarrow> \<not> owned kernel_heap m a"
    and mono: "\<And>a. owned kernel_heap m a \<Longrightarrow> owned kernel_heap m1 a"
    and frame: "\<And>a. owned kernel_heap m a \<Longrightarrow> m1 a = m a"
    using kh.alloc_granted [of 4096 m] av by (metis order_refl zero_less_numeral)
  define m2 where "m2 = fill_table m1 T (u32 (int i * 4194304)) fl 0"
  define e where "e = (word_of_int T OR ucast fl) OR (2 :: 32 word)"
  define m3 where "m3 = store32 m2 (D + 4 * int i) e"
  have dis: "T + 4096 \<le> D \<or> D + 4096 \<le> T"
    using D [of T] D [of "T + 4095"] fresh [of T] fresh [of "T + 4095"] by linarith
  have low: "25600 + 32256 < T" "25600 + 32256 < D"
    using owned_above_table [OF kernel_heap_layout, of m1 T] ownT [of T]
      owned_above_table [OF kernel_heap_layout, of m D] D [of D] by auto
  note fill = fill_table_effect [of 0 m1 T "u32 (int i * 4194304)" fl, folded m2_def]
  have m3_out: "m3 a = m1 a"
    if "a < T \<or> T + 4096 \<le> a" "a < D + 4 * int i \<or> D + 4 * int i + 4 \<le> a" for a
    using that fill store32_out [of a "D + 4 * int i" m2 e] by (auto simp: m3_def)
  have "m3 a = m1 a" if "a < 57856" for a
    using that low by (intro m3_out) auto
  then have frame3: "owned kernel_heap m3 a = owned kernel_heap m1 a"
    "free_pages kernel_heap m3 = free_pages kernel_heap m1" for a
    by (auto intro!: above_table_frame)
  show thesis
  proof (rule that [of m3])
    show "fill_directory kernel_heap m D (u32 (int i * 4194304)) fl i =
        fill_directory kernel_heap m3 D (u32 (int (Suc i) * 4194304)) fl (Suc i)"
      using i T(1) u32_region_step [of i]
      by (subst fill_directory.simps) (simp add: m3_def m2_def e_def)
    show "free_pages kernel_heap m = Suc (free_pages kernel_heap m3)" using T(5) frame3 by simp
    show "owned kernel_heap m a \<Longrightarrow> owned kernel_heap m3 a" for a using mono frame3 by simp
    show "owned kernel_heap m a \<Longrightarrow> a < D + 4 * int i \<or> D + 4 * int i + 4 \<le> a \<Longrightarrow> m3 a = m a" for a
      using m3_out [of a] fresh [of a] frame [of a] by (cases "T \<le> a \<and> a < T + 4096") auto
    have "load32 m3 (T + 4 * int j) = table_entry_for (int i * 4194304) fl j" if "j < 1024" for j
    proof -
      have "load32 m3 (T + 4 * int j) = load32 m2 (T + 4 * int j)"
        unfolding m3_def using dis that i by (intro load32_store32_other) linarith
      then show ?thesis using fill that by (simp add: table_entry_for_u32)
    qed
    moreover have "load32 m3 (D + 4 * int i) = e" by (simp add: m3_def)
    ultimately show "maps_region m3 D fl i"
      unfolding maps_region_def e_def using T dis ownT frame3 by (intro exI [of _ T]) auto
  qed
qed

lemma fill_directory_effect:
  fixes fl :: "8 word"
  assumes "\<And>a. D \<le> a \<Longrightarrow> a < D + 4096 \<Longrightarrow> owned kernel_heap m a"
    and "i \<le> 1024" and "1024 - i < free_pages kernel_heap m"
    and "m' = fill_directory kernel_heap m D (u32 (int i * 4194304)) fl i"
  shows "(\<forall>k. i \<le> k \<and> k < 1024 \<longrightarrow> maps_region m' D fl k)
    \<and> (\<forall>a. owned kernel_heap m a \<longrightarrow> owned kernel_heap m' a)
    \<and> (\<forall>a. owned kernel_heap m a \<and> (a < D + 4 * int i \<or> D + 4096 \<le> a) \<longrightarrow> m' a = m a)
    \<and> 0 < free_pages kernel_heap m'"
  using assms(1-3) unfolding assms(4)
proof (induction "1024 - i" arbitrary: i m)
  case 0
  then show ?case by (subst (1 2 3 4) fill_directory.simps) auto
next
  case (Suc n)
  then have i: "i < 1024" and n: "n = 1024 - Suc i" by simp_all
  have av: "0 < free_pages kernel_heap m" using Suc.prems(3) by simp
  obtain m1 where
    step: "fill_directory kernel_heap m D (u32 (int i * 4194304)) fl i =
       fill_directory kernel_heap m1 D (u32 (int (Suc i) * 4194304)) fl (Suc i)"
    and fp: "free_pages kernel_heap m = Suc (free_pages kernel_heap m1)"
    and reg: "maps_region m1 D fl i"
    and mono: "\<And>a. owned kernel_heap m a \<Longrightarrow> owned kernel_heap m1 a"
    and frame: "\<And>a. owned kernel_heap m a \<Longrightarrow>
      a < D + 4 * int i \<or> D + 4 * int i + 4 \<le> a \<Longrightarrow> m1 a = m a"
    using fill_directory_step [OF Suc.prems(1) av i] by blast
  let ?m' = "fill_directory kernel_heap m1 D (u32 (int (Suc i) * 4194304)) fl (Suc i)"
  have IH: "(\<forall>k. Suc i \<le> k \<and> k < 1024 \<longrightarrow> maps_region ?m' D fl k)
    \<and> (\<forall>a. owned kernel_heap m1 a \<longrightarrow> owned kernel_heap ?m' a)
    \<and> (\<forall>a. owned kernel_heap m1 a \<and> (a < D + 4 * int (Suc i) \<or> D + 4096 \<le> a) \<longrightarrow> ?m' a = m1 a)
    \<and> 0 < free_pages kernel_heap ?m'"
    using Suc.hyps(1) [OF n, of m1] Suc.prems mono i fp by simp
  have "maps_region ?m' D fl i"
    by (rule maps_region_cong [OF reg]) (use IH mono Suc.prems(1) i in auto)
  then have "\<forall>k. i \<le> k \<and> k < 1024 \<longrightarrow> maps_region ?m' D fl k"
    using IH by (metis Suc_leI le_neq_implies_less)
  moreover have "?m' a = m a" if "owned kernel_heap m a" "a < D + 4 * int i \<or> D + 4096 \<le> a" for a
    using that IH mono [of a] frame [of a] i by auto
  ultimately show ?case unfolding step using IH mono by blast
qed


section \<open>The tree that \<open>paging_new_4gb\<close> builds\<close>

text \<open>
  A linear address as directory index, table index and offset.
\<close>

lemma address_split:
  assumes "0 \<le> va" and "va < 4294967296"
  obtains i j o' where "i < (1024 :: nat)" "j < (1024 :: nat)" "0 \<le> o'" "o' < (4096 :: int)"
    "va = int i * 4194304 + int j * 4096 + o'"
    "va div 4194304 = int i" "va mod 4194304 div 4096 = int j" "va mod 4096 = o'"
proof -
  let ?q = "va div 4096"
  have 1: "va div 4194304 = ?q div 1024" using zdiv_zmult2_eq [of 1024 va 4096] by simp
  have "va mod 4194304 = 4096 * (?q mod 1024) + va mod 4096"
    using zmod_zmult2_eq [of 1024 va 4096] by simp
  then have 2: "va mod 4194304 div 4096 = ?q mod 1024"
    by (intro int_div_pos_eq [of _ _ _ "va mod 4096"]) auto
  have 3: "0 \<le> ?q" "?q < 1048576" using assms by auto
  then have 4: "0 \<le> ?q div 1024" "?q div 1024 < 1024" by auto
  have va: "va = (?q div 1024) * 4194304 + (?q mod 1024) * 4096 + va mod 4096"
    using mult_div_mod_eq [of 4096 va] mult_div_mod_eq [of 1024 ?q] by linarith
  define i j where "i = nat (?q div 1024)" and "j = nat (?q mod 1024)"
  have i: "int i = ?q div 1024" "i < 1024" and j: "int j = ?q mod 1024" "j < 1024"
    using 4 by (auto simp: i_def j_def nat_less_iff)
  show thesis
    by (rule that [of i j "va mod 4096"]; (simp only: 1 2 i j)?) (use va in simp_all)
qed

lemma uint_flags: "uint (ucast (fl :: 8 word) OR 2 :: 32 word) < 4096" "uint (ucast fl :: 32 word) < 4096"
proof -
  have "(ucast fl OR 2 :: 32 word) = ucast (fl OR 2)" by (simp add: unsigned_or_eq)
  moreover have "uint (ucast (w :: 8 word) :: 32 word) < 4096" for w
  proof -
    have "uint (ucast w :: 32 word) = uint w" by (simp add: unsigned_ucast_eq take_bit_int_eq_self_iff order_less_trans [OF uint_byte_range(1)])
    then show ?thesis using uint_byte_range(1) [of w] by linarith
  qed
  ultimately show "uint (ucast fl OR 2 :: 32 word) < 4096" "uint (ucast fl :: 32 word) < 4096" by simp_all
qed

lemma page_entries:
  assumes "0 \<le> p" "p < 4294967296" "p mod 4096 = 0"
  shows "page_of ((word_of_int p OR ucast (fl :: 8 word)) OR 2) = p" "page_of (word_of_int p OR ucast fl) = p"
proof -
  have "uint (word_of_int p :: 32 word) = p" using assms by (simp add: uint_word_of_int)
  then show "page_of ((word_of_int p OR ucast fl) OR 2) = p" "page_of (word_of_int p OR ucast fl) = p"
    using page_of_or_flags [of "word_of_int p"] uint_flags [of fl] assms(3) by (simp_all add: or.assoc)
qed

lemma flags_present:
  "bit fl 0 \<Longrightarrow> bit ((w OR ucast fl) OR 2 :: 32 word) 0" "bit fl 0 \<Longrightarrow> bit (w OR ucast fl :: 32 word) 0"
  for fl :: "8 word"
  by (simp_all add: bit_or_iff bit_ucast_iff)

lemma table_entry_page:
  assumes "i < 1024" "j < 1024"
  shows "page_of (table_entry_for (int i * 4194304) fl j) = int i * 4194304 + int j * 4096"
proof -
  have "int i * 4194304 + int j * 4096 = (int i * 1024 + int j) * 4096" by simp
  then have "(int i * 4194304 + int j * 4096) mod 4096 = 0" by (simp only: mod_mult_self2_is_0)
  then show ?thesis
    unfolding table_entry_for_def using assms by (intro page_entries) auto
qed

lemma maps_region_translate:
  assumes "maps_region m D fl i" and i: "i < 1024" and fl: "bit fl 0" and j: "j < 1024"
    and o': "0 \<le> o'" "o' < 4096"
    and va: "va = int i * 4194304 + int j * 4096 + o'" "va div 4194304 = int i"
      "va mod 4194304 div 4096 = int j" "va mod 4096 = o'"
  shows "translate m D va = Some va"
proof -
  obtain T where T: "T mod 4096 = 0" "0 < T" "T + 4096 \<le> 2147483648"
    and pde: "load32 m (D + 4 * int i) = (word_of_int T OR ucast fl) OR 2"
    and ptes: "\<forall>j < 1024. load32 m (T + 4 * int j) = table_entry_for (int i * 4194304) fl j"
    using assms(1) unfolding maps_region_def by (elim exE conjE) (rule that)
  have e: "pde_of m D va = (word_of_int T OR ucast fl) OR 2"
    by (simp only: pde_of_def va(2) pde)
  then have "pte_addr m D va = T + 4 * int j"
    using page_entries(1) [of T fl] T by (simp only: pte_addr_def va(3) e)
  then have pte: "load32 m (pte_addr m D va) = table_entry_for (int i * 4194304) fl j"
    using ptes j by (simp only:)
  have "page_of (table_entry_for (int i * 4194304) fl j) = int i * 4194304 + int j * 4096"
    using i j by (rule table_entry_page)
  moreover have "bit (table_entry_for (int i * 4194304) fl j) 0"
    unfolding table_entry_for_def using fl by (rule flags_present)
  ultimately show ?thesis
    unfolding translate_def pte e using flags_present(1) [OF fl, of "word_of_int T"] va by (simp add: Let_def)
qed

text \<open>
  No table of the tree lies in the directory's page, and no two entries share a table.
\<close>

definition tables_apart :: "mem \<Rightarrow> addr \<Rightarrow> bool" where
  "tables_apart m D \<longleftrightarrow>
     (\<forall>i < 1024. page_of (load32 m (D + 4 * int i)) + 4096 \<le> D \<or>
                 D + 4096 \<le> page_of (load32 m (D + 4 * int i))) \<and>
     (\<forall>i < 1024. \<forall>k < 1024. i \<noteq> k \<longrightarrow>
        page_of (load32 m (D + 4 * int i)) \<noteq> page_of (load32 m (D + 4 * int k)))"

lemma maps_region_table:
  assumes "maps_region m D fl i" "i < 1024"
  defines "T \<equiv> page_of (load32 m (D + 4 * int i))"
  shows "T + 4096 \<le> D \<or> D + 4096 \<le> T" "load32 m T = table_entry_for (int i * 4194304) fl 0"
proof -
  obtain T' where T: "T' mod 4096 = 0" "0 < T'" "T' + 4096 \<le> 2147483648"
    and dis: "T' + 4096 \<le> D \<or> D + 4096 \<le> T'"
    and pde: "load32 m (D + 4 * int i) = (word_of_int T' OR ucast fl) OR 2"
    and ptes: "\<forall>j < 1024. load32 m (T' + 4 * int j) = table_entry_for (int i * 4194304) fl j"
    using assms(1) unfolding maps_region_def by (elim exE conjE) (rule that)
  have "T = T'" using page_entries(1) [of T' fl] T by (simp add: T_def pde)
  then show "T + 4096 \<le> D \<or> D + 4096 \<le> T" "load32 m T = table_entry_for (int i * 4194304) fl 0"
    using dis ptes [rule_format, of 0] by simp_all
qed

lemma maps_all_apart:
  assumes "\<forall>k < 1024. maps_region m D fl k"
  shows "tables_apart m D"
proof -
  have "i = k" if "i < 1024" "k < 1024"
    and eq: "page_of (load32 m (D + 4 * int i)) = page_of (load32 m (D + 4 * int k))" for i k
  proof -
    have "table_entry_for (int i * 4194304) fl 0 = table_entry_for (int k * 4194304) fl 0"
      using maps_region_table(2) [OF assms [rule_format, OF that(1)] that(1)]
        maps_region_table(2) [OF assms [rule_format, OF that(2)] that(2)] eq by (simp only:)
    moreover have "page_of (table_entry_for (int n * 4194304) fl 0) = int n * 4194304" if "n < 1024" for n
      using table_entry_page [of n 0 fl] that by simp
    ultimately have "int i * 4194304 = int k * 4194304" using that(1,2) by (metis (no_types))
    then show ?thesis by simp
  qed
  then show ?thesis
    unfolding tables_apart_def using maps_region_table(1) assms by blast
qed

lemma paging_new_4gb_tree:
  assumes av: "1026 \<le> free_pages kernel_heap m" and new: "paging_new_4gb kernel_heap fl m = (chunk, m')"
  shows "\<forall>k < 1024. maps_region m' (paging_4gb_chunk_get_directory m' chunk) fl k"
proof -
  obtain D m1 where D: "kheap_zalloc kernel_heap 4096 m = (D, m1)" "0 < D" "D + 4096 \<le> 2147483648"
    "free_pages kernel_heap m = Suc (free_pages kernel_heap m1)"
    and ownD: "\<And>a. D \<le> a \<Longrightarrow> a < D + 4096 \<Longrightarrow> owned kernel_heap m1 a"
    by (rule kh.alloc_granted [of 4096 m]) (use av in auto)
  define m2 where "m2 = fill_directory kernel_heap m1 D 0 fl 0"
  have fill: "(\<forall>k. 0 \<le> k \<and> k < 1024 \<longrightarrow> maps_region m2 D fl k)
    \<and> (\<forall>a. owned kernel_heap m1 a \<longrightarrow> owned kernel_heap m2 a)
    \<and> (\<forall>a. owned kernel_heap m1 a \<and> (a < D + 4 * int 0 \<or> D + 4096 \<le> a) \<longrightarrow> m2 a = m1 a)
    \<and> 0 < free_pages kernel_heap m2"
    by (rule fill_directory_effect [OF ownD]) (use D av in \<open>auto simp: m2_def\<close>)
  obtain C m3 where C: "kheap_zalloc kernel_heap 4 m2 = (C, m3)" "0 < C"
    and ownC: "\<And>a. C \<le> a \<Longrightarrow> a < C + 4096 \<Longrightarrow> owned kernel_heap m3 a"
    and fresh: "\<And>a. C \<le> a \<Longrightarrow> a < C + 4096 \<Longrightarrow> \<not> owned kernel_heap m2 a"
    and mono: "\<And>a. owned kernel_heap m2 a \<Longrightarrow> owned kernel_heap m3 a"
    and frame: "\<And>a. owned kernel_heap m2 a \<Longrightarrow> m3 a = m2 a"
    by (rule kh.alloc_granted [of 4 m2]) (use fill in auto)
  have m': "m' = store32 m3 C (word_of_int D)" "chunk = C"
    using new D(1) C(1) by (auto simp: paging_new_4gb_def m2_def)
  have dir: "paging_4gb_chunk_get_directory m' chunk = D"
    using D(2,3) by (simp add: paging_4gb_chunk_get_directory_def m' uint_word_of_int)
  have above: "32256 + 25600 < C"
    using owned_above_table [OF kernel_heap_layout, of m3 C] ownC [of C] by simp
  then have own': "owned kernel_heap m' a = owned kernel_heap m3 a" for a
    by (intro above_table_frame) (auto simp: m' store32_out)
  have out: "m' a = m2 a" if "owned kernel_heap m2 a" for a
    using that fresh [of a] frame [OF that] by (cases "C \<le> a \<and> a < C + 4096") (auto simp: m' store32_out)
  show ?thesis
    unfolding dir
  proof (intro allI impI)
    fix k :: nat
    assume k: "k < 1024"
    with fill have "maps_region m2 D fl k" by simp
    then show "maps_region m' D fl k"
      by (rule maps_region_cong)
         (use own' mono out fill ownD k in auto)
  qed
qed

section \<open>Properties\<close>

text \<open>C7: with at least 1026 free pages (the directory, 1024 tables and the chunk) and the present
bit among the flags, \<open>paging_new_4gb\<close> builds an identity mapping of all 4 GB, whose tables lie
outside the directory and are pairwise different.\<close>

theorem paging_new_4gb_identity:
  assumes "1026 \<le> free_pages kernel_heap m" and "bit flags 0"
    and "paging_new_4gb kernel_heap flags m = (chunk, m')"
    and "dir = paging_4gb_chunk_get_directory m' chunk"
  shows "(\<forall>va. 0 \<le> va \<and> va < 4294967296 \<longrightarrow> translate m' dir va = Some va) \<and> tables_apart m' dir"
proof (intro conjI allI impI)
  note tree = paging_new_4gb_tree [OF assms(1,3), folded assms(4)]
  then show "tables_apart m' dir" by (rule maps_all_apart)
  fix va :: int
  assume "0 \<le> va \<and> va < 4294967296"
  then show "translate m' dir va = Some va"
    using address_split [of va] maps_region_translate [OF _ _ assms(2)] tree by metis
qed


lemma paging_new_4gb_empty:
  obtains chunk m' where "paging_new_4gb kernel_heap 3 (\<lambda>_. 0) = (chunk, m')"
    "\<forall>k < 1024. maps_region m' (paging_4gb_chunk_get_directory m' chunk) 3 k"
proof -
  obtain chunk m' where new: "paging_new_4gb kernel_heap 3 (\<lambda>_. 0) = (chunk, m')" by force
  from that [OF this paging_new_4gb_tree [OF _ this]] show thesis by (simp add: free_pages_empty)
qed

theorem paging_new_4gb_identity_witness:
  "\<exists>chunk m'. paging_new_4gb kernel_heap 3 (\<lambda>_. 0) = (chunk, m')
    \<and> translate m' (paging_4gb_chunk_get_directory m' chunk) 0xFEDCBA98 = Some 0xFEDCBA98"
proof -
  obtain chunk m' where new: "paging_new_4gb kernel_heap 3 (\<lambda>_. 0) = (chunk, m')" by force
  from paging_new_4gb_identity [OF _ _ new refl] show ?thesis
    using new by (auto simp: free_pages_empty bit_0)
qed

lemma page_of_aligned: "page_of e mod 4096 = 0"
proof -
  have "(0xfffff000 :: 32 word) = NOT (mask 12)" by (simp add: mask_numeral)
  then have "(e AND 0xfffff000) AND mask 12 = 0"
    by (simp only: and.assoc bit.conj_cancel_left bit.conj_zero_right)
  then have "uint ((e AND 0xfffff000) AND mask 12) = 0" by simp
  then show ?thesis unfolding page_of_def uint_and_mask by simp
qed

lemma distinct_pages_apart:
  "p mod 4096 = 0 \<Longrightarrow> q mod 4096 = 0 \<Longrightarrow> p \<noteq> q \<Longrightarrow> p + 4096 \<le> q \<or> q + 4096 \<le> p" for p q :: int
  using mult_div_mod_eq [of 4096 p] mult_div_mod_eq [of 4096 q]
  by (cases "p div 4096" "q div 4096" rule: linorder_cases) auto

text \<open>Storing the table entry of one address, and reading any other address's entries.\<close>

lemma store_entry_translate:
  fixes e :: "32 word"
  assumes apart: "tables_apart m D" and va: "0 \<le> va" "va < 4294967296" "va mod 4096 = 0"
    and va': "0 \<le> va'" "va' < 4294967296" and present: "bit (pde_of m D va) 0"
  defines "m' \<equiv> store32 m (pte_addr m D va) e"
  shows "translate m' D va' =
      (if va' div 4096 = va div 4096
       then if bit e 0 then Some (page_of e + va' mod 4096) else None
       else translate m D va')"
    and "k < 1024 \<Longrightarrow> load32 m' (D + 4 * int k) = load32 m (D + 4 * int k)"
proof -
  obtain i j where i: "i < 1024" "j < 1024" "va div 4194304 = int i" "va mod 4194304 div 4096 = int j"
    "va = int i * 4194304 + int j * 4096"
    using address_split [OF va(1,2)] va(3) by (metis add.right_neutral)
  obtain i' j' r where i': "i' < 1024" "j' < 1024" "va' div 4194304 = int i'" "0 \<le> r" "r < 4096"
    "va' mod 4194304 div 4096 = int j'" "va' = int i' * 4194304 + int j' * 4096 + r"
    using address_split [OF va'] by metis
  define T where "T n = page_of (load32 m (D + 4 * int n))" for n
  have T: "T i + 4096 \<le> D \<or> D + 4096 \<le> T i" "i \<noteq> i' \<Longrightarrow> T i + 4096 \<le> T i' \<or> T i' + 4096 \<le> T i"
    using apart i i' distinct_pages_apart [of "T i" "T i'"] page_of_aligned
    by (auto simp: tables_apart_def T_def)
  have pte: "pte_addr m D va = T i + 4 * int j" "pte_addr m D va' = T i' + 4 * int j'"
    by (simp_all only: pte_addr_def pde_of_def T_def i(3,4) i'(3,6))
  show dir: "load32 m' (D + 4 * int k) = load32 m (D + 4 * int k)" if "k < 1024" for k
    unfolding m'_def pte using T(1) that i(2) by (intro load32_store32_other) linarith
  then have pde: "pde_of m' D va' = pde_of m D va'" "pte_addr m' D va' = pte_addr m D va'"
    using i'(1) by (simp_all only: pte_addr_def pde_of_def i'(3,6))
  have same: "va' div 4096 = va div 4096 \<longleftrightarrow> i = i' \<and> j = j'"
  proof -
    have "va' div 4096 = int i' * 1024 + int j'"
      by (rule int_div_pos_eq [of _ _ _ r]) (use i' in auto)
    moreover have "va div 4096 = int i * 1024 + int j"
      by (rule int_div_pos_eq [of _ _ _ 0]) (use i in auto)
    moreover have "int i' * 1024 + int j' = int i * 1024 + int j \<longleftrightarrow> i = i' \<and> j = j'"
      using i(2) i'(2) by (cases i i' rule: linorder_cases) auto
    ultimately show ?thesis by simp
  qed
  show "translate m' D va' =
      (if va' div 4096 = va div 4096
       then if bit e 0 then Some (page_of e + va' mod 4096) else None
       else translate m D va')"
  proof (cases "va' div 4096 = va div 4096")
    case True
    then have eq: "pte_addr m D va' = pte_addr m D va" "pde_of m D va' = pde_of m D va"
      using same by (simp_all only: pte_addr_def pde_of_def i(3,4) i'(3,6))
    have "load32 m' (pte_addr m' D va') = e" by (simp only: pde eq) (simp add: m'_def)
    with True show ?thesis
      using present by (simp only: translate_def pde eq) (simp add: Let_def)
  next
    case False
    then have "load32 m' (pte_addr m D va') = load32 m (pte_addr m D va')"
      unfolding m'_def pte using T(2) i(2) i'(2) same
      by (intro load32_store32_other) (cases "i = i'"; auto)
    with False show ?thesis by (simp only: translate_def pde) simp
  qed
qed

lemma paging_set_value_eq:
  assumes "0 \<le> va" "va < 4294967296"
  shows "paging_set_value D va e m =
    (if va mod 4096 = 0 then (0, store32 m (pte_addr m D va) e) else (- EINVARG, m))"
  using assms
  by (simp add: paging_set_value_def paging_is_address_aligned_def Let_def pte_addr_def page_of_def
      pde_of_def)

text \<open>C8: \<open>paging_set_value\<close> on an aligned address of a present table maps exactly that page by
the new entry (to a page fault when the entry is not present) and leaves the translation of every
other page and the table structure as they were; an unaligned address is refused with
\<open>-EINVARG\<close> and changes nothing.\<close>

theorem paging_set_value_remaps_one_page:
  assumes "tables_apart m dir" and "0 \<le> va" and "va < 4294967296" and "bit (pde_of m dir va) 0"
    and "paging_set_value dir va e m = (r, m')"
  shows "if va mod 4096 \<noteq> 0 then r = - EINVARG \<and> m' = m
    else r = 0 \<and> tables_apart m' dir \<and>
      (\<forall>va'. 0 \<le> va' \<and> va' < 4294967296 \<longrightarrow>
        translate m' dir va' =
          (if va' div 4096 = va div 4096
           then if bit e 0 then Some (page_of e + va' mod 4096) else None
           else translate m dir va'))"
proof (cases "va mod 4096 = 0")
  case True
  then have m': "r = 0" "m' = store32 m (pte_addr m dir va) e"
    using assms(2,3,5) by (simp_all add: paging_set_value_eq)
  note store = store_entry_translate [OF assms(1-3) True _ _ assms(4), where e = e, folded m'(2)]
  have "load32 m' (dir + 4 * int k) = load32 m (dir + 4 * int k)" if "k < 1024" for k
    by (rule store(2) [OF assms(2,3) that])
  then have "tables_apart m' dir"
    using assms(1) unfolding tables_apart_def by simp
  with True m'(1) store(1) show ?thesis by simp
next
  case False
  then show ?thesis using assms(2,3,5) by (simp add: paging_set_value_eq)
qed

theorem paging_set_value_remaps_one_page_witness:
  "\<exists>chunk m dir m'. paging_new_4gb kernel_heap 3 (\<lambda>_. 0) = (chunk, m)
    \<and> dir = paging_4gb_chunk_get_directory m chunk
    \<and> paging_set_value dir 0x400000 0xB8003 m = (0, m')
    \<and> translate m' dir 0x400123 = Some 0xB8123 \<and> translate m' dir 0x401123 = Some 0x401123"
proof -
  obtain chunk m where new: "paging_new_4gb kernel_heap 3 (\<lambda>_. 0) = (chunk, m)"
    and tree: "\<forall>k < 1024. maps_region m (paging_4gb_chunk_get_directory m chunk) 3 k"
    by (rule paging_new_4gb_empty)
  define dir where "dir = paging_4gb_chunk_get_directory m chunk"
  obtain r m' where set: "paging_set_value dir 0x400000 0xB8003 m = (r, m')" by force
  have "maps_region m dir 3 1" using tree by (simp add: dir_def)
  then have tr: "translate m dir 0x401123 = Some 0x401123" "translate m dir 0x400000 = Some 0x400000"
    by (rule maps_region_translate [where j = 1 and o' = "0x123"]
        maps_region_translate [where j = 0 and o' = 0]; simp add: bit_0)+
  then have present: "bit (pde_of m dir 0x400000) 0"
    by (simp add: translate_def Let_def split: if_splits)
  have "page_of 0xB8003 = 0xB8000" by (simp add: page_of_def)
  with paging_set_value_remaps_one_page [OF maps_all_apart [OF tree, folded dir_def] _ _ present set] tr
  show ?thesis using new set by (auto simp: dir_def bit_0)
qed

end
