(* ===== verification/Kstate.thy ===== *)
theory Kstate
  imports Kheap Strings
begin

text \<open>
  The state the disk and file system code works on.

  Character data and the heap's table live in the flat memory \<open>kmem\<close>.  The structures that the
  code allocates on the kernel heap are kept in one map per C type, from the address the heap
  returned to the structure's value; an address that is not in the map of a type denotes no live
  object of that type, so using it there has no defined result (\<open>None\<close>).  Allocation and release
  still run the heap's own code on \<open>kmem\<close>: \<open>alloc_obj\<close> obtains the address from \<open>kheap_zalloc\<close>, and
  \<open>kfree\<close> removes the objects of the bytes that \<open>heap_free\<close> cleared, neighbours included.

  Structures in static storage (\<open>root_disk\<close>, \<open>fat16_fs\<close>, the two tables) are components of the
  state.  A \<open>disk_t*\<close> is \<open>NULL\<close>, the address of \<open>root_disk\<close>, or some other address; a
  \<open>filesystem_t*\<close> is \<open>NULL\<close> or \<open>fat16_fs\<close>, the one file system there is, whose function pointers
  select the \<open>fat16\<close> operations.
\<close>

section \<open>The structures\<close>

datatype disk_ptr = Root_disk | Other_disk addr
datatype fs_impl = Fat16_fs

text \<open>\<open>disk.h\<close>, \<open>streamer.h\<close>\<close>

record disk_t =
  disk_id :: int
  disk_type :: int
  sector_size :: int
  disk_filesystem :: "fs_impl option"
  fs_private :: addr

record disk_streamer_t =
  ds_pos :: int
  ds_disk :: "disk_ptr option"

text \<open>\<open>pparser.h\<close>\<close>

record path_part_t =
  part_name :: addr
  part_next :: addr

record path_root_t =
  drive_no :: int
  parts :: addr

text \<open>\<open>file.h\<close>\<close>

record file_stat_t =
  stat_flags :: int
  stat_filesize :: int

record file_descriptor_t =
  fd_index :: int
  fd_fs :: "fs_impl option"
  fd_private :: addr
  fd_disk :: "disk_ptr option"

text \<open>\<open>fat16.c\<close>\<close>

record fat_header_extended =
  drive_number :: byte
  win_nt_bit :: byte
  signature :: byte
  volume_id :: "32 word"
  volume_id_string :: "byte list"
  system_id_string :: "byte list"

record fat_header =
  short_jmp_ins :: "byte list"
  oem_identifier :: "byte list"
  bytes_per_sector :: "16 word"
  sectors_per_cluster :: byte
  reserved_sectors :: "16 word"
  fat_copies :: byte
  root_dir_entries :: "16 word"
  number_of_sectors :: "16 word"
  media_type :: byte
  sectors_per_fat :: "16 word"
  sectors_per_track :: "16 word"
  number_of_heads :: "16 word"
  hidden_sectors :: "32 word"
  sectors_big :: "32 word"

record fat_h_t =
  primary_header :: fat_header
  extended_header :: fat_header_extended

record fat_directory_item =
  di_filename :: "byte list"
  di_ext :: "byte list"
  attribute :: byte
  di_reserved :: byte
  creation_time_tenths :: byte
  creation_time :: "16 word"
  creation_date :: "16 word"
  last_access :: "16 word"
  high_16_bits_first_cluster :: "16 word"
  last_mod_time :: "16 word"
  last_mod_date :: "16 word"
  low_16_bits_first_cluster :: "16 word"
  filesize :: "32 word"

record fat_directory_t =
  dir_item :: addr
  dir_total :: int
  sector_pos :: int
  ending_sector_pos :: int

record fat_item_t =
  item_ptr :: addr
  item_type :: int

record fat_file_descriptor_t =
  ffd_item :: addr
  ffd_pos :: int

record fat_private_t =
  header :: fat_h_t
  root_directory :: fat_directory_t
  cluster_read_stream :: addr
  fat_read_stream :: addr
  directory_stream :: addr

section \<open>The state\<close>

text \<open>
  \<open>'d\<close> is the type of the device state behind the I/O ports; \<open>dir_items\<close> holds the arrays of
  directory items (a single item is an array of one).
\<close>

record 'd kstate =
  kmem :: mem
  kheap :: heap_t
  dev :: 'd
  root_disk :: disk_t
  filesystems :: "fs_impl option list"
  filedescriptors :: "addr list"
  fat16_fs_name :: "byte list"
  streamers :: "addr \<rightharpoonup> disk_streamer_t"
  path_parts :: "addr \<rightharpoonup> path_part_t"
  path_roots :: "addr \<rightharpoonup> path_root_t"
  file_descs :: "addr \<rightharpoonup> file_descriptor_t"
  fat_privates :: "addr \<rightharpoonup> fat_private_t"
  dir_items :: "addr \<rightharpoonup> fat_directory_item list"
  directories :: "addr \<rightharpoonup> fat_directory_t"
  fat_items :: "addr \<rightharpoonup> fat_item_t"
  fat_descs :: "addr \<rightharpoonup> fat_file_descriptor_t"

text \<open>\<open>disk_ref\<close> follows a \<open>disk_t*\<close>: only \<open>root_disk\<close> is a disk.\<close>

definition disk_ref :: "disk_ptr option \<Rightarrow> 'd kstate \<Rightarrow> disk_t option" where
  "disk_ref p s = (if p = Some Root_disk then Some (root_disk s) else None)"

section \<open>The zero value of each structure\<close>

definition zero_disk :: disk_t where
  "zero_disk = \<lparr>disk_id = 0, disk_type = 0, sector_size = 0, disk_filesystem = None, fs_private = 0\<rparr>"

definition zero_streamer :: disk_streamer_t where
  "zero_streamer = \<lparr>ds_pos = 0, ds_disk = None\<rparr>"

definition zero_path_part :: path_part_t where
  "zero_path_part = \<lparr>part_name = 0, part_next = 0\<rparr>"

definition zero_path_root :: path_root_t where
  "zero_path_root = \<lparr>drive_no = 0, parts = 0\<rparr>"

definition zero_file_descriptor :: file_descriptor_t where
  "zero_file_descriptor = \<lparr>fd_index = 0, fd_fs = None, fd_private = 0, fd_disk = None\<rparr>"

definition zero_directory :: fat_directory_t where
  "zero_directory = \<lparr>dir_item = 0, dir_total = 0, sector_pos = 0, ending_sector_pos = 0\<rparr>"

definition zero_fat_item :: fat_item_t where
  "zero_fat_item = \<lparr>item_ptr = 0, item_type = 0\<rparr>"

definition zero_fat_descriptor :: fat_file_descriptor_t where
  "zero_fat_descriptor = \<lparr>ffd_item = 0, ffd_pos = 0\<rparr>"

text \<open>
  The packed on-disk structures, read from their bytes.
\<close>

definition word16_at :: "byte list \<Rightarrow> nat \<Rightarrow> 16 word" where
  "word16_at bs i = le16 (bs ! i) (bs ! (i + 1))"

definition word32_at :: "byte list \<Rightarrow> nat \<Rightarrow> 32 word" where
  "word32_at bs i = le32 (bs ! i) (bs ! (i + 1)) (bs ! (i + 2)) (bs ! (i + 3))"

definition slice :: "byte list \<Rightarrow> nat \<Rightarrow> nat \<Rightarrow> byte list" where
  "slice bs i n = take n (drop i bs)"

definition fat_header_of :: "byte list \<Rightarrow> fat_header" where
  "fat_header_of bs =
     \<lparr>short_jmp_ins = slice bs 0 3, oem_identifier = slice bs 3 8,
      bytes_per_sector = word16_at bs 11, sectors_per_cluster = bs ! 13,
      reserved_sectors = word16_at bs 14, fat_copies = bs ! 16, root_dir_entries = word16_at bs 17,
      number_of_sectors = word16_at bs 19, media_type = bs ! 21, sectors_per_fat = word16_at bs 22,
      sectors_per_track = word16_at bs 24, number_of_heads = word16_at bs 26,
      hidden_sectors = word32_at bs 28, sectors_big = word32_at bs 32\<rparr>"

definition fat_header_extended_of :: "byte list \<Rightarrow> fat_header_extended" where
  "fat_header_extended_of bs =
     \<lparr>drive_number = bs ! 0, win_nt_bit = bs ! 1, signature = bs ! 2, volume_id = word32_at bs 3,
      volume_id_string = slice bs 7 11, system_id_string = slice bs 18 8\<rparr>"

definition fat_h_of :: "byte list \<Rightarrow> fat_h_t" where
  "fat_h_of bs =
     \<lparr>primary_header = fat_header_of bs, extended_header = fat_header_extended_of (drop 36 bs)\<rparr>"

definition directory_item_of :: "byte list \<Rightarrow> fat_directory_item" where
  "directory_item_of bs =
     \<lparr>di_filename = slice bs 0 8, di_ext = slice bs 8 3, attribute = bs ! 11, di_reserved = bs ! 12,
      creation_time_tenths = bs ! 13, creation_time = word16_at bs 14, creation_date = word16_at bs 16,
      last_access = word16_at bs 18, high_16_bits_first_cluster = word16_at bs 20,
      last_mod_time = word16_at bs 22, last_mod_date = word16_at bs 24,
      low_16_bits_first_cluster = word16_at bs 26, filesize = word32_at bs 28\<rparr>"

definition sizeof_fat_h :: nat where [simp]: "sizeof_fat_h = 62"
definition sizeof_directory_item :: nat where [simp]: "sizeof_directory_item = 32"
definition sizeof_fat_private :: nat where [simp]: "sizeof_fat_private = 92"

definition zero_fat_private :: fat_private_t where
  "zero_fat_private =
     \<lparr>header = fat_h_of (replicate sizeof_fat_h 0), root_directory = zero_directory,
      cluster_read_stream = 0, fat_read_stream = 0, directory_stream = 0\<rparr>"

text \<open>An array of \<open>n\<close> directory items, from its bytes.\<close>

definition directory_items_of :: "byte list \<Rightarrow> fat_directory_item list" where
  "directory_items_of bs =
     map (\<lambda>i. directory_item_of (slice bs (32 * i) 32)) [0..<length bs div 32]"

section \<open>Allocation and release\<close>

definition kzalloc :: "nat \<Rightarrow> 'd kstate \<Rightarrow> addr \<times> 'd kstate" where
  "kzalloc n s = (let (p, m) = kheap_zalloc (kheap s) n (kmem s) in (p, s\<lparr>kmem := m\<rparr>))"

text \<open>The objects of \<open>M\<close> outside the cleared bytes \<open>p .. e - 1\<close>.\<close>

definition outside :: "addr \<Rightarrow> addr \<Rightarrow> (addr \<rightharpoonup> 'a) \<Rightarrow> (addr \<rightharpoonup> 'a)" where
  "outside p e M = (\<lambda>a. if p \<le> a \<and> a < e then None else M a)"

definition kfree :: "addr \<Rightarrow> 'd kstate \<Rightarrow> 'd kstate option" where
  "kfree p s =
     do { (e, m) \<leftarrow> kheap_free (kheap s) p (kmem s);
          Some (s\<lparr>kmem := m,
            streamers := outside p e (streamers s), path_parts := outside p e (path_parts s),
            path_roots := outside p e (path_roots s), file_descs := outside p e (file_descs s),
            fat_privates := outside p e (fat_privates s), dir_items := outside p e (dir_items s),
            directories := outside p e (directories s), fat_items := outside p e (fat_items s),
            fat_descs := outside p e (fat_descs s)\<rparr>) }"


text \<open>
  The state once the kernel heap is set up, before any object exists, with \<open>d\<close> behind the ports.
\<close>

definition initial_state :: "'d \<Rightarrow> 'd kstate" where
  "initial_state d =
     \<lparr>kmem = \<lambda>_. 0, kheap = kernel_heap, dev = d, root_disk = zero_disk,
      filesystems = replicate MAX_FILESYSTEMS None, filedescriptors = replicate MAX_FILEDESCRIPTORS 0,
      fat16_fs_name = replicate 20 0, streamers = Map.empty, path_parts = Map.empty,
      path_roots = Map.empty, file_descs = Map.empty, fat_privates = Map.empty,
      dir_items = Map.empty, directories = Map.empty, fat_items = Map.empty, fat_descs = Map.empty\<rparr>"

lemma kzalloc_granted:
  assumes "kheap s = kernel_heap" and "0 < free_pages kernel_heap (kmem s)" and "0 < n" and "n \<le> 4096"
  obtains p m where "kzalloc n s = (p, s\<lparr>kmem := m\<rparr>)" "0 < p" "p mod 4096 = 0" "p + 4096 \<le> 2147483648"
    "free_pages kernel_heap (kmem s) = Suc (free_pages kernel_heap m)"
    "\<And>a. p \<le> a \<Longrightarrow> a < p + 4096 \<Longrightarrow> \<not> owned kernel_heap (kmem s) a"
    "\<And>a. p \<le> a \<Longrightarrow> a < p + 4096 \<Longrightarrow> owned kernel_heap m a"
    "\<And>a. owned kernel_heap (kmem s) a \<Longrightarrow> owned kernel_heap m a \<and> m a = kmem s a"
    "\<And>a. p \<le> a \<Longrightarrow> a < p + int n \<Longrightarrow> m a = 0"
proof (rule kh.alloc_granted [OF assms(3,4,2)])
  fix p m
  assume z: "kheap_zalloc kernel_heap n (kmem s) = (p, m)" "p \<noteq> 0"
    and rest: "p mod 4096 = 0" "0 < p" "p + 4096 \<le> 2147483648"
      "free_pages kernel_heap (kmem s) = Suc (free_pages kernel_heap m)"
      "\<And>a. p \<le> a \<Longrightarrow> a < p + 4096 \<Longrightarrow> owned kernel_heap m a"
      "\<And>a. p \<le> a \<Longrightarrow> a < p + 4096 \<Longrightarrow> \<not> owned kernel_heap (kmem s) a"
      "\<And>a. owned kernel_heap (kmem s) a \<Longrightarrow> owned kernel_heap m a"
      "\<And>a. owned kernel_heap (kmem s) a \<Longrightarrow> m a = kmem s a"
  have "kzalloc n s = (p, s\<lparr>kmem := m\<rparr>)" using z assms(1) by (simp add: kzalloc_def)
  then show thesis
    using rest kh.alloc_zero [OF assms(3,4) z]
    by (intro that [of p m]) auto
qed

end
