(* ===== verification/Objects.thy ===== *)
theory Objects
  imports Kstate Page_Pool
begin

text \<open>
  The objects of the kernel state on the kernel heap.  \<open>heap_ok\<close> is the invariant that the disk and
  file system code relies on: every heap object is the only one in an owned page, and the heap's
  table marks single pages only, so that \<open>heap_free\<close> releases what it is asked to.  The lemmas
  give, for each kind of object, allocation, update and release as operations on the maps.
\<close>

definition inhabitants :: "'d kstate \<Rightarrow> addr \<Rightarrow> nat" where
  "inhabitants s a =
     of_bool (streamers s a \<noteq> None) + of_bool (path_parts s a \<noteq> None) + of_bool (path_roots s a \<noteq> None)
     + of_bool (file_descs s a \<noteq> None) + of_bool (fat_privates s a \<noteq> None) + of_bool (dir_items s a \<noteq> None)
     + of_bool (directories s a \<noteq> None) + of_bool (fat_items s a \<noteq> None) + of_bool (fat_descs s a \<noteq> None)"

text \<open>The start of an owned page before the reserve, which begins at 112 MB.\<close>

definition page_start :: "mem \<Rightarrow> addr \<Rightarrow> bool" where
  "page_start m a \<longleftrightarrow> owned kernel_heap m a \<and> a mod 4096 = 0 \<and> a < 117440512"

definition heap_ok :: "'d kstate \<Rightarrow> bool" where
  "heap_ok s \<longleftrightarrow>
     kheap s = kernel_heap \<and> unchained (kmem s) \<and>
     (\<forall>a. inhabitants s a \<le> of_bool (page_start (kmem s) a))"

lemma heap_ok_fields:
  "heap_ok s \<Longrightarrow> kheap s = kernel_heap" "heap_ok s \<Longrightarrow> unchained (kmem s)"
  by (simp_all add: heap_ok_def)

lemma heap_ok_other [simp]:
  "heap_ok (s\<lparr>dev := d\<rparr>) = heap_ok s" "heap_ok (s\<lparr>root_disk := rd\<rparr>) = heap_ok s"
  "heap_ok (s\<lparr>filesystems := fs\<rparr>) = heap_ok s" "heap_ok (s\<lparr>filedescriptors := fds\<rparr>) = heap_ok s"
  by (simp_all add: heap_ok_def inhabitants_def)

text \<open>A new object in an empty page, and a new value of an object there is.\<close>

lemma heap_ok_new:
  assumes "heap_ok s" and "page_start (kmem s) p" and "inhabitants s p = 0"
  shows "heap_ok (s\<lparr>streamers := (streamers s)(p \<mapsto> x1)\<rparr>)" "heap_ok (s\<lparr>path_parts := (path_parts s)(p \<mapsto> x2)\<rparr>)"
    "heap_ok (s\<lparr>path_roots := (path_roots s)(p \<mapsto> x3)\<rparr>)" "heap_ok (s\<lparr>file_descs := (file_descs s)(p \<mapsto> x4)\<rparr>)"
    "heap_ok (s\<lparr>fat_privates := (fat_privates s)(p \<mapsto> x5)\<rparr>)" "heap_ok (s\<lparr>dir_items := (dir_items s)(p \<mapsto> x6)\<rparr>)"
    "heap_ok (s\<lparr>directories := (directories s)(p \<mapsto> x7)\<rparr>)" "heap_ok (s\<lparr>fat_items := (fat_items s)(p \<mapsto> x8)\<rparr>)"
    "heap_ok (s\<lparr>fat_descs := (fat_descs s)(p \<mapsto> x9)\<rparr>)"
  using assms unfolding heap_ok_def by (simp_all add: inhabitants_def)

lemma upd_None: "M p = Some y \<Longrightarrow> (M(p \<mapsto> x)) a = None \<longleftrightarrow> M a = None"
  by simp

lemma heap_ok_update:
  "streamers s p = Some y1 \<Longrightarrow> heap_ok (s\<lparr>streamers := (streamers s)(p \<mapsto> x1)\<rparr>) = heap_ok s"
  "path_parts s p = Some y2 \<Longrightarrow> heap_ok (s\<lparr>path_parts := (path_parts s)(p \<mapsto> x2)\<rparr>) = heap_ok s"
  "path_roots s p = Some y3 \<Longrightarrow> heap_ok (s\<lparr>path_roots := (path_roots s)(p \<mapsto> x3)\<rparr>) = heap_ok s"
  "file_descs s p = Some y4 \<Longrightarrow> heap_ok (s\<lparr>file_descs := (file_descs s)(p \<mapsto> x4)\<rparr>) = heap_ok s"
  "fat_privates s p = Some y5 \<Longrightarrow> heap_ok (s\<lparr>fat_privates := (fat_privates s)(p \<mapsto> x5)\<rparr>) = heap_ok s"
  "dir_items s p = Some y6 \<Longrightarrow> heap_ok (s\<lparr>dir_items := (dir_items s)(p \<mapsto> x6)\<rparr>) = heap_ok s"
  "directories s p = Some y7 \<Longrightarrow> heap_ok (s\<lparr>directories := (directories s)(p \<mapsto> x7)\<rparr>) = heap_ok s"
  "fat_items s p = Some y8 \<Longrightarrow> heap_ok (s\<lparr>fat_items := (fat_items s)(p \<mapsto> x8)\<rparr>) = heap_ok s"
  "fat_descs s p = Some y9 \<Longrightarrow> heap_ok (s\<lparr>fat_descs := (fat_descs s)(p \<mapsto> x9)\<rparr>) = heap_ok s"
  by (simp_all add: heap_ok_def inhabitants_def upd_None del: fun_upd_apply)

text \<open>
  From \<open>m\<close> to \<open>m'\<close> the heap only grew: what was owned still is, and bytes that no allocation may
  touch have kept their values.
\<close>

definition grows :: "mem \<Rightarrow> mem \<Rightarrow> bool" where
  "grows m m' \<longleftrightarrow>
     (\<forall>a. owned kernel_heap m a \<longrightarrow> owned kernel_heap m' a) \<and>
     (\<forall>a. settled m a \<longrightarrow> settled m' a \<and> m' a = m a)"

lemma grows_refl [simp]: "grows m m"
  by (simp add: grows_def)

lemma grows_trans [trans]: "grows m m' \<Longrightarrow> grows m' m'' \<Longrightarrow> grows m m''"
  by (simp add: grows_def)

lemma growsD: "grows m m' \<Longrightarrow> owned kernel_heap m a \<Longrightarrow> owned kernel_heap m' a"
  "grows m m' \<Longrightarrow> settled m a \<Longrightarrow> settled m' a" "grows m m' \<Longrightarrow> settled m a \<Longrightarrow> m' a = m a"
  by (simp_all add: grows_def)

lemma page_start_grows: "grows m m' \<Longrightarrow> page_start m p \<Longrightarrow> page_start m' p"
  by (simp add: page_start_def growsD)

lemma heap_ok_grows:
  assumes ok: "heap_ok s" and m: "unchained m" "grows (kmem s) m"
  shows "heap_ok (s\<lparr>kmem := m\<rparr>)"
proof -
  have inh: "inhabitants s a \<le> of_bool (page_start (kmem s) a)" for a using ok by (simp add: heap_ok_def)
  have "inhabitants s a \<le> of_bool (page_start m a)" for a
    using inh [of a] page_start_grows [OF m(2), of a] by (cases "page_start (kmem s) a") auto
  then show ?thesis using ok m(1) by (simp add: heap_ok_def inhabitants_def)
qed

text \<open>Allocation of one object's memory.\<close>

lemma kzalloc_page:
  assumes ok: "heap_ok s" and fp: "0 < spare_pages (kmem s)" and n: "0 < n" "n \<le> 4096"
  obtains p m where "kzalloc n s = (p, s\<lparr>kmem := m\<rparr>)" "0 < p" "p + 4096 \<le> 2147483648"
    "heap_ok (s\<lparr>kmem := m\<rparr>)" "page_start m p" "inhabitants s p = 0" "\<not> owned kernel_heap (kmem s) p"
    "spare_pages (kmem s) = Suc (spare_pages m)"
    "grows (kmem s) m" "\<And>a. p \<le> a \<Longrightarrow> a < p + 4096 \<Longrightarrow> owned kernel_heap m a"
proof -
  have kh: "kheap s = kernel_heap" and single: "unchained (kmem s)" using ok by (simp_all add: heap_ok_def)
  have "0 < free_pages kernel_heap (kmem s)" using fp spare_free [of "kmem s"] by simp
  from kh this n show thesis
  proof (rule kzalloc_granted)
    fix p m
    assume z: "kzalloc n s = (p, s\<lparr>kmem := m\<rparr>)" and p: "0 < p" "p mod 4096 = 0" "p + 4096 \<le> 2147483648"
      and fresh: "\<And>a. p \<le> a \<Longrightarrow> a < p + 4096 \<Longrightarrow> \<not> owned kernel_heap (kmem s) a"
      and own: "\<And>a. p \<le> a \<Longrightarrow> a < p + 4096 \<Longrightarrow> owned kernel_heap m a"
      and keep: "\<And>a. owned kernel_heap (kmem s) a \<Longrightarrow> owned kernel_heap m a \<and> m a = kmem s a"
    have zm: "kheap_zalloc kernel_heap n (kmem s) = (p, m)"
      using z kh unfolding kzalloc_def by (auto simp: Let_def split: prod.splits dest: arg_cong [of _ _ kmem])
    then have single': "unchained m" using kheap_zalloc_unchained [OF single n] by blast
    have fp': "spare_pages (kmem s) = Suc (spare_pages m)" "p < 117440512"
      by (rule kheap_zalloc_low [OF n zm fp]; simp add: block_addr_def)+
    have settled: "settled m a \<and> m a = kmem s a" if "settled (kmem s) a" for a
      using kheap_zalloc_settled [OF n zm that fp] by blast
    have inh: "inhabitants s a \<le> of_bool (page_start (kmem s) a)" for a using ok by (simp add: heap_ok_def)
    have start: "page_start (kmem s) a \<Longrightarrow> page_start m a" for a using keep by (simp add: page_start_def)
    have "inhabitants s a \<le> of_bool (page_start m a)" for a
      using inh [of a] start [of a] by (cases "page_start (kmem s) a") auto
    then have "heap_ok (s\<lparr>kmem := m\<rparr>)"
      using kh single' by (simp add: heap_ok_def inhabitants_def)
    moreover have "\<not> owned kernel_heap (kmem s) p" using fresh [of p] by simp
    then have "inhabitants s p = 0" using inh [of p] by (simp add: page_start_def)
    moreover have "page_start m p" using own [of p] p fp'(2) by (simp add: page_start_def)
    ultimately show thesis using z p fp' keep settled own \<open>\<not> owned kernel_heap (kmem s) p\<close>
      by (intro that [of p m]) (auto simp: grows_def)
  qed
qed


text \<open>
  Release of a page: the objects in \<open>[p, e)\<close> end.
\<close>

definition drop_objects :: "addr \<Rightarrow> addr \<Rightarrow> 'd kstate \<Rightarrow> 'd kstate" where
  "drop_objects p e s = s\<lparr>
     streamers := outside p e (streamers s), path_parts := outside p e (path_parts s),
     path_roots := outside p e (path_roots s), file_descs := outside p e (file_descs s),
     fat_privates := outside p e (fat_privates s), dir_items := outside p e (dir_items s),
     directories := outside p e (directories s), fat_items := outside p e (fat_items s),
     fat_descs := outside p e (fat_descs s)\<rparr>"

lemma drop_objects_fields [simp]:
  "kmem (drop_objects p e s) = kmem s" "kheap (drop_objects p e s) = kheap s" "dev (drop_objects p e s) = dev s"
  "root_disk (drop_objects p e s) = root_disk s" "filesystems (drop_objects p e s) = filesystems s"
  "filedescriptors (drop_objects p e s) = filedescriptors s"
  "fat16_fs_name (drop_objects p e s) = fat16_fs_name s"
  "streamers (drop_objects p e s) = outside p e (streamers s)"
  "path_parts (drop_objects p e s) = outside p e (path_parts s)"
  "path_roots (drop_objects p e s) = outside p e (path_roots s)"
  "file_descs (drop_objects p e s) = outside p e (file_descs s)"
  "fat_privates (drop_objects p e s) = outside p e (fat_privates s)"
  "dir_items (drop_objects p e s) = outside p e (dir_items s)"
  "directories (drop_objects p e s) = outside p e (directories s)"
  "fat_items (drop_objects p e s) = outside p e (fat_items s)"
  "fat_descs (drop_objects p e s) = outside p e (fat_descs s)"
  by (simp_all add: drop_objects_def)

lemma inhabitants_drop: "inhabitants (drop_objects p e s) a = (if p \<le> a \<and> a < e then 0 else inhabitants s a)"
  by (cases "p \<le> a \<and> a < e") (simp_all only: inhabitants_def drop_objects_fields outside_def if_True if_False
      HOL.simp_thms of_bool_eq)

text \<open>From \<open>m\<close> to \<open>m'\<close> the page at \<open>p\<close> was given back, and nothing else that is settled changed.\<close>

definition gives_back :: "addr \<Rightarrow> mem \<Rightarrow> mem \<Rightarrow> bool" where
  "gives_back p m m' \<longleftrightarrow>
     (\<forall>a. owned kernel_heap m' a \<longleftrightarrow> owned kernel_heap m a \<and> \<not> (p \<le> a \<and> a < p + 4096)) \<and>
     (\<forall>a. settled m a \<and> \<not> (p \<le> a \<and> a < p + 4096) \<longrightarrow> settled m' a \<and> m' a = m a)"

lemma owned_pool_iff: "owned kernel_heap m a \<longleftrightarrow> pool_of m (block_of kernel_heap a) \<noteq> None"
  by (auto simp: owned_def pool_of_def)

lemma kfree_page:
  assumes ok: "heap_ok s" and p: "page_start (kmem s) p"
  obtains m where "kfree p s = Some ((drop_objects p (p + 4096) s)\<lparr>kmem := m\<rparr>)"
    "heap_ok ((drop_objects p (p + 4096) s)\<lparr>kmem := m\<rparr>)"
    "spare_pages m = Suc (spare_pages (kmem s))"
    "gives_back p (kmem s) m"
proof -
  have kh: "kheap s = kernel_heap" and single: "unchained (kmem s)" using ok by (simp_all add: heap_ok_def)
  have start: "owned kernel_heap (kmem s) p" "p mod 4096 = 0" "p < 117440512" using p by (simp_all add: page_start_def)
  obtain b where b: "page_no b" "p = 16777216 + 4096 * b" "pool_of (kmem s) b \<noteq> None"
    and free: "kheap_free kernel_heap p (kmem s) = Some (p + 4096, cleared (kmem s) p (entry_addr kernel_heap b) 1)"
    by (rule free_returns [OF single start(1,2)])
  have low: "b < 24576" using b(2) start(3) by simp
  define m where "m = cleared (kmem s) p (entry_addr kernel_heap b) 1"
  have m: "unchained m" "pool_of m = (pool_of (kmem s))(b := None)"
    using cleared_page(1,3) [OF b(1)] single by (simp_all add: m_def b(2))
  have block: "block_of kernel_heap a = b \<longleftrightarrow> p \<le> a \<and> a < p + 4096" for a
    using block_of_eq [of kernel_heap b a] block_of_bounds [of kernel_heap a] b(2)
    by (auto simp: block_addr_def)
  have own: "owned kernel_heap m a \<longleftrightarrow> owned kernel_heap (kmem s) a \<and> \<not> (p \<le> a \<and> a < p + 4096)" for a
    using block [of a] by (simp add: owned_pool_iff m(2))
  have run: "kfree p s = Some ((drop_objects p (p + 4096) s)\<lparr>kmem := m\<rparr>)"
    using free kh by (simp add: kfree_def m_def drop_objects_def)
  have inh: "inhabitants s a \<le> of_bool (page_start (kmem s) a)" for a using ok by (simp add: heap_ok_def)
  have "inhabitants (drop_objects p (p + 4096) s) a \<le> of_bool (page_start m a)" for a
    using inh [of a] own [of a] by (cases "p \<le> a \<and> a < p + 4096") (simp_all add: inhabitants_drop page_start_def)
  moreover have "inhabitants (t\<lparr>kmem := m\<rparr>) = inhabitants t" for t :: "'a kstate"
    by (rule ext) (simp add: inhabitants_def)
  ultimately have ok': "heap_ok ((drop_objects p (p + 4096) s)\<lparr>kmem := m\<rparr>)"
    using kh m(1) unfolding heap_ok_def by simp
  have fp: "spare_pages m = Suc (spare_pages (kmem s))"
    unfolding m_def b(2) by (rule spare_pages_cleared) (use b low in \<open>auto simp: pool_of_def split: if_splits\<close>)
  have "settled m a \<and> m a = kmem s a" if "settled (kmem s) a" "\<not> (p \<le> a \<and> a < p + 4096)" for a
  proof -
    have "a \<noteq> entry_addr kernel_heap b" using that(1) b(1) low by (auto simp: settled_def entry_addr_def)
    then have "m a = kmem s a" using that(2) by (auto simp: m_def cleared_def)
    then show ?thesis using that own [of a] by (auto simp: settled_def)
  qed
  then show thesis using run ok' fp own by (intro that [of m]) (auto simp: gives_back_def)
qed


text \<open>An object is the only thing in its page, so releasing it changes one map at one place.\<close>

lemma object_page:
  assumes "heap_ok s" and "inhabitants s p \<noteq> 0"
  shows "page_start (kmem s) p" "inhabitants s p = 1"
  using assms unfolding heap_ok_def by (metis le_zero_eq of_bool_eq(1), metis le_zero_eq of_bool_eq le_antisym less_one not_less)

lemma page_start_apart:
  fixes p q :: int
  assumes "p mod 4096 = 0" and "q mod 4096 = 0" and "q \<noteq> p"
  shows "\<not> (p \<le> q \<and> q < p + 4096)"
proof
  assume a: "p \<le> q \<and> q < p + 4096"
  have "(q - p) mod 4096 = 0" using assms by (simp add: mod_diff_eq [of q 4096 p, symmetric] del: mod_diff_eq)
  moreover have "(q - p) mod 4096 = q - p" using a by (intro mod_pos_pos_trivial) auto
  ultimately show False using assms(3) by simp
qed

lemma outside_page:
  assumes ok: "heap_ok s" and p: "page_start (kmem s) p" and M: "\<And>a. M a \<noteq> None \<Longrightarrow> inhabitants s a \<noteq> 0"
  shows "outside p (p + 4096) M = M(p := None)"
proof
  fix a
  have "M a = None" if "p \<le> a" "a < p + 4096" "a \<noteq> p"
  proof (rule ccontr)
    assume "M a \<noteq> None"
    then have "a mod 4096 = 0" using object_page(1) [OF ok M] by (simp add: page_start_def)
    moreover have "p mod 4096 = 0" using p by (simp add: page_start_def)
    ultimately show False using page_start_apart [of p a] that by metis
  qed
  then show "outside p (p + 4096) M a = (M(p := None)) a" by (auto simp: outside_def)
qed


lemma drop_objects_page:
  assumes ok: "heap_ok s" and p: "page_start (kmem s) p"
  shows "drop_objects p (p + 4096) s = s\<lparr>
     streamers := (streamers s)(p := None), path_parts := (path_parts s)(p := None),
     path_roots := (path_roots s)(p := None), file_descs := (file_descs s)(p := None),
     fat_privates := (fat_privates s)(p := None), dir_items := (dir_items s)(p := None),
     directories := (directories s)(p := None), fat_items := (fat_items s)(p := None),
     fat_descs := (fat_descs s)(p := None)\<rparr>"
  unfolding drop_objects_def
  by (simp_all add: outside_page [OF ok p] inhabitants_def)

text \<open>
  \<open>released p s s'\<close>: the heap's side of freeing the page \<open>p\<close>.
\<close>

definition released :: "addr \<Rightarrow> 'd kstate \<Rightarrow> 'd kstate \<Rightarrow> bool" where
  "released p s s' \<longleftrightarrow>
     heap_ok s' \<and> spare_pages (kmem s') = Suc (spare_pages (kmem s)) \<and>
     gives_back p (kmem s) (kmem s')"

lemma kfree_released:
  assumes ok: "heap_ok s" and p: "page_start (kmem s) p"
  obtains m where "kfree p s = Some ((drop_objects p (p + 4096) s)\<lparr>kmem := m\<rparr>)"
    "released p s ((drop_objects p (p + 4096) s)\<lparr>kmem := m\<rparr>)"
  by (rule kfree_page [OF ok p]) (auto simp: released_def intro: that)

lemma inhabitant_cases:
  assumes "heap_ok s"
  shows "streamers s p = Some x1 \<Longrightarrow> page_start (kmem s) p \<and> path_parts s p = None \<and> path_roots s p = None
      \<and> file_descs s p = None \<and> fat_privates s p = None \<and> dir_items s p = None \<and> directories s p = None
      \<and> fat_items s p = None \<and> fat_descs s p = None"
    and "file_descs s p = Some x4 \<Longrightarrow> page_start (kmem s) p \<and> streamers s p = None \<and> path_parts s p = None
      \<and> path_roots s p = None \<and> fat_privates s p = None \<and> dir_items s p = None \<and> directories s p = None
      \<and> fat_items s p = None \<and> fat_descs s p = None"
    and "fat_privates s p = Some x5 \<Longrightarrow> page_start (kmem s) p \<and> streamers s p = None \<and> path_parts s p = None
      \<and> path_roots s p = None \<and> file_descs s p = None \<and> dir_items s p = None \<and> directories s p = None
      \<and> fat_items s p = None \<and> fat_descs s p = None"
    and "dir_items s p = Some x6 \<Longrightarrow> page_start (kmem s) p \<and> streamers s p = None \<and> path_parts s p = None
      \<and> path_roots s p = None \<and> file_descs s p = None \<and> fat_privates s p = None \<and> directories s p = None
      \<and> fat_items s p = None \<and> fat_descs s p = None"
    and "fat_items s p = Some x8 \<Longrightarrow> page_start (kmem s) p \<and> streamers s p = None \<and> path_parts s p = None
      \<and> path_roots s p = None \<and> file_descs s p = None \<and> fat_privates s p = None \<and> dir_items s p = None
      \<and> directories s p = None \<and> fat_descs s p = None"
    and "fat_descs s p = Some x9 \<Longrightarrow> page_start (kmem s) p \<and> streamers s p = None \<and> path_parts s p = None
      \<and> path_roots s p = None \<and> file_descs s p = None \<and> fat_privates s p = None \<and> dir_items s p = None
      \<and> directories s p = None \<and> fat_items s p = None"
    and "path_parts s p = Some x2 \<Longrightarrow> page_start (kmem s) p \<and> streamers s p = None
      \<and> path_roots s p = None \<and> file_descs s p = None \<and> fat_privates s p = None \<and> dir_items s p = None
      \<and> directories s p = None \<and> fat_items s p = None \<and> fat_descs s p = None"
    and "path_roots s p = Some x3 \<Longrightarrow> page_start (kmem s) p \<and> streamers s p = None
      \<and> path_parts s p = None \<and> file_descs s p = None \<and> fat_privates s p = None \<and> dir_items s p = None
      \<and> directories s p = None \<and> fat_items s p = None \<and> fat_descs s p = None"
    and "directories s p = Some x7 \<Longrightarrow> page_start (kmem s) p \<and> streamers s p = None
      \<and> path_parts s p = None \<and> path_roots s p = None \<and> file_descs s p = None \<and> fat_privates s p = None
      \<and> dir_items s p = None \<and> fat_items s p = None \<and> fat_descs s p = None"
  using object_page [OF assms, of p] by (simp_all add: inhabitants_def)

text \<open>Release of the one object in a page, for each kind that the code frees.\<close>

lemma kfree_streamer:
  assumes "heap_ok s" and "streamers s p = Some x"
  obtains m where "kfree p s = Some (s\<lparr>streamers := (streamers s)(p := None), kmem := m\<rparr>)"
    "released p s (s\<lparr>streamers := (streamers s)(p := None), kmem := m\<rparr>)"
  by (rule kfree_released [OF assms(1) inhabitant_cases(1) [OF assms, THEN conjunct1]])
    (use inhabitant_cases(1) [OF assms] that in \<open>simp add: drop_objects_page [OF assms(1)] fun_upd_idem\<close>)

lemma kfree_private:
  assumes "heap_ok s" and "fat_privates s p = Some x"
  obtains m where "kfree p s = Some (s\<lparr>fat_privates := (fat_privates s)(p := None), kmem := m\<rparr>)"
    "released p s (s\<lparr>fat_privates := (fat_privates s)(p := None), kmem := m\<rparr>)"
  by (rule kfree_released [OF assms(1) inhabitant_cases(3) [OF assms, THEN conjunct1]])
    (use inhabitant_cases(3) [OF assms] that in \<open>simp add: drop_objects_page [OF assms(1)] fun_upd_idem\<close>)

lemma kfree_dir_items:
  assumes "heap_ok s" and "dir_items s p = Some x"
  obtains m where "kfree p s = Some (s\<lparr>dir_items := (dir_items s)(p := None), kmem := m\<rparr>)"
    "released p s (s\<lparr>dir_items := (dir_items s)(p := None), kmem := m\<rparr>)"
  by (rule kfree_released [OF assms(1) inhabitant_cases(4) [OF assms, THEN conjunct1]])
    (use inhabitant_cases(4) [OF assms] that in \<open>simp add: drop_objects_page [OF assms(1)] fun_upd_idem\<close>)

lemma kfree_fat_item:
  assumes "heap_ok s" and "fat_items s p = Some x"
  obtains m where "kfree p s = Some (s\<lparr>fat_items := (fat_items s)(p := None), kmem := m\<rparr>)"
    "released p s (s\<lparr>fat_items := (fat_items s)(p := None), kmem := m\<rparr>)"
  by (rule kfree_released [OF assms(1) inhabitant_cases(5) [OF assms, THEN conjunct1]])
    (use inhabitant_cases(5) [OF assms] that in \<open>simp add: drop_objects_page [OF assms(1)] fun_upd_idem\<close>)

lemma kfree_fat_desc:
  assumes "heap_ok s" and "fat_descs s p = Some x"
  obtains m where "kfree p s = Some (s\<lparr>fat_descs := (fat_descs s)(p := None), kmem := m\<rparr>)"
    "released p s (s\<lparr>fat_descs := (fat_descs s)(p := None), kmem := m\<rparr>)"
  by (rule kfree_released [OF assms(1) inhabitant_cases(6) [OF assms, THEN conjunct1]])
    (use inhabitant_cases(6) [OF assms] that in \<open>simp add: drop_objects_page [OF assms(1)] fun_upd_idem\<close>)

lemma kfree_file_desc:
  assumes "heap_ok s" and "file_descs s p = Some x"
  obtains m where "kfree p s = Some (s\<lparr>file_descs := (file_descs s)(p := None), kmem := m\<rparr>)"
    "released p s (s\<lparr>file_descs := (file_descs s)(p := None), kmem := m\<rparr>)"
  by (rule kfree_released [OF assms(1) inhabitant_cases(2) [OF assms, THEN conjunct1]])
    (use inhabitant_cases(2) [OF assms] that in \<open>simp add: drop_objects_page [OF assms(1)] fun_upd_idem\<close>)

lemma kfree_directory:
  assumes "heap_ok s" and "directories s p = Some x"
  obtains m where "kfree p s = Some (s\<lparr>directories := (directories s)(p := None), kmem := m\<rparr>)"
    "released p s (s\<lparr>directories := (directories s)(p := None), kmem := m\<rparr>)"
  by (rule kfree_released [OF assms(1) inhabitant_cases(9) [OF assms, THEN conjunct1]])
    (use inhabitant_cases(9) [OF assms] that in \<open>simp add: drop_objects_page [OF assms(1)] fun_upd_idem\<close>)

text \<open>A page that is taken and given back leaves the rest as it was.\<close>

lemma owned_page:
  assumes "p mod 4096 = 0" and "p \<le> a" and "a < p + 4096"
  shows "owned kernel_heap m a = owned kernel_heap m p"
proof -
  obtain q where q: "p = 4096 * q" using assms(1) by (auto simp: dvd_def mod_eq_0_iff_dvd)
  have "block_of kernel_heap p = q - 4096"
    by (rule block_of_eq) (simp_all add: q block_addr_def)
  moreover have "block_of kernel_heap a = q - 4096"
    by (rule block_of_eq) (use assms q in \<open>simp_all add: block_addr_def\<close>)
  ultimately show ?thesis by (simp add: owned_def)
qed

text \<open>Stores above the table and the byte behind it do not concern the heap.\<close>

lemma heap_ok_above:
  assumes "heap_ok s" and "\<And>a. a < 57857 \<Longrightarrow> m a = kmem s a"
  shows "heap_ok (s\<lparr>kmem := m\<rparr>)" and "page_start m p = page_start (kmem s) p"
proof -
  have own: "owned kernel_heap m a = owned kernel_heap (kmem s) a" for a
    by (rule above_table_frame(1)) (simp add: assms(2))
  then show "page_start m p = page_start (kmem s) p" for p by (simp add: page_start_def)
  moreover have "unchained m"
    by (rule unchained_cong [of "kmem s"]) (use assms in \<open>auto simp: heap_ok_def entry_addr_def\<close>)
  ultimately show "heap_ok (s\<lparr>kmem := m\<rparr>)"
    using assms(1) by (simp add: heap_ok_def inhabitants_def)
qed

text \<open>A page without an object, such as that of a name.\<close>

lemma kfree_raw:
  assumes "heap_ok s" and "page_start (kmem s) p" and "inhabitants s p = 0"
  obtains m where "kfree p s = Some (s\<lparr>kmem := m\<rparr>)" "released p s (s\<lparr>kmem := m\<rparr>)"
proof -
  have "drop_objects p (p + 4096) s = s"
    unfolding drop_objects_page [OF assms(1,2)]
    using assms(3) by (simp add: inhabitants_def fun_upd_idem)
  then show thesis
    by - (rule kfree_released [OF assms(1,2)], rule that, simp_all)
qed

lemma kfree_path_part:
  assumes "heap_ok s" and "path_parts s p = Some x"
  obtains m where "kfree p s = Some (s\<lparr>path_parts := (path_parts s)(p := None), kmem := m\<rparr>)"
    "released p s (s\<lparr>path_parts := (path_parts s)(p := None), kmem := m\<rparr>)"
  by (rule kfree_released [OF assms(1) inhabitant_cases(7) [OF assms, THEN conjunct1]])
    (use inhabitant_cases(7) [OF assms] that in \<open>simp add: drop_objects_page [OF assms(1)] fun_upd_idem\<close>)

lemma kfree_path_root:
  assumes "heap_ok s" and "path_roots s p = Some x"
  obtains m where "kfree p s = Some (s\<lparr>path_roots := (path_roots s)(p := None), kmem := m\<rparr>)"
    "released p s (s\<lparr>path_roots := (path_roots s)(p := None), kmem := m\<rparr>)"
  by (rule kfree_released [OF assms(1) inhabitant_cases(8) [OF assms, THEN conjunct1]])
    (use inhabitant_cases(8) [OF assms] that in \<open>simp add: drop_objects_page [OF assms(1)] fun_upd_idem\<close>)


text \<open>Several pages given back.\<close>

definition gives_back_all :: "addr set \<Rightarrow> mem \<Rightarrow> mem \<Rightarrow> bool" where
  "gives_back_all P m m' \<longleftrightarrow>
     (\<forall>a. owned kernel_heap m' a \<longleftrightarrow> owned kernel_heap m a \<and> (\<forall>p \<in> P. \<not> (p \<le> a \<and> a < p + 4096))) \<and>
     (\<forall>a. settled m a \<and> (\<forall>p \<in> P. \<not> (p \<le> a \<and> a < p + 4096)) \<longrightarrow> settled m' a \<and> m' a = m a)"

lemma gives_back_all_empty [simp]: "gives_back_all {} m m"
  by (simp add: gives_back_all_def)

lemma gives_back_all_single: "gives_back_all {p} m m' = gives_back p m m'"
  by (simp add: gives_back_all_def gives_back_def)

lemma gives_back_all_trans:
  "gives_back_all P m m' \<Longrightarrow> gives_back_all Q m' m'' \<Longrightarrow> gives_back_all (P \<union> Q) m m''"
  by (auto simp: gives_back_all_def)

lemma page_start_gives_back:
  "gives_back_all P m m' \<Longrightarrow> page_start m q \<Longrightarrow> q \<notin> P \<Longrightarrow> (\<And>p. p \<in> P \<Longrightarrow> p mod 4096 = 0) \<Longrightarrow> page_start m' q"
  using page_start_apart [of _ q] unfolding gives_back_all_def page_start_def by metis

lemma grows_gives_back_all:
  assumes "grows m m1" and "gives_back_all P m1 m2" and "\<And>p. p \<in> P \<Longrightarrow> page_start m1 p \<and> \<not> owned kernel_heap m p"
  shows "grows m m2"
proof -
  have out: "\<not> (p \<le> a \<and> a < p + 4096)" if "settled m a" "p \<in> P" for a p
  proof
    assume a: "p \<le> a \<and> a < p + 4096"
    have p: "p mod 4096 = 0" "owned kernel_heap m1 p" "\<not> owned kernel_heap m p"
      using assms(3) [OF that(2)] by (simp_all add: page_start_def)
    then have "\<not> owned kernel_heap m a" "owned kernel_heap m1 a"
      using owned_page [OF p(1), of a] a by auto
    then show False using owned_pool [of m1 a] that by (simp add: settled_def)
  qed
  have "owned kernel_heap m2 a" if "owned kernel_heap m a" for a
    using that out [OF owned_settled [OF that]] assms(1,2) by (simp add: grows_def gives_back_all_def)
  moreover have "settled m2 a \<and> m2 a = m a" if "settled m a" for a
    using that out [OF that] assms(1,2) by (simp add: grows_def gives_back_all_def)
  ultimately show ?thesis by (simp add: grows_def)
qed


lemma grows_gives_back:
  "grows m m1 \<Longrightarrow> gives_back p m1 m2 \<Longrightarrow> page_start m1 p \<Longrightarrow> \<not> owned kernel_heap m p \<Longrightarrow> grows m m2"
  by (rule grows_gives_back_all [of m m1 "{p}"]) (simp_all add: gives_back_all_single)

lemma released_all: "released p s s' \<Longrightarrow> gives_back_all {p} (kmem s) (kmem s')"
  by (simp add: released_def gives_back_all_single)

end
