(* ===== verification/Disk.thy ===== *)
theory Disk
  imports Kstate
begin

text \<open>
  \<open>disk/disk.c\<close>: reading sectors from the ATA drive by programmed I/O.  The ports are hardware,
  so they are a parameter: \<open>io\<close> holds the three port operations on a device state of any type.
  \<open>ata_laws\<close> states what the ATA PIO protocol promises of them, relative to an abstract drive
  (\<open>ata\<close>), and \<open>ata_ports\<close> is a drive that keeps the promise.  The locale \<open>sector_device\<close> is
  the contract the streamer relies on.
\<close>

record 'd ports =
  insb :: "int \<Rightarrow> 'd \<Rightarrow> byte \<times> 'd"
  insw :: "int \<Rightarrow> 'd \<Rightarrow> 16 word \<times> 'd"
  outb :: "int \<Rightarrow> byte \<Rightarrow> 'd \<Rightarrow> 'd"

definition DISK_TYPE_REAL :: int where [simp]: "DISK_TYPE_REAL = 0"

section \<open>The operations\<close>

text \<open>\<open>while (insb(0x1F7) & 0x80) {}\<close>\<close>

partial_function (option) wait_ready :: "'d ports \<Rightarrow> 'd \<Rightarrow> 'd option" where
  "wait_ready io d =
     (let (c, d) = insb io 0x1F7 d in if c AND 0x80 \<noteq> 0 then wait_ready io d else Some d)"

text \<open>\<open>char c = insb(0x1F7); while (!(c & 0x08)) c = insb(0x1F7);\<close>\<close>

partial_function (option) wait_data :: "'d ports \<Rightarrow> 'd \<Rightarrow> 'd option" where
  "wait_data io d =
     (let (c, d) = insb io 0x1F7 d in if c AND 0x08 = 0 then wait_data io d else Some d)"

text \<open>The inner loop stores each word little-endian through \<open>unsigned short* ptr\<close>.\<close>

fun read_words :: "'d ports \<Rightarrow> nat \<Rightarrow> 'd \<Rightarrow> byte list \<times> 'd" where
  "read_words io 0 d = ([], d)"
| "read_words io (Suc n) d =
     (let (w, d) = insw io 0x1F0 d; (bs, d) = read_words io n d
      in (ucast w # ucast (drop_bit 8 w) # bs, d))"

fun read_sectors :: "'d ports \<Rightarrow> nat \<Rightarrow> 'd \<Rightarrow> (byte list \<times> 'd) option" where
  "read_sectors io 0 d = Some ([], d)"
| "read_sectors io (Suc n) d =
     do { d \<leftarrow> wait_data io d;
          let max_words = nat (DISK_SECTOR_SIZE div 2);
          let (bs, d) = read_words io max_words d;
          (bs', d) \<leftarrow> read_sectors io n d;
          Some (bs @ bs', d) }"

text \<open>The result, the bytes stored at \<open>buf\<close>, and the device afterwards.\<close>

definition read_from_disk :: "'d ports \<Rightarrow> int \<Rightarrow> int \<Rightarrow> 'd \<Rightarrow> (int \<times> byte list \<times> 'd) option" where
  "read_from_disk io lba n d =
     do { d \<leftarrow> wait_ready io d;
          let d = outb io 0x1F6 (word_of_int (drop_bit 24 lba OR 0xE0)) d;
          let d = outb io 0x1F2 (word_of_int n) d;
          let d = outb io 0x1F3 (word_of_int lba AND 0xFF) d;
          let d = outb io 0x1F4 (word_of_int (drop_bit 8 lba)) d;
          let d = outb io 0x1F5 (word_of_int (drop_bit 16 lba)) d;
          let d = outb io 0x1F7 0x20 d;
          (bs, d) \<leftarrow> read_sectors io (nat n) d;
          Some (0, bs, d) }"

definition disk_get :: "int \<Rightarrow> disk_ptr option" where
  "disk_get index = (if index \<noteq> 0 then None else Some Root_disk)"

text \<open>\<open>lba\<close> arrives as an \<open>unsigned int\<close> and is passed on as an \<open>int\<close>.\<close>

definition disk_read_sector ::
    "'d ports \<Rightarrow> disk_ptr option \<Rightarrow> int \<Rightarrow> int \<Rightarrow> 'd kstate \<Rightarrow> (int \<times> byte list \<times> 'd kstate) option" where
  "disk_read_sector io idisk lba n s =
     (if idisk \<noteq> Some Root_disk then Some (- EIO, [], s)
      else do { (res, bs, d) \<leftarrow> read_from_disk io (s32 lba) n (dev s); Some (res, bs, s\<lparr>dev := d\<rparr>) })"

section \<open>The ATA PIO protocol\<close>

text \<open>
  An abstract drive: the disk's contents, the task file registers, the data words it has ready,
  and for how many more status reads it reports that it is busy.
\<close>

record ata =
  ata_image :: "int \<Rightarrow> byte"
  ata_drive :: byte
  ata_count :: byte
  ata_lba0 :: byte
  ata_lba1 :: byte
  ata_lba2 :: byte
  ata_queue :: "16 word list"
  ata_polls :: nat

definition ata_status :: "ata \<Rightarrow> byte" where
  "ata_status a = (if ata_polls a \<noteq> 0 then 0x80 else if ata_queue a \<noteq> [] then 0x58 else 0x50)"

definition image_words :: "(int \<Rightarrow> byte) \<Rightarrow> int \<Rightarrow> nat \<Rightarrow> 16 word list" where
  "image_words img p n = map (\<lambda>j. le16 (img (p + 2 * int j)) (img (p + 2 * int j + 1))) [0..<n]"

definition ata_lba :: "ata \<Rightarrow> int" where
  "ata_lba a = uint (ata_lba0 a) + 256 * uint (ata_lba1 a) + 65536 * uint (ata_lba2 a)
     + 16777216 * (uint (ata_drive a) mod 16)"

definition ata_sectors :: "ata \<Rightarrow> nat" where
  "ata_sectors a = (if ata_count a = 0 then 256 else unat (ata_count a))"

definition ata_read_command :: "ata \<Rightarrow> ata" where
  "ata_read_command a =
     a\<lparr>ata_queue := image_words (ata_image a) (512 * ata_lba a) (256 * ata_sectors a)\<rparr>"

definition ata_write :: "int \<Rightarrow> byte \<Rightarrow> ata \<Rightarrow> ata" where
  "ata_write p v a =
     (if p = 0x1F2 then a\<lparr>ata_count := v\<rparr>
      else if p = 0x1F3 then a\<lparr>ata_lba0 := v\<rparr>
      else if p = 0x1F4 then a\<lparr>ata_lba1 := v\<rparr>
      else if p = 0x1F5 then a\<lparr>ata_lba2 := v\<rparr>
      else if p = 0x1F6 then a\<lparr>ata_drive := v\<rparr>
      else a)"

text \<open>
  What the protocol promises, with \<open>drv\<close> the abstract drive in a device state: the status port
  shows the drive's status, and a drive is busy for finitely many reads only; the data port
  yields the next word, after which the drive may be busy again at a sector's end; the task
  file ports set their registers; the command \<open>0x20\<close> makes the addressed sectors' words ready.
\<close>

definition ata_laws :: "'d ports \<Rightarrow> ('d \<Rightarrow> ata) \<Rightarrow> bool" where
  "ata_laws io drv \<longleftrightarrow>
     (\<forall>d. fst (insb io 0x1F7 d) = ata_status (drv d) \<and>
          drv (snd (insb io 0x1F7 d)) = (drv d)\<lparr>ata_polls := ata_polls (drv d) - 1\<rparr>) \<and>
     (\<forall>d w ws. ata_polls (drv d) = 0 \<and> ata_queue (drv d) = w # ws \<longrightarrow>
          fst (insw io 0x1F0 d) = w \<and>
          (\<exists>k. drv (snd (insw io 0x1F0 d)) = (drv d)\<lparr>ata_queue := ws, ata_polls := k\<rparr> \<and>
             (length ws mod 256 \<noteq> 0 \<longrightarrow> k = 0))) \<and>
     (\<forall>p v d. 0x1F2 \<le> p \<and> p \<le> 0x1F6 \<longrightarrow> drv (outb io p v d) = ata_write p v (drv d)) \<and>
     (\<forall>d. \<exists>k. drv (outb io 0x1F7 0x20 d) = (ata_read_command (drv d))\<lparr>ata_polls := k\<rparr>)"

text \<open>A drive of that kind, busy for three status reads after a command and one after a sector.\<close>

definition ata_ports :: "ata ports" where
  "ata_ports =
     \<lparr>insb = (\<lambda>p a. (if p = 0x1F7 then ata_status a else 0, a\<lparr>ata_polls := ata_polls a - 1\<rparr>)),
      insw = (\<lambda>p a. case ata_queue a of [] \<Rightarrow> (0, a)
                | w # ws \<Rightarrow> (w, a\<lparr>ata_queue := ws, ata_polls := if length ws mod 256 = 0 then 1 else 0\<rparr>)),
      outb = (\<lambda>p v a. if p = 0x1F7 \<and> v = 0x20 then (ata_read_command a)\<lparr>ata_polls := 3\<rparr>
                else ata_write p v a)\<rparr>"

lemma ata_ports_laws: "ata_laws ata_ports (\<lambda>a. a)"
  by (auto simp: ata_laws_def ata_ports_def)

section \<open>Waiting and transferring\<close>

lemma wait_ready_idle:
  "ata_laws io drv \<Longrightarrow> \<exists>d'. wait_ready io d = Some d' \<and> drv d' = (drv d)\<lparr>ata_polls := 0\<rparr>"
proof (induction "ata_polls (drv d)" arbitrary: d)
  case 0
  then show ?case
    by (subst wait_ready.simps) (auto simp: ata_laws_def ata_status_def case_prod_beta)
next
  case (Suc n)
  obtain c d1 where i: "insb io 0x1F7 d = (c, d1)" by force
  then have c: "c = 0x80" "drv d1 = (drv d)\<lparr>ata_polls := n\<rparr>"
    using Suc.prems Suc.hyps(2) unfolding ata_laws_def
    by (metis ata_status_def diff_Suc_1 fst_conv nat.distinct(1), metis diff_Suc_1 snd_conv)
  obtain d' where "wait_ready io d1 = Some d'" "drv d' = (drv d1)\<lparr>ata_polls := 0\<rparr>"
    using Suc.hyps(1) [of d1] Suc.prems c(2) by auto
  then show ?case
    by (subst wait_ready.simps) (simp add: i c)
qed

lemma wait_data_idle:
  "ata_laws io drv \<Longrightarrow> ata_queue (drv d) \<noteq> [] \<Longrightarrow>
     \<exists>d'. wait_data io d = Some d' \<and> drv d' = (drv d)\<lparr>ata_polls := 0\<rparr>"
proof (induction "ata_polls (drv d)" arbitrary: d)
  case 0
  then show ?case
    by (subst wait_data.simps) (auto simp: ata_laws_def ata_status_def case_prod_beta)
next
  case (Suc n)
  obtain c d1 where i: "insb io 0x1F7 d = (c, d1)" by force
  then have c: "c = 0x80" "drv d1 = (drv d)\<lparr>ata_polls := n\<rparr>"
    using Suc.prems Suc.hyps(2) unfolding ata_laws_def
    by (metis ata_status_def diff_Suc_1 fst_conv nat.distinct(1), metis diff_Suc_1 snd_conv)
  obtain d' where "wait_data io d1 = Some d'" "drv d' = (drv d1)\<lparr>ata_polls := 0\<rparr>"
    using Suc.hyps(1) [of d1] Suc.prems c(2) by auto
  then show ?case
    by (subst wait_data.simps) (simp add: i c)
qed

definition word_bytes :: "16 word list \<Rightarrow> byte list" where
  "word_bytes ws = concat (map (\<lambda>w. [ucast w, ucast (drop_bit 8 w)]) ws)"

lemma read_words_queue:
  assumes "ata_laws io drv" and "ata_queue (drv d) = ws @ rest" and "length rest mod 256 = 0"
    and "length ws \<le> 256" and "ata_polls (drv d) = 0"
  shows "\<exists>d' k. read_words io (length ws) d = (word_bytes ws, d') \<and>
      drv d' = (drv d)\<lparr>ata_queue := rest, ata_polls := k\<rparr>"
  using assms(2-)
proof (induction ws arbitrary: d)
  case Nil
  then show ?case by (auto simp: word_bytes_def intro!: exI [of _ "ata_polls (drv d)"])
next
  case (Cons w ws)
  obtain w' d1 where i: "insw io 0x1F0 d = (w', d1)" by force
  obtain k where w: "w' = w" and d1: "drv d1 = (drv d)\<lparr>ata_queue := ws @ rest, ata_polls := k\<rparr>"
    and k: "length (ws @ rest) mod 256 \<noteq> 0 \<longrightarrow> k = 0"
    using assms(1) Cons.prems(1,4) i unfolding ata_laws_def
    by (metis append_Cons fst_conv snd_conv)
  show ?case
  proof (cases ws)
    case Nil
    then show ?thesis using i w d1 by (auto simp: word_bytes_def)
  next
    case (Cons v vs)
    have "length ws mod 256 \<noteq> 0" using Cons.prems(3) Cons by (simp add: mod_Suc_eq)
    then have "length (ws @ rest) mod 256 \<noteq> 0"
      using Cons.prems(2) by (metis length_append mod_add_right_eq add.right_neutral)
    with k d1 Cons.IH [of d1] Cons.prems obtain d' k' where
      "read_words io (length ws) d1 = (word_bytes ws, d')"
      "drv d' = (drv d1)\<lparr>ata_queue := rest, ata_polls := k'\<rparr>" by auto
    then show ?thesis using i w d1 by (auto simp: word_bytes_def)
  qed
qed


lemma word_bytes_append: "word_bytes (xs @ ys) = word_bytes xs @ word_bytes ys"
  by (simp add: word_bytes_def)

lemma read_sectors_queue:
  assumes "ata_laws io drv" and "length (ata_queue (drv d)) = 256 * n"
  shows "\<exists>d' k. read_sectors io n d = Some (word_bytes (ata_queue (drv d)), d') \<and>
      drv d' = (drv d)\<lparr>ata_queue := [], ata_polls := k\<rparr>"
  using assms(2)
proof (induction n arbitrary: d)
  case 0
  then show ?case by (auto simp: word_bytes_def intro!: exI [of _ "ata_polls (drv d)"])
next
  case (Suc n)
  define ws where "ws = take 256 (ata_queue (drv d))"
  define rest where "rest = drop 256 (ata_queue (drv d))"
  have q: "ata_queue (drv d) = ws @ rest" "length ws = 256" "length rest = 256 * n"
    using Suc.prems by (simp_all add: ws_def rest_def)
  then have ne: "ata_queue (drv d) \<noteq> []" by auto
  obtain d1 where d1: "wait_data io d = Some d1" "drv d1 = (drv d)\<lparr>ata_polls := 0\<rparr>"
    using wait_data_idle [where io = io and drv = drv and d = d, OF assms(1) ne] by auto
  have q1: "ata_queue (drv d1) = ws @ rest" "ata_polls (drv d1) = 0" "length rest mod 256 = 0" "length ws \<le> 256"
    using d1 q by simp_all
  obtain d2 k where d2: "read_words io 256 d1 = (word_bytes ws, d2)"
    "drv d2 = (drv d1)\<lparr>ata_queue := rest, ata_polls := k\<rparr>"
    using read_words_queue [where io = io and drv = drv and d = d1, OF assms(1) q1(1,3,4,2)] q(2) by auto
  obtain d3 k' where "read_sectors io n d2 = Some (word_bytes rest, d3)"
    "drv d3 = (drv d2)\<lparr>ata_queue := [], ata_polls := k'\<rparr>"
    using Suc.IH [of d2] d2(2) q(3) by auto
  then show ?case
    using d1 d2 q(1) by (auto simp: word_bytes_append)
qed

lemma word_bytes_image: "word_bytes (image_words img p n) = read_bytes img p (2 * n)"
proof (induction n)
  case (Suc n)
  have "[ucast (le16 a b), ucast (drop_bit 8 (le16 a b))] = [a, b :: byte]" for a b :: byte
  proof -
    have "uint a + 256 * uint b = uint a + uint b * 256" by simp
    moreover have "(uint a + uint b * 256) mod 256 = uint a" "(uint a + uint b * 256) div 256 = uint b"
      by simp_all
    ultimately have "uint (ucast (le16 a b) :: byte) = uint a"
      "uint (ucast (drop_bit 8 (le16 a b)) :: byte) = uint b"
      by (simp_all add: uint_ucast uint_drop_bit uint_le16)
    then show ?thesis by (simp add: word_uint_eq_iff)
  qed
  then have "word_bytes [le16 (img (p + 2 * int n)) (img (p + 2 * int n + 1))]
      = read_bytes img (p + int (2 * n)) 2"
    by (simp add: word_bytes_def read_bytes_def upt_rec)
  then show ?case
    using Suc read_bytes_add [of img p "2 * n" 2] by (simp add: image_words_def word_bytes_append)
qed (simp add: word_bytes_def image_words_def read_bytes_def)

text \<open>The address that reaches the drive through its registers.\<close>

lemma lba_registers:
  assumes "0 \<le> lba" "lba < 268435456"
  shows "uint (word_of_int lba AND 0xFF :: byte) + 256 * uint (word_of_int (drop_bit 8 lba) :: byte)
      + 65536 * uint (word_of_int (drop_bit 16 lba) :: byte)
      + 16777216 * (uint (word_of_int (drop_bit 24 lba OR 0xE0) :: byte) mod 16) = lba"
proof -
  let ?a = "lba div 256" and ?b = "lba div 256 div 256" and ?c = "lba div 256 div 256 div 256"
  have "uint (word_of_int lba AND 0xFF :: byte) = lba mod 256"
    using uint_and_mask [of "word_of_int lba :: byte" 8] by (simp add: mask_numeral uint_word_of_int)
  moreover have "uint (word_of_int (drop_bit 8 lba) :: byte) = ?a mod 256"
    "uint (word_of_int (drop_bit 16 lba) :: byte) = ?b mod 256"
    by (simp_all add: uint_word_of_int drop_bit_int_def div_byte_steps)
  moreover have "uint (word_of_int (drop_bit 24 lba OR 0xE0) :: byte) mod 16 = ?c"
  proof -
    have c: "0 \<le> ?c" "?c < 16" using assms by auto
    have "drop_bit 24 lba = ?c" by (simp add: drop_bit_int_def div_byte_steps)
    moreover have "uint (word_of_int (?c OR 0xE0) :: byte) mod 16 = (?c OR 0xE0) mod 16"
      by (simp add: uint_word_of_int mod_mod_cancel)
    moreover have "(?c OR 0xE0) mod 16 = take_bit 4 (?c OR 0xE0)" by (simp add: take_bit_int_def)
    moreover have "take_bit 4 (?c OR 0xE0) = take_bit 4 ?c" by (simp add: take_bit_or)
    moreover have "take_bit 4 ?c = ?c" using c by (simp add: take_bit_int_eq_self_iff)
    ultimately show ?thesis by (simp only:)
  qed
  moreover have "lba = 256 * ?a + lba mod 256" "?a = 256 * ?b + ?a mod 256" "?b = 256 * ?c + ?b mod 256"
    by simp_all
  ultimately show ?thesis by linarith
qed

text \<open>
  A drive without a transfer in progress, and the contents it shows.
\<close>

definition idle_drive :: "(int \<Rightarrow> byte) \<Rightarrow> ata \<Rightarrow> bool" where
  "idle_drive img a \<longleftrightarrow> ata_image a = img \<and> ata_queue a = []"

lemma read_from_disk_image:
  assumes laws: "ata_laws io drv" and idle: "idle_drive img (drv d)"
    and lba: "0 \<le> lba" "lba < 268435456" and n: "0 < n" "n \<le> 256"
  shows "\<exists>d'. read_from_disk io lba n d = Some (0, read_bytes img (512 * lba) (nat (512 * n)), d') \<and>
      idle_drive img (drv d')"
proof -
  obtain d0 where d0: "wait_ready io d = Some d0" "drv d0 = (drv d)\<lparr>ata_polls := 0\<rparr>"
    using wait_ready_idle [where io = io and drv = drv and d = d, OF laws] by auto
  have out: "drv (outb io p v e) = ata_write p v (drv e)" if "0x1F2 \<le> p" "p \<le> 0x1F6" for p v e
    using laws that by (auto simp: ata_laws_def)
  define d1 where "d1 = outb io 0x1F5 (word_of_int (drop_bit 16 lba))
    (outb io 0x1F4 (word_of_int (drop_bit 8 lba)) (outb io 0x1F3 (word_of_int lba AND 0xFF)
    (outb io 0x1F2 (word_of_int n) (outb io 0x1F6 (word_of_int (drop_bit 24 lba OR 0xE0)) d0))))"
  have d1: "ata_lba (drv d1) = lba" "ata_image (drv d1) = img" "ata_count (drv d1) = word_of_int n"
    using idle lba_registers [OF lba]
    by (simp_all add: d1_def out ata_write_def d0 idle_drive_def ata_lba_def)
  have count: "ata_sectors (drv d1) = nat n"
  proof (cases "n = 256")
    case True
    then show ?thesis by (simp add: ata_sectors_def d1)
  next
    case False
    then have u: "uint (word_of_int n :: byte) = n" using n by (simp add: uint_word_of_int)
    then have "(word_of_int n :: byte) \<noteq> 0" using n by (auto simp: word_uint_eq_iff)
    moreover have "unat (word_of_int n :: byte) = nat n" using u by (metis nat_uint_eq)
    ultimately show ?thesis by (simp only: ata_sectors_def d1 if_False)
  qed
  obtain k where k: "drv (outb io 0x1F7 0x20 d1) = (ata_read_command (drv d1))\<lparr>ata_polls := k\<rparr>"
    using laws unfolding ata_laws_def by blast
  then have q: "ata_queue (drv (outb io 0x1F7 0x20 d1)) = image_words img (512 * lba) (256 * nat n)"
    by (simp add: ata_read_command_def d1 count)
  then have "length (ata_queue (drv (outb io 0x1F7 0x20 d1))) = 256 * nat n"
    by (simp add: image_words_def)
  from read_sectors_queue [where io = io and drv = drv, OF laws this] obtain d' k' where
    d': "read_sectors io (nat n) (outb io 0x1F7 0x20 d1) = Some (word_bytes (image_words img (512 * lba) (256 * nat n)), d')"
    "drv d' = (drv (outb io 0x1F7 0x20 d1))\<lparr>ata_queue := [], ata_polls := k'\<rparr>"
    unfolding q by auto
  have "2 * (256 * nat n) = nat (512 * n)" using n by simp
  then have "read_from_disk io lba n d = Some (0, read_bytes img (512 * lba) (nat (512 * n)), d')"
    using d0(1) d'(1) by (simp add: read_from_disk_def word_bytes_image d1_def Let_def)
  moreover have "idle_drive img (drv d')"
    using d'(2) k d1(2) by (simp add: idle_drive_def ata_read_command_def)
  ultimately show ?thesis by blast
qed

section \<open>The contract of a sector device\<close>

text \<open>
  What the streamer relies on: a device in a good state yields any single sector of its image
  and stays good.
\<close>

locale sector_device =
  fixes io :: "'d ports" and good :: "'d \<Rightarrow> bool" and img :: "int \<Rightarrow> byte"
  assumes one_sector: "good d \<Longrightarrow> 0 \<le> lba \<Longrightarrow> lba < 268435456 \<Longrightarrow>
    \<exists>d'. read_from_disk io lba 1 d = Some (0, read_bytes img (512 * lba) 512, d') \<and> good d'"
begin

lemma root_disk_sector:
  assumes "good (dev s)" and "0 \<le> lba" and "lba < 268435456"
  obtains d' where "disk_read_sector io (Some Root_disk) lba 1 s
      = Some (0, read_bytes img (512 * lba) 512, s\<lparr>dev := d'\<rparr>)" and "good d'"
  using one_sector [OF assms] assms that by (auto simp: disk_read_sector_def)

end

lemma ata_sector_device:
  "ata_laws io drv \<Longrightarrow> sector_device io (\<lambda>d. idle_drive img (drv d)) img"
  using read_from_disk_image [of io drv img _ _ 1] by unfold_locales auto

interpretation ata: sector_device ata_ports "idle_drive img" img for img
  by (rule ata_sector_device [OF ata_ports_laws])

section \<open>Properties\<close>

text \<open>C32: on a drive that keeps the ATA PIO protocol, \<open>read_from_disk\<close> returns from both of its
busy loops, yields exactly the bytes of the \<open>n\<close> sectors from \<open>lba\<close> on (with \<open>n\<close> up to the 256
that the count register expresses as 0, and any 28-bit \<open>lba\<close>), and leaves the drive without a
transfer in progress.\<close>

theorem read_from_disk_sectors:
  assumes "ata_laws io drv" and "idle_drive img (drv d)"
    and "0 \<le> lba" and "lba < 268435456" and "0 < n" and "n \<le> 256"
  shows "\<exists>d'. read_from_disk io lba n d = Some (0, read_bytes img (512 * lba) (nat (512 * n)), d')
    \<and> idle_drive img (drv d')"
  by (rule read_from_disk_image [OF assms])

definition blank_drive :: "(int \<Rightarrow> byte) \<Rightarrow> ata" where
  "blank_drive img =
     \<lparr>ata_image = img, ata_drive = 0, ata_count = 0, ata_lba0 = 0, ata_lba1 = 0, ata_lba2 = 0,
      ata_queue = [], ata_polls = 5\<rparr>"

theorem read_from_disk_sectors_witness:
  "\<exists>d'. read_from_disk ata_ports 0x1234567 2 (blank_drive (\<lambda>a. word_of_int (a div 512)))
      = Some (0, read_bytes (\<lambda>a. word_of_int (a div 512)) 0x2468ACE00 1024, d')"
  using read_from_disk_sectors [OF ata_ports_laws, of "\<lambda>a. word_of_int (a div 512)" "blank_drive _" "0x1234567" 2]
  by (auto simp: blank_drive_def idle_drive_def)

lemma wait_ready_Some: "wait_ready io d = Some d' \<Longrightarrow> \<exists>e. fst (insb io 0x1F7 e) AND 0x80 = 0"
  by (rule wait_ready.raw_induct [where P = "\<lambda>io d d'. \<exists>e. fst (insb io 0x1F7 e) AND 0x80 = 0"])
     (auto simp: case_prod_beta split: if_splits)

text \<open>C33: a drive that never stops reporting that it is busy keeps \<open>read_from_disk\<close> in its first
loop for ever, whatever the request; so the protocol's promise of finitely many busy reads is
needed.\<close>

theorem read_from_disk_busy_forever:
  assumes "\<forall>d. fst (insb io 0x1F7 d) AND 0x80 \<noteq> 0"
  shows "read_from_disk io lba n d = None"
proof (cases "wait_ready io d")
  case None
  then show ?thesis by (simp add: read_from_disk_def)
next
  case (Some d')
  with wait_ready_Some [OF this] assms show ?thesis by blast
qed

theorem read_from_disk_busy_forever_witness:
  "read_from_disk \<lparr>insb = \<lambda>p d. (0x80, d), insw = \<lambda>p d. (0, d), outb = \<lambda>p v d. d\<rparr> 0 1 () = None"
  by (rule read_from_disk_busy_forever) simp

end
