(* ===== verification/Streamer.thy ===== *)
theory Streamer
  imports Disk
begin

text \<open>
  \<open>disk/streamer.c\<close>: a byte position on a disk, and reading from it a sector at a time.  An
  operation that fills a buffer of the caller returns the bytes it stored there, in order.
\<close>

section \<open>The operations\<close>

definition disk_streamer_new :: "int \<Rightarrow> 'd kstate \<Rightarrow> (addr \<times> 'd kstate) option" where
  "disk_streamer_new disk_no s =
     (let disk = disk_get disk_no
      in if disk = None then Some (0, s)
         else
           let (streamer, s) = kzalloc 8 s
           in if streamer = 0 then None
              else Some (streamer,
                s\<lparr>streamers := (streamers s)(streamer \<mapsto> zero_streamer\<lparr>ds_pos := 0, ds_disk := disk\<rparr>)\<rparr>))"

definition disk_streamer_seek_pos :: "addr \<Rightarrow> int \<Rightarrow> 'd kstate \<Rightarrow> (int \<times> 'd kstate) option" where
  "disk_streamer_seek_pos streamer pos s =
     do { st \<leftarrow> streamers s streamer;
          Some (0, s\<lparr>streamers := (streamers s)(streamer \<mapsto> st\<lparr>ds_pos := pos\<rparr>)\<rparr>) }"

text \<open>\<open>buf[offset+i]\<close> for \<open>i < n\<close>, where \<open>buf\<close> is the local sector buffer.\<close>

definition copy_from :: "byte list \<Rightarrow> int \<Rightarrow> int \<Rightarrow> byte list option" where
  "copy_from buf offset n =
     (if offset < 0 \<or> offset + n > int (length buf) then None else Some (slice buf (nat offset) (nat n)))"

partial_function (option) disk_streamer_read_bytes ::
    "'d ports \<Rightarrow> addr \<Rightarrow> int \<Rightarrow> 'd kstate \<Rightarrow> (int \<times> byte list \<times> 'd kstate) option" where
  "disk_streamer_read_bytes io streamer n s =
     (if n \<le> 0 then Some (0, [], s)
      else do {
        st \<leftarrow> streamers s streamer;
        let sector = ds_pos st sdiv DISK_SECTOR_SIZE;
        let offset = ds_pos st smod DISK_SECTOR_SIZE;
        let max_readable = DISK_SECTOR_SIZE - offset;
        (res, buf, s) \<leftarrow> disk_read_sector io (ds_disk st) (u32 sector) 1 s;
        if res < 0 then Some (res, [], s)
        else do {
          let total_to_read = (if n > max_readable then max_readable else n);
          out \<leftarrow> copy_from buf offset total_to_read;
          st \<leftarrow> streamers s streamer;
          let s = s\<lparr>streamers := (streamers s)
                      (streamer \<mapsto> st\<lparr>ds_pos := s32 (ds_pos st + total_to_read)\<rparr>)\<rparr>;
          if n > max_readable
          then do { (res, rest, s) \<leftarrow> disk_streamer_read_bytes io streamer (n - total_to_read) s;
                    Some (res, out @ rest, s) }
          else Some (res, out, s) } })"

definition disk_streamer_close :: "addr \<Rightarrow> 'd kstate \<Rightarrow> 'd kstate option" where
  "disk_streamer_close streamer s = kfree streamer s"

section \<open>Reading is taking a slice of the image\<close>

lemma slice_read_bytes:
  "i + n \<le> k \<Longrightarrow> slice (read_bytes img p k) i n = read_bytes img (p + int i) n"
  by (auto intro!: nth_equalityI simp: slice_def algebra_simps)

lemma position_split:
  assumes "0 \<le> pos" "pos < 2147483648"
  obtains sector offset where "pos sdiv 512 = sector" "pos smod 512 = offset" "u32 sector = sector"
    "0 \<le> sector" "sector < 4194304" "0 \<le> offset" "offset < 512" "pos = 512 * sector + offset"
proof -
  have "pos div 512 < 4194304" using assms by auto
  then show thesis
    using assms by (intro that [of "pos div 512" "pos mod 512"]) (auto simp: sdiv_nonneg smod_nonneg)
qed

context sector_device
begin

text \<open>
  A stream on the root disk whose whole range of bytes lies below 2 GB reads that range, and
  advances by its length; only the device and the position change.
\<close>

lemma stream_read:
  "good (dev s) \<Longrightarrow> streamers s p = Some \<lparr>ds_pos = pos, ds_disk = Some Root_disk\<rparr> \<Longrightarrow>
     0 \<le> pos \<Longrightarrow> pos < 2147483648 \<Longrightarrow> pos + n < 2147483648 \<Longrightarrow>
     \<exists>d'. good d' \<and> disk_streamer_read_bytes io p n s = Some (0, read_bytes img pos (nat n),
       s\<lparr>dev := d', streamers := (streamers s)(p \<mapsto> \<lparr>ds_pos = pos + max 0 n, ds_disk = Some Root_disk\<rparr>)\<rparr>)"
proof (induction "nat n" arbitrary: n pos s rule: less_induct)
  case less
  show ?case
  proof (cases "n \<le> 0")
    case True
    then show ?thesis
      using less.prems(1,2)
      by (subst disk_streamer_read_bytes.simps)
         (auto intro!: exI [of _ "dev s"] kstate.equality simp: read_bytes_def)
  next
    case False
    obtain sector offset where sp: "pos sdiv 512 = sector" "pos smod 512 = offset" "u32 sector = sector"
      "0 \<le> sector" "sector < 4194304" "0 \<le> offset" "offset < 512" "pos = 512 * sector + offset"
      using position_split [OF less.prems(3,4)] by metis
    obtain d1 where d1: "disk_read_sector io (Some Root_disk) sector 1 s
        = Some (0, read_bytes img (512 * sector) 512, s\<lparr>dev := d1\<rparr>)" "good d1"
      using root_disk_sector [of s sector] less.prems(1) sp by auto
    define k where "k = (if n > 512 - offset then 512 - offset else n)"
    have k: "0 < k" "offset + k \<le> 512" "k \<le> n" using False sp by (auto simp: k_def)
    have "nat offset + nat k \<le> 512" using k sp by linarith
    then have copy: "copy_from (read_bytes img (512 * sector) 512) offset k = Some (read_bytes img pos (nat k))"
      using k sp by (simp add: copy_from_def slice_read_bytes)
    have s32: "s32 (pos + k) = pos + k" using less.prems(3,5) k by simp
    define s1 where "s1 = s\<lparr>dev := d1, streamers := (streamers s)
      (p \<mapsto> \<lparr>ds_pos = pos + k, ds_disk = Some Root_disk\<rparr>)\<rparr>"
    have step: "disk_streamer_read_bytes io p n s =
        (if n > 512 - offset
         then do { (res, rest, s) \<leftarrow> disk_streamer_read_bytes io p (n - k) s1;
                   Some (res, read_bytes img pos (nat k) @ rest, s) }
         else Some (0, read_bytes img pos (nat k), s1))"
      using False less.prems(2) sp(1-3) d1(1) copy s32
      by (subst disk_streamer_read_bytes.simps, cases "n > 512 - offset")
         (simp_all add: k_def s1_def Let_def)
    show ?thesis
    proof (cases "n > 512 - offset")
      case True
      have "nat (n - k) < nat n" using k False by linarith
      then obtain d2 where d2: "good d2" "disk_streamer_read_bytes io p (n - k) s1 = Some (0,
          read_bytes img (pos + k) (nat (n - k)), s1\<lparr>dev := d2, streamers := (streamers s1)
            (p \<mapsto> \<lparr>ds_pos = pos + k + max 0 (n - k), ds_disk = Some Root_disk\<rparr>)\<rparr>)"
        using less.hyps [of "n - k" s1 "pos + k"] less.prems(3,5) d1(2) k by (auto simp: s1_def)
      have "read_bytes img pos (nat k) @ read_bytes img (pos + k) (nat (n - k)) = read_bytes img pos (nat n)"
        using read_bytes_add [of img pos "nat k" "nat (n - k)"] k by (simp flip: nat_add_distrib)
      then show ?thesis
        using True d2 step k by (intro exI [of _ d2]) (auto simp: s1_def intro!: kstate.equality)
    next
      case False
      then have "k = n" by (simp add: k_def)
      then show ?thesis
        using False step d1(2) k by (intro exI [of _ d1]) (auto simp: s1_def intro!: kstate.equality)
    qed
  qed
qed

end


section \<open>Properties\<close>

text \<open>C31: on an ATA drive a stream of the root disk reads exactly the bytes of the disk image from
its position on, across any number of sector boundaries, advances by the number of bytes read,
and changes nothing else, provided the range ends below 2 GB, the limit of the \<open>int\<close> position.\<close>

theorem stream_reads_image:
  assumes "ata_laws io drv" and "idle_drive img (drv (dev s))"
    and "streamers s p = Some \<lparr>ds_pos = pos, ds_disk = Some Root_disk\<rparr>"
    and "0 \<le> pos" and "pos < 2147483648" and "pos + n < 2147483648"
  shows "\<exists>d'. idle_drive img (drv d')
    \<and> disk_streamer_read_bytes io p n s = Some (0, read_bytes img pos (nat n), s\<lparr>dev := d',
        streamers := (streamers s)(p \<mapsto> \<lparr>ds_pos = pos + max 0 n, ds_disk = Some Root_disk\<rparr>)\<rparr>)"
  by (rule sector_device.stream_read [OF ata_sector_device [OF assms(1)] assms(2-6)])

definition stream_state :: "(int \<Rightarrow> byte) \<Rightarrow> int \<Rightarrow> ata kstate" where
  "stream_state img pos = (initial_state (blank_drive img))
     \<lparr>streamers := [4096 \<mapsto> \<lparr>ds_pos = pos, ds_disk = Some Root_disk\<rparr>]\<rparr>"

lemma stream_state_facts:
  "idle_drive img (dev (stream_state img pos))"
  "streamers (stream_state img pos) 4096 = Some \<lparr>ds_pos = pos, ds_disk = Some Root_disk\<rparr>"
  by (simp_all add: stream_state_def initial_state_def blank_drive_def idle_drive_def)

theorem stream_reads_image_witness:
  "\<exists>s'. disk_streamer_read_bytes ata_ports 4096 5 (stream_state word_of_int 510)
      = Some (0, [254, 255, 0, 1, 2], s')"
proof -
  have "read_bytes word_of_int 510 5 = [254, 255, 0, 1, 2]" by (simp add: read_bytes_def upt_rec)
  then show ?thesis
    using stream_reads_image [OF ata_ports_laws _ stream_state_facts(2) [of word_of_int 510], of word_of_int 5]
      stream_state_facts(1) by fastforce
qed

text \<open>Reading \<open>n\<close> bytes and then \<open>k\<close> more is reading \<open>n + k\<close> bytes at once: the same bytes, the
same final position.\<close>

theorem stream_read_append:
  assumes "ata_laws io drv" and "idle_drive img (drv (dev s))"
    and "streamers s p = Some \<lparr>ds_pos = pos, ds_disk = Some Root_disk\<rparr>"
    and "0 \<le> pos" and "0 \<le> n" and "0 \<le> k" and "pos + n + k < 2147483648"
  shows "\<exists>bs bs' s1 s2 s3. disk_streamer_read_bytes io p n s = Some (0, bs, s1)
    \<and> disk_streamer_read_bytes io p k s1 = Some (0, bs', s2)
    \<and> disk_streamer_read_bytes io p (n + k) s = Some (0, bs @ bs', s3)
    \<and> streamers s2 = streamers s3"
proof -
  note read = sector_device.stream_read [OF ata_sector_device [OF assms(1)], of img _ p]
  obtain d1 where 1: "idle_drive img (drv d1)" "disk_streamer_read_bytes io p n s =
      Some (0, read_bytes img pos (nat n), s\<lparr>dev := d1,
        streamers := (streamers s)(p \<mapsto> \<lparr>ds_pos = pos + n, ds_disk = Some Root_disk\<rparr>)\<rparr>)"
    using read [of s pos n] assms by auto
  let ?s1 = "s\<lparr>dev := d1, streamers := (streamers s)(p \<mapsto> \<lparr>ds_pos = pos + n, ds_disk = Some Root_disk\<rparr>)\<rparr>"
  obtain d2 where 2: "disk_streamer_read_bytes io p k ?s1 =
      Some (0, read_bytes img (pos + n) (nat k), ?s1\<lparr>dev := d2,
        streamers := (streamers ?s1)(p \<mapsto> \<lparr>ds_pos = pos + n + k, ds_disk = Some Root_disk\<rparr>)\<rparr>)"
    using read [of ?s1 "pos + n" k] assms 1(1) by auto
  obtain d3 where 3: "disk_streamer_read_bytes io p (n + k) s =
      Some (0, read_bytes img pos (nat (n + k)), s\<lparr>dev := d3,
        streamers := (streamers s)(p \<mapsto> \<lparr>ds_pos = pos + (n + k), ds_disk = Some Root_disk\<rparr>)\<rparr>)"
    using read [of s pos "n + k"] assms by auto
  have "read_bytes img pos (nat n) @ read_bytes img (pos + n) (nat k) = read_bytes img pos (nat (n + k))"
    using read_bytes_add [of img pos "nat n" "nat k"] assms(5,6) by (simp add: nat_add_distrib)
  then show ?thesis using 1(2) 2 3 by (auto simp: add.assoc)
qed

theorem stream_read_append_witness:
  "\<exists>bs s1 s2 s3. disk_streamer_read_bytes ata_ports 4096 1000 (stream_state word_of_int 100) = Some (0, bs, s1)
    \<and> disk_streamer_read_bytes ata_ports 4096 1500 (stream_state word_of_int 100) = Some (0, bs @ s2, s3)"
  using stream_read_append [OF ata_ports_laws _ stream_state_facts(2) [of word_of_int 100], of word_of_int 1000 500]
    stream_state_facts(1) by fastforce

text \<open>A stream whose disk is not the root disk reads nothing: the error \<open>-EIO\<close>, no bytes, the
same state.\<close>

theorem stream_foreign_disk:
  assumes "streamers s p = Some st" and "ds_disk st \<noteq> Some Root_disk" and "0 < n"
  shows "disk_streamer_read_bytes io p n s = Some (- EIO, [], s)"
  using assms by (subst disk_streamer_read_bytes.simps) (simp add: disk_read_sector_def Let_def)

theorem stream_foreign_disk_witness:
  "disk_streamer_read_bytes ata_ports 8 100 ((stream_state word_of_int 0)
      \<lparr>streamers := [8 \<mapsto> \<lparr>ds_pos = 0, ds_disk = Some (Other_disk 64)\<rparr>]\<rparr>)
    = Some (-1, [], (stream_state word_of_int 0)
      \<lparr>streamers := [8 \<mapsto> \<lparr>ds_pos = 0, ds_disk = Some (Other_disk 64)\<rparr>]\<rparr>)"
  by (subst stream_foreign_disk [where st = "\<lparr>ds_pos = 0, ds_disk = Some (Other_disk 64)\<rparr>"]) simp_all

end
