(* ===== verification/Pparser.thy ===== *)
theory Pparser
  imports Objects Memory
begin

text \<open>
  \<open>fs/pparser.c\<close>: parsing a path \<open>0:/a/b\<close> into a drive number and a linked list of names, and
  releasing the list.  The path is read from the flat memory, and the names are copied into it;
  the list's nodes are objects of the state.
\<close>

section \<open>The operations\<close>

text \<open>A string literal, as an array of its characters ending in NUL.\<close>

definition literal :: "byte list \<Rightarrow> int \<Rightarrow> byte" where
  "literal bs i = (if 0 \<le> i \<and> i < int (length bs) then bs ! nat i else 0)"

text \<open>The result, the advanced pointer and the drive number (0 where the code leaves it).\<close>

definition pparser_parse_drive_no :: "addr \<Rightarrow> 'd kstate \<Rightarrow> int \<times> addr \<times> int" where
  "pparser_parse_drive_no path_str s =
     (let first_byte = kmem s path_str
      in if \<not> is_digit first_byte then (- EINVARG, path_str, 0)
         else (0, path_str + 1, char_to_numeric first_byte))"

definition validate_start_of_path :: "addr \<Rightarrow> 'd kstate \<Rightarrow> int \<times> addr" where
  "validate_start_of_path path_str s =
     (let r = memcmp (literal [0x3A, 0x2F]) (at (kmem s) path_str) 2
      in if r < 0 then (- EINVARG, path_str) else (0, path_str + 2))"

text \<open>\<open>while (*p != '/' && *p != '\0') { p++; name_len++; }\<close>\<close>

partial_function (option) scan_name :: "mem \<Rightarrow> addr \<Rightarrow> int \<Rightarrow> (addr \<times> int) option" where
  "scan_name m p name_len =
     (if m p \<noteq> 0x2F \<and> m p \<noteq> 0 then scan_name m (p + 1) (name_len + 1) else Some (p, name_len))"

definition new_path_part :: "'d kstate \<Rightarrow> addr \<times> 'd kstate" where
  "new_path_part s =
     (let (p, s) = kzalloc 8 s
      in (p, if p = 0 then s else s\<lparr>path_parts := (path_parts s)(p \<mapsto> zero_path_part)\<rparr>))"

partial_function (option) pparser_parse_path_parts ::
    "addr \<Rightarrow> addr \<Rightarrow> 'd kstate \<Rightarrow> (int \<times> addr \<times> 'd kstate) option" where
  "pparser_parse_path_parts path_str path_part s =
     do { (p, name_len) \<leftarrow> scan_name (kmem s) path_str 0;
          let (name, s) = kzalloc (nat (name_len + 1)) s;
          let s = s\<lparr>kmem := memcpy (kmem s) name (p - name_len) (nat name_len)\<rparr>;
          let s = s\<lparr>kmem := (kmem s)(name + name_len := 0)\<rparr>;
          part \<leftarrow> path_parts s path_part;
          let s = s\<lparr>path_parts := (path_parts s)(path_part \<mapsto> part\<lparr>part_name := name\<rparr>)\<rparr>;
          if kmem s p = 0
          then do { part \<leftarrow> path_parts s path_part;
                    Some (0, path_str,
                      s\<lparr>path_parts := (path_parts s)(path_part \<mapsto> part\<lparr>part_next := 0\<rparr>)\<rparr>) }
          else do {
            let (next_part, s) = new_path_part s;
            let path_str = p + 1;
            (r, path_str, s) \<leftarrow> pparser_parse_path_parts path_str next_part s;
            part \<leftarrow> path_parts s path_part;
            if r < 0
            then Some (r, path_str,
                   s\<lparr>path_parts := (path_parts s)(path_part \<mapsto> part\<lparr>part_next := 0\<rparr>)\<rparr>)
            else Some (0, path_str,
                   s\<lparr>path_parts := (path_parts s)(path_part \<mapsto> part\<lparr>part_next := next_part\<rparr>)\<rparr>) } }"

definition PPARSER_MAX_PATH :: int where [simp]: "PPARSER_MAX_PATH = 256"

definition pparser_parse_path_root :: "addr \<Rightarrow> addr \<Rightarrow> 'd kstate \<Rightarrow> (int \<times> 'd kstate) option" where
  "pparser_parse_path_root path_str path_root s =
     do { len \<leftarrow> strlen (at (kmem s) path_str);
          if s32 (int len) > PPARSER_MAX_PATH then Some (- EINVARG, s)
          else
            let (r, p_str, drive) = pparser_parse_drive_no path_str s
            in if r < 0 then Some (r, s)
            else
              let (r, p_str) = validate_start_of_path p_str s
              in if r < 0 then Some (r, s)
              else do {
                let (path_part, s) = new_path_part s;
                (r, p_str, s) \<leftarrow> pparser_parse_path_parts p_str path_part s;
                if r < 0 then Some (r, s)
                else do {
                  root \<leftarrow> path_roots s path_root;
                  Some (0, s\<lparr>path_roots := (path_roots s)
                    (path_root \<mapsto> root\<lparr>drive_no := drive, parts := path_part\<rparr>)\<rparr>) } } }"

partial_function (option) pparser_free_path_part :: "addr \<Rightarrow> 'd kstate \<Rightarrow> 'd kstate option" where
  "pparser_free_path_part path_part s =
     do { part \<leftarrow> path_parts s path_part;
          s \<leftarrow> kfree (part_name part) s;
          part \<leftarrow> path_parts s path_part;
          s \<leftarrow> (if part_next part \<noteq> 0 then pparser_free_path_part (part_next part) s else Some s);
          kfree path_part s }"

definition pparser_free_path_root :: "addr \<Rightarrow> 'd kstate \<Rightarrow> 'd kstate option" where
  "pparser_free_path_root path_root s =
     do { root \<leftarrow> path_roots s path_root;
          s \<leftarrow> pparser_free_path_part (parts root) s;
          kfree path_root s }"


section \<open>Names of a path\<close>

text \<open>The names of a path are the pieces between slashes, empty ones included.\<close>

function split_slash :: "byte list \<Rightarrow> byte list list" where
  "split_slash cs =
     (let n = takeWhile (\<lambda>c. c \<noteq> 0x2F) cs; rest = dropWhile (\<lambda>c. c \<noteq> 0x2F) cs
      in if rest = [] then [n] else n # split_slash (tl rest))"
  by pat_completeness auto
termination
proof (relation "measure length")
  fix cs n rest :: "byte list"
  assume "rest = dropWhile (\<lambda>c. c \<noteq> 0x2F) cs" "rest \<noteq> []"
  moreover have "length (dropWhile (\<lambda>c. c \<noteq> 0x2F) cs) \<le> length cs" by (rule length_dropWhile_le)
  ultimately have "0 < length rest" "length rest \<le> length cs" by auto
  then show "(tl rest, cs) \<in> measure length" by (cases rest) simp_all
qed simp

declare split_slash.simps [simp del]

text \<open>
  \<open>path_list s p nodes names\<close>: from \<open>p\<close> the linked list of nodes \<open>nodes\<close> holds the C strings
  \<open>names\<close>.
\<close>

fun path_list :: "'d kstate \<Rightarrow> addr \<Rightarrow> addr list \<Rightarrow> byte list list \<Rightarrow> bool" where
  "path_list s p [] [] \<longleftrightarrow> p = 0"
| "path_list s p (q # qs) (n # ns) \<longleftrightarrow>
     p = q \<and> p \<noteq> 0 \<and>
     (case path_parts s p of None \<Rightarrow> False
      | Some pt \<Rightarrow> (\<forall>i \<le> length n. settled (kmem s) (part_name pt + int i)) \<and>
          is_cstring (at (kmem s) (part_name pt)) n \<and> path_list s (part_next pt) qs ns)"
| "path_list s p _ _ \<longleftrightarrow> False"

lemma path_list_cong:
  assumes "path_list s p nodes names" and "\<And>q. q \<in> set nodes \<Longrightarrow> path_parts s' q = path_parts s q"
    and keep: "\<And>a. settled (kmem s) a \<Longrightarrow> settled (kmem s') a \<and> kmem s' a = kmem s a"
  shows "path_list s' p nodes names"
  using assms(1,2)
proof (induction nodes arbitrary: p names)
  case Nil
  then show ?case by (cases names) auto
next
  case (Cons q qs)
  then obtain n ns where names: "names = n # ns" by (cases names) auto
  with Cons.prems(1) obtain pt where pt: "p = q" "p \<noteq> 0" "path_parts s p = Some pt"
    "\<forall>i \<le> length n. settled (kmem s) (part_name pt + int i)" "is_cstring (at (kmem s) (part_name pt)) n"
    "path_list s (part_next pt) qs ns"
    by (auto split: option.splits)
  have "at (kmem s') (part_name pt) (int i) = at (kmem s) (part_name pt) (int i)" if "i \<le> length n" for i
    using pt(4) that keep by (simp add: at_def)
  then have "is_cstring (at (kmem s') (part_name pt)) n" using pt(5) by (simp add: is_cstring_def)
  with pt Cons names keep show ?case by auto
qed

lemma is_cstring_at_Cons:
  "is_cstring (at m p) (c # cs) \<longleftrightarrow> m p = c \<and> c \<noteq> 0 \<and> is_cstring (at m (p + 1)) cs"
  by (auto simp: is_cstring_def at_def All_less_Suc2 algebra_simps)

lemma is_cstring_at_append:
  "is_cstring (at m p) (xs @ ys) \<longleftrightarrow>
     (\<forall>i < length xs. m (p + int i) = xs ! i) \<and> 0 \<notin> set xs \<and> is_cstring (at m (p + int (length xs))) ys"
  by (induction xs arbitrary: p) (auto simp: is_cstring_at_Cons All_less_Suc2 algebra_simps)

lemma scan_name_first:
  assumes "is_cstring (at m p) (n @ rest)" and "0x2F \<notin> set n" and "rest = [] \<or> hd rest = 0x2F"
  shows "scan_name m p k = Some (p + int (length n), k + int (length n))"
  using assms
proof (induction n arbitrary: p k)
  case Nil
  then have "m p = 0 \<or> m p = 0x2F"
    by (cases rest) (auto simp: is_cstring_at_Cons is_cstring_def at_def)
  then show ?case by (subst scan_name.simps) auto
next
  case (Cons c n)
  then have "m p = c" "c \<noteq> 0" "c \<noteq> 0x2F" by (auto simp: is_cstring_at_Cons)
  then show ?case
    using Cons.IH [of "p + 1" "k + 1"] Cons.prems
    by (subst scan_name.simps) (auto simp: is_cstring_at_Cons)
qed

lemma split_slash_parts:
  obtains n rest where "cs = n @ rest" "0x2F \<notin> set n" "rest = [] \<or> hd rest = 0x2F"
    "split_slash cs = (if rest = [] then [n] else n # split_slash (tl rest))"
proof (rule that [of "takeWhile (\<lambda>c. c \<noteq> 0x2F) cs" "dropWhile (\<lambda>c. c \<noteq> 0x2F) cs"])
  show "0x2F \<notin> set (takeWhile (\<lambda>c. c \<noteq> 0x2F) cs)" by (auto dest: set_takeWhileD)
  show "dropWhile (\<lambda>c. c \<noteq> 0x2F) cs = [] \<or> hd (dropWhile (\<lambda>c. c \<noteq> 0x2F) cs) = 0x2F"
    using hd_dropWhile [of "\<lambda>c. c \<noteq> 0x2F" cs] by auto
  show "split_slash cs = (if dropWhile (\<lambda>c. c \<noteq> 0x2F) cs = [] then [takeWhile (\<lambda>c. c \<noteq> 0x2F) cs]
      else takeWhile (\<lambda>c. c \<noteq> 0x2F) cs # split_slash (tl (dropWhile (\<lambda>c. c \<noteq> 0x2F) cs)))"
    by (subst split_slash.simps) (simp add: Let_def)
qed simp

lemma path_list_parts: "path_list s p nodes names \<Longrightarrow> a \<in> set nodes \<Longrightarrow> path_parts s a \<noteq> None"
  by (induction s p nodes names rule: path_list.induct) (auto split: option.splits)

lemma path_list_length: "path_list s p nodes names \<Longrightarrow> length nodes = length names"
  by (induction s p nodes names rule: path_list.induct) (auto split: option.splits)

text \<open>Copying a name of settled bytes into a fresh page.\<close>

lemma copy_name:
  assumes m1: "\<And>a. settled m a \<Longrightarrow> settled m1 a \<and> m1 a = m a"
    and page: "\<And>a. p \<le> a \<Longrightarrow> a < p + 4096 \<Longrightarrow> owned kernel_heap m1 a"
      "\<And>a. p \<le> a \<Longrightarrow> a < p + 4096 \<Longrightarrow> \<not> owned kernel_heap m a"
    and src: "\<And>i. i < length n \<Longrightarrow> settled m (q + int i) \<and> m (q + int i) = n ! i"
    and n: "0 \<notin> set n" "length n < 4096"
    and m2: "m2 = (memcpy m1 p q (length n))(p + int (length n) := 0)"
  shows "is_cstring (at m2 p) n" "settled m a \<Longrightarrow> settled m2 a \<and> m2 a = m a"
    "spare_pages m2 = spare_pages m1"
    "owned kernel_heap m2 a = owned kernel_heap m1 a" "a < 16777216 \<Longrightarrow> m2 a = m1 a"
proof -
  have pool: "16777216 \<le> p \<and> p + 4095 < 121634816"
    using owned_pool [OF page(1) [of p]] owned_pool [OF page(1) [of "p + 4095"]] by simp
  have off: "\<not> (p \<le> a \<and> a < p + 4096)" if "settled m a" for a
    using that page(2) [of a] pool by (auto simp: settled_def)
  have "p \<le> q \<or> q + int (length n) \<le> p"
  proof (rule ccontr)
    assume "\<not> ?thesis"
    then have "nat (p - q) < length n" "q + int (nat (p - q)) = p" by linarith+
    then show False using src [of "nat (p - q)"] off [of p] by auto
  qed
  then have m2': "m2 = (write_bytes m1 p (read_bytes m1 q (length n)))(p + int (length n) := 0)"
    using m2 by (simp add: memcpy_eq)
  have "read_bytes m1 q (length n) = n"
    using src m1 by (intro nth_equalityI) auto
  then have m2': "m2 = (write_bytes m1 p n)(p + int (length n) := 0)" using m2' by simp
  then show "is_cstring (at m2 p) n"
    using n(1) by (auto simp: is_cstring_def at_def write_bytes_in)
  have low: "m2 a = m1 a" if "a < p \<or> p + 4096 \<le> a" for a
    using that n(2) by (auto simp: m2' write_bytes_out)
  then have above: "m2 a = m1 a" if "a < 57856" for a using that pool by simp
  then show "spare_pages m2 = spare_pages m1"
    "owned kernel_heap m2 a = owned kernel_heap m1 a"
    using above_table_frame [of kernel_heap m2 m1] by auto
  show "a < 16777216 \<Longrightarrow> m2 a = m1 a" using low pool by simp
  show "settled m a \<Longrightarrow> settled m2 a \<and> m2 a = m a"
    using m1 [of a] off [of a] low [of a] settled_above_table [of m2 m1 a] above by auto
qed


text \<open>What parsing leaves alone.\<close>

definition parse_frame :: "'d kstate \<Rightarrow> 'd kstate \<Rightarrow> bool" where
  "parse_frame s s' \<longleftrightarrow>
     s' = s\<lparr>kmem := kmem s', path_parts := path_parts s'\<rparr> \<and> grows (kmem s) (kmem s')"

lemma parse_frame_trans:
  assumes "parse_frame s s'" and "parse_frame s' s''"
  shows "parse_frame s s''"
proof -
  have "s'' = s'\<lparr>kmem := kmem s'', path_parts := path_parts s''\<rparr>" using assms(2) by (simp add: parse_frame_def)
  also have "s' = s\<lparr>kmem := kmem s', path_parts := path_parts s'\<rparr>" using assms(1) by (simp add: parse_frame_def)
  finally have "s'' = s\<lparr>kmem := kmem s'', path_parts := path_parts s''\<rparr>" by simp
  with assms show ?thesis using grows_trans by (auto simp: parse_frame_def)
qed

lemma parse_frame_roots: "parse_frame s s' \<Longrightarrow> path_roots s' = path_roots s"
proof -
  assume "parse_frame s s'"
  then have "s' = s\<lparr>kmem := kmem s', path_parts := path_parts s'\<rparr>" by (simp add: parse_frame_def)
  then have "path_roots s' = path_roots (s\<lparr>kmem := kmem s', path_parts := path_parts s'\<rparr>)" by (rule arg_cong)
  then show ?thesis by simp
qed

lemma parse_frame_parts:
  assumes "parse_frame s s'"
  shows "parse_frame s (s'\<lparr>path_parts := x\<rparr>)"
proof -
  have "s' = s\<lparr>kmem := kmem s', path_parts := path_parts s'\<rparr>" using assms by (simp add: parse_frame_def)
  then have "s'\<lparr>path_parts := x\<rparr> = s\<lparr>kmem := kmem s', path_parts := path_parts s'\<rparr>\<lparr>path_parts := x\<rparr>"
    by (rule arg_cong)
  then have "s'\<lparr>path_parts := x\<rparr> = s\<lparr>kmem := kmem s', path_parts := x\<rparr>" by simp
  then show ?thesis using assms by (simp add: parse_frame_def)
qed

lemma parse_frame_keeps:
  "parse_frame s s' \<Longrightarrow> settled (kmem s) a \<Longrightarrow> settled (kmem s') a \<and> kmem s' a = kmem s a"
  by (simp add: parse_frame_def grows_def)

lemma is_cstring_cong: "(\<And>i. i \<le> length cs \<Longrightarrow> m' (p + int i) = m (p + int i)) \<Longrightarrow>
    is_cstring (at m p) cs \<Longrightarrow> is_cstring (at m' p) cs"
  by (simp add: is_cstring_def at_def)

text \<open>A page that belongs to no object and was not in use before.\<close>

definition name_page :: "'d kstate \<Rightarrow> mem \<Rightarrow> addr \<Rightarrow> bool" where
  "name_page s m p \<longleftrightarrow> page_start (kmem s) p \<and> inhabitants s p = 0 \<and> \<not> owned kernel_heap m p"

text \<open>The first half of a step: the name is allocated, copied and stored in the node.\<close>

lemma parse_one_name:
  assumes ok: "heap_ok s" and free: "0 < spare_pages (kmem s)"
    and part: "path_parts s part = Some pt"
    and str: "is_cstring (at (kmem s) q) (n @ rest)" "\<forall>i \<le> length (n @ rest). settled (kmem s) (q + int i)"
    and n: "length n < 4000"
  obtains p m s2 where "kzalloc (nat (int (length n) + 1)) s = (p, s\<lparr>kmem := m\<rparr>)"
    "s2 = s\<lparr>kmem := (memcpy m p q (length n))(p + int (length n) := 0),
       path_parts := (path_parts s)(part \<mapsto> pt\<lparr>part_name := p\<rparr>)\<rparr>"
    "parse_frame s s2" "heap_ok s2" "is_cstring (at (kmem s2) p) n"
    "\<forall>i \<le> length n. settled (kmem s2) (p + int i)" "name_page s2 (kmem s) p"
    "spare_pages (kmem s) = Suc (spare_pages (kmem s2))"
proof -
  obtain p m where z: "kzalloc (length n + 1) s = (p, s\<lparr>kmem := m\<rparr>)" "heap_ok (s\<lparr>kmem := m\<rparr>)"
    and start: "page_start m p" "inhabitants s p = 0" "\<not> owned kernel_heap (kmem s) p"
    and fp: "spare_pages (kmem s) = Suc (spare_pages m)" and grow: "grows (kmem s) m"
    and page: "\<And>a. p \<le> a \<Longrightarrow> a < p + 4096 \<Longrightarrow> owned kernel_heap m a"
    by (rule kzalloc_page [OF ok free, of "length n + 1"]) (use n in auto)
  have fresh: "\<not> owned kernel_heap (kmem s) a" if "p \<le> a" "a < p + 4096" for a
    using owned_page [OF _ that] start by (simp add: page_start_def)
  define m2 where "m2 = (memcpy m p q (length n))(p + int (length n) := 0)"
  have keep: "settled m a \<and> m a = kmem s a" if "settled (kmem s) a" for a
    using growsD [OF grow] that by blast
  have src: "settled (kmem s) (q + int i) \<and> kmem s (q + int i) = n ! i" if "i < length n" for i
    using str that by (auto simp: is_cstring_at_append)
  have nz: "0 \<notin> set n" using str(1) by (simp add: is_cstring_at_append)
  have len: "length n < 4096" using n by simp
  note copy = copy_name [OF keep page fresh src nz len m2_def]
  let ?s2 = "s\<lparr>kmem := m2, path_parts := (path_parts s)(part \<mapsto> pt\<lparr>part_name := p\<rparr>)\<rparr>"
  have same: "m2 a = kmem (s\<lparr>kmem := m\<rparr>) a" if "a < 57857" for a using copy(5) that by simp
  have "heap_ok (s\<lparr>kmem := m2\<rparr>)" using heap_ok_above(1) [OF z(2) same] by simp
  then have "heap_ok ?s2" using heap_ok_update(2) [of "s\<lparr>kmem := m2\<rparr>" part pt] part by simp
  moreover have "page_start m2 p" using heap_ok_above(2) [OF z(2) same] start by simp
  then have "name_page ?s2 (kmem s) p"
    using start part by (auto simp: name_page_def inhabitants_def)
  moreover have "settled m2 (p + int i)" if "i \<le> length n" for i
    using copy(4) page [of "p + int i"] that len by (intro owned_settled) simp
  moreover have "nat (int (length n) + 1) = length n + 1" by simp
  moreover have "parse_frame s ?s2"
    using copy(2,4) growsD(1) [OF grow] by (simp add: parse_frame_def grows_def)
  ultimately show thesis using z(1) copy(1,3) fp by (intro that [of p m ?s2]) (simp_all add: m2_def)
qed

lemma new_path_part_granted:
  assumes ok: "heap_ok s" and free: "0 < spare_pages (kmem s)"
  obtains p m s' where "new_path_part s = (p, s')"
    "s' = s\<lparr>kmem := m, path_parts := (path_parts s)(p \<mapsto> zero_path_part)\<rparr>"
    "p \<noteq> 0" "inhabitants s p = 0" "\<not> owned kernel_heap (kmem s) p" "parse_frame s s'" "heap_ok s'"
    "spare_pages (kmem s) = Suc (spare_pages (kmem s'))"
proof (rule kzalloc_page [OF ok free, of 8])
  fix p m
  assume z: "kzalloc 8 s = (p, s\<lparr>kmem := m\<rparr>)" "0 < p" "heap_ok (s\<lparr>kmem := m\<rparr>)" "page_start m p"
    "inhabitants s p = 0" "\<not> owned kernel_heap (kmem s) p"
    "spare_pages (kmem s) = Suc (spare_pages m)" "grows (kmem s) m"
  have "inhabitants (s\<lparr>kmem := m\<rparr>) p = 0" using z(5) by (simp add: inhabitants_def)
  then have "heap_ok (s\<lparr>kmem := m, path_parts := (path_parts s)(p \<mapsto> zero_path_part)\<rparr>)"
    using heap_ok_new(2) [OF z(3), of p zero_path_part] z(4) by simp
  then show thesis
    using z by (intro that [OF _ refl]) (simp_all add: new_path_part_def parse_frame_def)
qed simp_all

lemma parse_step:
  assumes "scan_name (kmem s) q 0 = Some (e, l)" and "kzalloc (nat (l + 1)) s = (p, s1)"
    and "m2 = (memcpy (kmem s1) p (e - l) (nat l))(p + l := 0)" and "path_parts s1 part = Some pt"
    and "s2 = s1\<lparr>kmem := m2, path_parts := (path_parts s1)(part \<mapsto> pt\<lparr>part_name := p\<rparr>)\<rparr>"
  shows "pparser_parse_path_parts q part s =
     (if m2 e = 0
      then Some (0, q, s2\<lparr>path_parts := (path_parts s1)(part \<mapsto> pt\<lparr>part_name := p, part_next := 0\<rparr>)\<rparr>)
      else do {
        let (next_part, s) = new_path_part s2;
        (r, path_str, s) \<leftarrow> pparser_parse_path_parts (e + 1) next_part s;
        part' \<leftarrow> path_parts s part;
        if r < 0
        then Some (r, path_str, s\<lparr>path_parts := (path_parts s)(part \<mapsto> part'\<lparr>part_next := 0\<rparr>)\<rparr>)
        else Some (0, path_str, s\<lparr>path_parts := (path_parts s)(part \<mapsto> part'\<lparr>part_next := next_part\<rparr>)\<rparr>) })"
  using assms(1,2,4) unfolding assms(5,3)
  by (subst pparser_parse_path_parts.simps) (simp only: Let_def case_prod_conv bind.bind_lunit
      kstate.select_convs kstate.update_convs kstate.surjective fun_upd_same, simp add: Let_def)

text \<open>The pages of the names of some nodes.\<close>

definition name_pages :: "'d kstate \<Rightarrow> addr list \<Rightarrow> addr list" where
  "name_pages s nodes = map (\<lambda>q. part_name (the (path_parts s q))) nodes"

lemma inhabitants_parse:
  assumes "parse_frame s s'" and "path_parts s' a = None \<longleftrightarrow> path_parts s a = None"
  shows "inhabitants s' a = inhabitants s a"
proof -
  have "s' = s\<lparr>kmem := kmem s', path_parts := path_parts s'\<rparr>" using assms(1) by (simp add: parse_frame_def)
  then have "inhabitants s' a = inhabitants (s\<lparr>kmem := kmem s', path_parts := path_parts s'\<rparr>) a"
    by (rule arg_cong)
  then show ?thesis using assms(2) by (simp add: inhabitants_def)
qed

text \<open>
  What parsing the rest of a path at \<open>q\<close> into the node \<open>part\<close> leads to: the list of the names, on
  new nodes and with new pages for the names, and no other change.
\<close>

definition parsed :: "'d kstate \<Rightarrow> 'd kstate \<Rightarrow> addr \<Rightarrow> addr list \<Rightarrow> byte list list \<Rightarrow> bool" where
  "parsed s s' part nodes names \<longleftrightarrow>
     path_list s' part (part # nodes) names \<and> parse_frame s s' \<and> heap_ok s' \<and>
     distinct (part # nodes) \<and> (\<forall>a \<in> set nodes. \<not> owned kernel_heap (kmem s) a) \<and>
     (\<forall>a. a \<notin> set (part # nodes) \<longrightarrow> path_parts s' a = path_parts s a) \<and>
     distinct (name_pages s' (part # nodes)) \<and>
     (\<forall>p \<in> set (name_pages s' (part # nodes)). name_page s' (kmem s) p) \<and>
     Suc (spare_pages (kmem s)) = spare_pages (kmem s') + 2 * length names"

text \<open>Putting a first name before a parsed rest.\<close>

lemma parsed_Cons:
  assumes ok: "heap_ok s" and part: "path_parts s part = Some pt" "part \<noteq> 0"
    and s2: "s2 = s\<lparr>kmem := m2, path_parts := (path_parts s)(part \<mapsto> pt\<lparr>part_name := p\<rparr>)\<rparr>"
    and f2: "parse_frame s s2" "heap_ok s2" "is_cstring (at m2 p) n" "\<forall>i \<le> length n. settled m2 (p + int i)"
      "name_page s2 (kmem s) p" "spare_pages (kmem s) = Suc (spare_pages m2)"
    and s3: "s3 = s2\<lparr>kmem := m3, path_parts := (path_parts s2)(np \<mapsto> zero_path_part)\<rparr>"
    and f3: "parse_frame s2 s3" "heap_ok s3" "\<not> owned kernel_heap m2 np"
      "spare_pages m2 = Suc (spare_pages m3)"
    and p4: "parsed s3 s4 np nodes names"
    and s5: "s5 = s4\<lparr>path_parts := (path_parts s4)(part \<mapsto> pt\<lparr>part_name := p, part_next := np\<rparr>)\<rparr>"
  shows "path_parts s4 part = Some (pt\<lparr>part_name := p\<rparr>)" and "parsed s s5 part (np # nodes) (n # names)"
proof -
  have f4: "path_list s4 np (np # nodes) names" "parse_frame s3 s4" "heap_ok s4" "distinct (np # nodes)"
    "\<And>a. a \<in> set nodes \<Longrightarrow> \<not> owned kernel_heap m3 a"
    "\<And>a. a \<notin> set (np # nodes) \<Longrightarrow> path_parts s4 a = path_parts s3 a"
    "distinct (name_pages s4 (np # nodes))"
    "\<And>p. p \<in> set (name_pages s4 (np # nodes)) \<Longrightarrow> name_page s4 m3 p"
    "Suc (spare_pages m3) = spare_pages (kmem s4) + 2 * length names"
    using p4 by (simp_all add: parsed_def s3)
  have grow: "grows (kmem s) m2" "grows m2 m3" "grows m3 (kmem s4)"
    using f2(1) f3(1) f4(2) by (simp_all add: parse_frame_def s2 s3)
  note own = growsD(1) [OF grow(1)] growsD(1) [OF grow(2)] growsD(1) [OF grow(3)]
  have new: "a \<notin> set (np # nodes)" if "owned kernel_heap m2 a" for a
    using that f3(3) f4(5) own(2) [of a] by auto
  have "owned kernel_heap (kmem s) part"
    using inhabitant_cases(7) [OF ok part(1)] by (simp add: page_start_def)
  then have notin: "part \<notin> set (np # nodes)" using new own(1) by blast
  then show part4: "path_parts s4 part = Some (pt\<lparr>part_name := p\<rparr>)"
    using f4(6) [of part] by (simp add: s3 s2)
  have list: "path_list s5 np (np # nodes) names"
    by (rule path_list_cong [OF f4(1)]) (use notin in \<open>auto simp: s5\<close>)
  have keep: "settled (kmem s4) a \<and> kmem s4 a = m2 a" if "settled m2 a" for a
    using growsD(2,3) [OF grow(2)] growsD(2,3) [OF grow(3)] that by metis
  have "\<forall>i \<le> length n. settled (kmem s4) (p + int i)" using keep f2(4) by blast
  moreover have "is_cstring (at (kmem s4) p) n"
    by (rule is_cstring_cong [OF _ f2(3)]) (use keep f2(4) in blast)
  ultimately have 1: "path_list s5 part (part # np # nodes) (n # names)"
    using list part(2) by (simp add: s5)
  have 2: "parse_frame s s5" unfolding s5
    by (rule parse_frame_parts, rule parse_frame_trans [OF parse_frame_trans [OF f2(1) f3(1)] f4(2)])
  have 3: "heap_ok s5" using f4(3) part4 by (simp add: s5 heap_ok_update)
  have 4: "\<not> owned kernel_heap (kmem s) a" if "a \<in> set (np # nodes)" for a
    using new [of a] own(1) [of a] that by blast
  have 5: "path_parts s5 a = path_parts s a" if "a \<notin> set (part # np # nodes)" for a
    using that f4(6) [of a] by (simp add: s5 s3 s2)
  have inh: "inhabitants s5 a = inhabitants s2 a" if "owned kernel_heap m2 a" for a
  proof (rule inhabitants_parse)
    show "parse_frame s2 s5" unfolding s5
      by (rule parse_frame_parts, rule parse_frame_trans [OF f3(1) f4(2)])
    show "path_parts s5 a = None \<longleftrightarrow> path_parts s2 a = None"
      using new [OF that] f4(6) [of a] by (simp add: s5 s3 s2)
  qed
  have p2: "page_start m2 p" "inhabitants s2 p = 0" "\<not> owned kernel_heap (kmem s) p"
    using f2(5) by (simp_all add: name_page_def s2)
  then have p_own: "owned kernel_heap m2 p" "owned kernel_heap m3 p"
    using own(2) by (simp_all add: page_start_def)
  have 6: "name_page s5 (kmem s) p"
    using page_start_grows [OF grow(3) page_start_grows [OF grow(2) p2(1)]] inh [OF p_own(1)] p2(2,3)
    by (simp add: name_page_def s5)
  have "path_parts s5 q = path_parts s4 q" if "q \<in> set (np # nodes)" for q
    using that notin by (auto simp: s5)
  then have names: "name_pages s5 (part # np # nodes) = p # name_pages s4 (np # nodes)"
    by (auto simp: name_pages_def s5)
  have 7: "name_page s5 (kmem s) r" if "r \<in> set (name_pages s4 (np # nodes))" for r
  proof -
    have r: "name_page s4 m3 r" using f4(8) [OF that] .
    have "\<not> owned kernel_heap (kmem s) r" using r own(1,2) by (auto simp: name_page_def)
    moreover have "inhabitants s5 r = inhabitants s4 r"
      unfolding s5 using part4 by (simp add: inhabitants_def)
    ultimately show ?thesis using r by (simp add: name_page_def s5)
  qed
  have "p \<notin> set (name_pages s4 (np # nodes))"
    using f4(8) [of p] p_own(2) by (auto simp: name_page_def)
  then have 8: "distinct (name_pages s5 (part # np # nodes))"
    using f4(7) by (simp add: names)
  have "Suc (spare_pages (kmem s)) = spare_pages (kmem s5) + 2 * length (n # names)"
    using f2(6) f3(4) f4(9) by (simp add: s5)
  then show "parsed s s5 part (np # nodes) (n # names)"
    using 1 2 3 4 5 6 7 8 notin f4(4) by (auto simp: parsed_def names)
qed

lemma parse_parts_list:
  assumes "heap_ok s" and "path_parts s part = Some pt" and "part \<noteq> 0"
    and "is_cstring (at (kmem s) q) cs" and "\<forall>i \<le> length cs. settled (kmem s) (q + int i)"
    and "length cs < 4000" and "2 * length (split_slash cs) \<le> Suc (spare_pages (kmem s))"
  shows "\<exists>q' s' nodes. pparser_parse_path_parts q part s = Some (0, q', s') \<and>
      parsed s s' part nodes (split_slash cs)"
  using assms
proof (induction "length cs" arbitrary: cs q part pt s rule: less_induct)
  case less
  obtain n rest where cs: "cs = n @ rest" and n: "0x2F \<notin> set n" and hd: "rest = [] \<or> hd rest = 0x2F"
    and split: "split_slash cs = (if rest = [] then [n] else n # split_slash (tl rest))"
    using split_slash_parts [of cs] by blast
  have len: "length n < 4000" using less.prems(6) cs by simp
  have free: "0 < spare_pages (kmem s)" using less.prems(7) split by (auto split: if_splits)
  note str = less.prems(4,5) [unfolded cs]
  have scan: "scan_name (kmem s) q 0 = Some (q + int (length n), int (length n))"
    using scan_name_first [OF str(1) n hd, of 0] by simp
  obtain p m s2 where z: "kzalloc (nat (int (length n) + 1)) s = (p, s\<lparr>kmem := m\<rparr>)"
    and s2: "s2 = s\<lparr>kmem := (memcpy m p q (length n))(p + int (length n) := 0),
       path_parts := (path_parts s)(part \<mapsto> pt\<lparr>part_name := p\<rparr>)\<rparr>"
    and f2: "parse_frame s s2" "heap_ok s2" "is_cstring (at (kmem s2) p) n"
      "\<forall>i \<le> length n. settled (kmem s2) (p + int i)" "name_page s2 (kmem s) p"
      "spare_pages (kmem s) = Suc (spare_pages (kmem s2))"
    by (rule parse_one_name [OF less.prems(1) free less.prems(2) str len])
  define m2 where "m2 = kmem s2"
  have m2: "m2 = (memcpy m p q (length n))(p + int (length n) := 0)" by (simp add: m2_def s2)
  have s2: "s2 = s\<lparr>kmem := m2, path_parts := (path_parts s)(part \<mapsto> pt\<lparr>part_name := p\<rparr>)\<rparr>"
    by (simp add: s2 m2)
  note f2 = f2 [folded m2_def]
  have stop: "m2 (q + int (length n)) = kmem s (q + int (length n))"
    using parse_frame_keeps [OF f2(1)] str(2) by (simp add: m2_def)
  have step: "pparser_parse_path_parts q part s =
     (if m2 (q + int (length n)) = 0
      then Some (0, q, s2\<lparr>path_parts := (path_parts s)(part \<mapsto> pt\<lparr>part_name := p, part_next := 0\<rparr>)\<rparr>)
      else do {
        let (next_part, s) = new_path_part s2;
        (r, path_str, s) \<leftarrow> pparser_parse_path_parts (q + int (length n) + 1) next_part s;
        part' \<leftarrow> path_parts s part;
        if r < 0
        then Some (r, path_str, s\<lparr>path_parts := (path_parts s)(part \<mapsto> part'\<lparr>part_next := 0\<rparr>)\<rparr>)
        else Some (0, path_str, s\<lparr>path_parts := (path_parts s)(part \<mapsto> part'\<lparr>part_next := next_part\<rparr>)\<rparr>) })"
    using parse_step [OF scan z, of m2 part pt s2] less.prems(2) by (simp add: s2 m2)
  show ?case
  proof (cases "rest = []")
    case True
    have "kmem s (q + int (length n)) = 0" using str(1) True by (simp add: is_cstring_def at_def)
    then have run: "pparser_parse_path_parts q part s =
        Some (0, q, s2\<lparr>path_parts := (path_parts s)(part \<mapsto> pt\<lparr>part_name := p, part_next := 0\<rparr>)\<rparr>)"
      using step stop by simp
    let ?s' = "s2\<lparr>path_parts := (path_parts s)(part \<mapsto> pt\<lparr>part_name := p, part_next := 0\<rparr>)\<rparr>"
    have s': "?s' = s2\<lparr>path_parts := (path_parts s2)(part \<mapsto> pt\<lparr>part_name := p, part_next := 0\<rparr>)\<rparr>"
      by (simp add: s2)
    have "heap_ok ?s'" unfolding s' using f2(2) by (subst heap_ok_update(2)) (simp_all add: s2)
    moreover have "inhabitants ?s' p = inhabitants s2 p"
      unfolding s' by (simp add: inhabitants_def s2)
    moreover have "parse_frame s ?s'" by (rule parse_frame_parts [OF f2(1)])
    ultimately have "parsed s ?s' part [] [n]"
      using f2 less.prems(3) by (simp add: parsed_def name_pages_def name_page_def s2)
    then show ?thesis using run True split by auto
  next
    case False
    then obtain rs where rest: "rest = 0x2F # rs" using hd by (cases rest) auto
    have slash: "kmem s (q + int (length n)) = 0x2F" "is_cstring (at (kmem s) (q + int (length n) + 1)) rs"
      using str(1) by (simp_all add: rest is_cstring_at_append is_cstring_at_Cons)
    have split': "split_slash cs = n # split_slash rs" using split rest by simp
    have "split_slash rs \<noteq> []" by (rule split_slash_parts [of rs]) auto
    then have l1: "1 \<le> length (split_slash rs)" by (simp add: Suc_le_eq)
    have free2: "0 < spare_pages (kmem s2)"
      using less.prems(7) f2(6) l1 split' by (simp add: m2_def)
    obtain np m3 s3 where np: "new_path_part s2 = (np, s3)"
      and s3: "s3 = s2\<lparr>kmem := m3, path_parts := (path_parts s2)(np \<mapsto> zero_path_part)\<rparr>"
      and f3: "np \<noteq> 0" "inhabitants s2 np = 0" "\<not> owned kernel_heap (kmem s2) np" "parse_frame s2 s3" "heap_ok s3"
        "spare_pages (kmem s2) = Suc (spare_pages (kmem s3))"
      by (rule new_path_part_granted [OF f2(2) free2])
    have keep3: "settled (kmem s3) a \<and> kmem s3 a = kmem s a" if "settled (kmem s) a" for a
      using parse_frame_keeps [OF parse_frame_trans [OF f2(1) f3(4)] that] .
    let ?q = "q + int (length n) + 1"
    have settled: "settled (kmem s) (?q + int i)" if "i \<le> length rs" for i
      using str(2) [rule_format, of "length n + 1 + i"] that rest by (simp add: algebra_simps)
    have str3: "is_cstring (at (kmem s3) ?q) rs" "\<forall>i \<le> length rs. settled (kmem s3) (?q + int i)"
      using slash(2) settled keep3 by (auto simp: is_cstring_def at_def)
    have cond: "length rs < length cs" "path_parts s3 np = Some zero_path_part"
      "length rs < 4000" "2 * length (split_slash rs) \<le> Suc (spare_pages (kmem s3))"
      using cs rest less.prems(6,7) f2(6) f3(6) split' by (simp_all add: m2_def s3)
    from less.hyps [OF cond(1) f3(5) cond(2) f3(1) str3 cond(3,4)] obtain q' s4 nodes where
      run: "pparser_parse_path_parts ?q np s3 = Some (0, q', s4)" and p4: "parsed s3 s4 np nodes (split_slash rs)"
      by blast
    let ?s5 = "s4\<lparr>path_parts := (path_parts s4)(part \<mapsto> pt\<lparr>part_name := p, part_next := np\<rparr>)\<rparr>"
    have f3': "\<not> owned kernel_heap m2 np" "spare_pages m2 = Suc (spare_pages m3)"
      using f3(3,6) by (simp_all add: m2_def s3)
    note cons = parsed_Cons [OF less.prems(1-3) s2 f2 s3 f3(4,5) f3' p4 refl]
    have "pparser_parse_path_parts q part s = Some (0, q', ?s5)"
      using step stop slash(1) np run cons(1) by simp
    then show ?thesis using cons(2) split' by metis
  qed
qed

text \<open>Parsing a whole path.\<close>

lemma validate_start_of_path_iff:
  "validate_start_of_path p s =
     (if 0x3A < sint (kmem s p) \<or> kmem s p = 0x3A \<and> 0x2F < sint (kmem s (p + 1))
      then (- EINVARG, p) else (0, p + 2))"
  for p :: int
proof -
  note diff = memcmp_first_diff [of _ 2 "literal [0x3A, 0x2F]" "at (kmem s) p"]
  have "memcmp (literal [0x3A, 0x2F]) (at (kmem s) p) 2 =
      (if kmem s p \<noteq> 0x3A then if 0x3A < sint (kmem s p) then - 1 else 1
       else if kmem s (p + 1) \<noteq> 0x2F then if 0x2F < sint (kmem s (p + 1)) then - 1 else 1 else 0)"
    using diff [of 0] diff [of 1] memcmp_eq_0_iff [of "literal [0x3A, 0x2F]" "at (kmem s) p" 2]
    by (auto simp: literal_def at_def less_2_cases_iff)
  then show ?thesis by (auto simp: validate_start_of_path_def Let_def)
qed

lemma parse_path_root:
  assumes ok: "heap_ok s" and root: "path_roots s root = Some r"
    and str: "is_cstring (at (kmem s) p) (d # 0x3A # 0x2F # cs)" and d: "is_digit d" and len: "length cs \<le> 253"
    and settled: "\<forall>i \<le> length cs + 3. settled (kmem s) (p + int i)"
    and free: "2 * length (split_slash cs) \<le> spare_pages (kmem s)"
  obtains s1 s2 n nodes where
    "pparser_parse_path_root p root s =
       Some (0, s2\<lparr>path_roots := (path_roots s)(root \<mapsto> \<lparr>drive_no = uint d - 48, parts = n\<rparr>)\<rparr>)"
    "parse_frame s s1" "s1 = s\<lparr>kmem := kmem s1, path_parts := (path_parts s)(n \<mapsto> zero_path_part)\<rparr>"
    "\<not> owned kernel_heap (kmem s) n" "inhabitants s n = 0" "parsed s1 s2 n nodes (split_slash cs)"
    "spare_pages (kmem s) = Suc (spare_pages (kmem s1))"
proof -
  have slen: "strlen (at (kmem s) p) = Some (length (d # 0x3A # 0x2F # cs))"
    using str strlen_cstring by blast
  have chars: "kmem s p = d" "kmem s (p + 1) = 0x3A" "kmem s (p + 2) = 0x2F"
    "is_cstring (at (kmem s) (p + 3)) cs"
    using str by (auto simp: is_cstring_at_Cons add.assoc)
  have drive: "pparser_parse_drive_no p s = (0, p + 1, uint d - 48)"
    using d chars(1) uint_eq_sint [of d]
    by (auto simp: pparser_parse_drive_no_def char_to_numeric_def is_digit_def)
  have sep: "validate_start_of_path (p + 1) s = (0, p + 3)"
    using chars by (simp add: validate_start_of_path_iff add.assoc)
  have "split_slash cs \<noteq> []" by (rule split_slash_parts [of cs]) auto
  then have "0 < length (split_slash cs)" by simp
  then have fp: "0 < spare_pages (kmem s)" using free by linarith
  obtain n m s1 where n: "new_path_part s = (n, s1)"
    and s1: "s1 = s\<lparr>kmem := m, path_parts := (path_parts s)(n \<mapsto> zero_path_part)\<rparr>"
    and f1: "n \<noteq> 0" "inhabitants s n = 0" "\<not> owned kernel_heap (kmem s) n" "parse_frame s s1" "heap_ok s1"
      "spare_pages (kmem s) = Suc (spare_pages (kmem s1))"
    by (rule new_path_part_granted [OF ok fp])
  have "settled (kmem s) (p + 3 + int i)" if "i \<le> length cs" for i
    using settled [rule_format, of "3 + i"] that by (simp add: algebra_simps)
  then have str1: "is_cstring (at (kmem s1) (p + 3)) cs" "\<forall>i \<le> length cs. settled (kmem s1) (p + 3 + int i)"
    using chars(4) parse_frame_keeps [OF f1(4)] by (auto simp: is_cstring_def at_def)
  have cond: "path_parts s1 n = Some zero_path_part" "length cs < 4000"
    "2 * length (split_slash cs) \<le> Suc (spare_pages (kmem s1))"
    using free len f1(6) by (auto simp: s1)
  obtain q' s2 nodes where s2: "pparser_parse_path_parts (p + 3) n s1 = Some (0, q', s2)"
    "parsed s1 s2 n nodes (split_slash cs)"
    using parse_parts_list [OF f1(5) cond(1) f1(1) str1 cond(2,3)] by blast
  have roots: "path_roots s2 = path_roots s"
    using parse_frame_roots [of s1 s2] s2(2) by (simp add: parsed_def s1)
  have "pparser_parse_path_root p root s =
      Some (0, s2\<lparr>path_roots := (path_roots s)(root \<mapsto> \<lparr>drive_no = uint d - 48, parts = n\<rparr>)\<rparr>)"
    using slen len drive sep n(1) s2(1) roots root
    by (cases r) (simp add: pparser_parse_path_root_def Let_def del: fun_upd_apply)
  then show thesis
    using f1 s2(2) by (intro that [of n s2 s1 nodes]) (simp_all add: s1)
qed


section \<open>Releasing a path\<close>

text \<open>Given back: the nodes, their names, and nothing else.\<close>

lemma inhabitants_kmem [simp]: "inhabitants (s\<lparr>kmem := m\<rparr>) = inhabitants s"
  by (rule ext) (simp add: inhabitants_def)

text \<open>A list of nodes as \<open>pparser_free_path_part\<close> sees it, with the pages of the names.\<close>

fun part_chain :: "'d kstate \<Rightarrow> addr \<Rightarrow> addr list \<Rightarrow> bool" where
  "part_chain s p [] \<longleftrightarrow> p = 0"
| "part_chain s p (q # qs) \<longleftrightarrow>
     p = q \<and> p \<noteq> 0 \<and> (case path_parts s p of None \<Rightarrow> False | Some pt \<Rightarrow> part_chain s (part_next pt) qs)"

lemma part_chain_cong:
  "(\<And>q. q \<in> set nodes \<Longrightarrow> path_parts s' q = path_parts s q) \<Longrightarrow> part_chain s p nodes \<Longrightarrow> part_chain s' p nodes"
  by (induction nodes arbitrary: p) (auto split: option.splits)

lemma path_list_chain: "path_list s p nodes names \<Longrightarrow> part_chain s p nodes"
  by (induction s p nodes names rule: path_list.induct) (auto split: option.splits)

lemma free_path_part:
  assumes "heap_ok s" and "part_chain s p nodes" and "nodes \<noteq> []" and "distinct nodes"
    and "distinct (name_pages s nodes)"
    and "\<forall>q \<in> set (name_pages s nodes). page_start (kmem s) q \<and> inhabitants s q = 0"
  shows "\<exists>m. pparser_free_path_part p s =
      Some (s\<lparr>path_parts := (\<lambda>a. if a \<in> set nodes then None else path_parts s a), kmem := m\<rparr>)
    \<and> heap_ok (s\<lparr>path_parts := (\<lambda>a. if a \<in> set nodes then None else path_parts s a), kmem := m\<rparr>)
    \<and> spare_pages m = spare_pages (kmem s) + 2 * length nodes
    \<and> gives_back_all (set nodes \<union> set (name_pages s nodes)) (kmem s) m"
  using assms
proof (induction nodes arbitrary: p s)
  case (Cons q qs)
  obtain pt where pt: "p = q" "q \<noteq> 0" "path_parts s q = Some pt" "part_chain s (part_next pt) qs"
    using Cons.prems(2) by (auto split: option.splits)
  let ?n = "part_name pt"
  have names: "name_pages s (q # qs) = ?n # name_pages s qs" using pt(3) by (simp add: name_pages_def)
  have n: "page_start (kmem s) ?n" "inhabitants s ?n = 0" "?n \<notin> set (name_pages s qs)"
    using Cons.prems(5,6) by (simp_all add: names)
  obtain m1 where m1: "kfree ?n s = Some (s\<lparr>kmem := m1\<rparr>)" "released ?n s (s\<lparr>kmem := m1\<rparr>)"
    by (rule kfree_raw [OF Cons.prems(1) n(1,2)])
  define s1 where "s1 = s\<lparr>kmem := m1\<rparr>"
  have s1: "heap_ok s1" "spare_pages m1 = Suc (spare_pages (kmem s))"
    "gives_back_all {?n} (kmem s) m1" "path_parts s1 = path_parts s" "kmem s1 = m1"
    "inhabitants s1 = inhabitants s" "name_pages s1 = name_pages s"
    using m1(2) released_all [OF m1(2)] by (simp_all add: released_def s1_def name_pages_def [abs_def])
  let ?t = "\<lambda>m. s1\<lparr>path_parts := (\<lambda>a. if a \<in> set qs then None else path_parts s a), kmem := m\<rparr>"
  have "\<exists>m2. (if part_next pt \<noteq> 0 then pparser_free_path_part (part_next pt) s1 else Some s1) = Some (?t m2)
    \<and> heap_ok (?t m2) \<and> spare_pages m2 = spare_pages m1 + 2 * length qs
    \<and> gives_back_all (set qs \<union> set (name_pages s qs)) m1 m2"
  proof (cases "qs = []")
    case True
    then show ?thesis using pt(4) s1 by (intro exI [of _ m1]) (simp add: name_pages_def s1_def)
  next
    case False
    have "part_next pt \<noteq> 0" using pt(4) False by (cases qs) auto
    moreover have "page_start m1 r" if "r \<in> set (name_pages s qs)" for r
      using page_start_gives_back [OF s1(3)] Cons.prems(6) that n by (auto simp: names page_start_def)
    moreover have "part_chain s1 (part_next pt) qs" using part_chain_cong [of qs s1 s] pt(4) s1(4) by simp
    ultimately show ?thesis
      using Cons.IH [of s1 "part_next pt", unfolded s1(4)] s1 False Cons.prems(4-6) by (simp add: names)
  qed
  then obtain m2 where m2: "(if part_next pt \<noteq> 0 then pparser_free_path_part (part_next pt) s1 else Some s1) = Some (?t m2)"
    "heap_ok (?t m2)" "spare_pages m2 = spare_pages m1 + 2 * length qs"
    "gives_back_all (set qs \<union> set (name_pages s qs)) m1 m2"
    by blast
  have q: "path_parts (?t m2) q = Some pt" using Cons.prems(4) pt(3) by simp
  obtain m3 where m3: "kfree q (?t m2) = Some ((?t m2)\<lparr>path_parts := (path_parts (?t m2))(q := None), kmem := m3\<rparr>)"
    "released q (?t m2) ((?t m2)\<lparr>path_parts := (path_parts (?t m2))(q := None), kmem := m3\<rparr>)"
    by (rule kfree_path_part [OF m2(2) q])
  let ?s' = "s\<lparr>path_parts := (\<lambda>a. if a \<in> set (q # qs) then None else path_parts s a), kmem := m3\<rparr>"
  have "(\<lambda>a. if a \<in> set qs then None else path_parts s a)(q := None) =
      (\<lambda>a. if a \<in> set (q # qs) then None else path_parts s a)" by auto
  then have s': "(?t m2)\<lparr>path_parts := (path_parts (?t m2))(q := None), kmem := m3\<rparr> = ?s'"
    by (simp add: s1_def del: fun_upd_apply)
  note m3 = m3 [unfolded s']
  have "pparser_free_path_part p s = Some ?s'"
    using pt m1(1) m2(1) m3(1) Cons.prems(4)
    by (subst pparser_free_path_part.simps, cases "part_next pt = 0") (simp_all add: s1_def del: fun_upd_apply)
  moreover have "gives_back_all ({?n} \<union> (set qs \<union> set (name_pages s qs)) \<union> {q}) (kmem s) m3"
    using gives_back_all_trans [OF gives_back_all_trans [OF s1(3) m2(4)], of "{q}" m3] released_all [OF m3(2)]
    by simp
  then have "gives_back_all (set (q # qs) \<union> set (name_pages s (q # qs))) (kmem s) m3"
    unfolding names by (rule back_subst [where P = "\<lambda>P. gives_back_all P _ _"]) auto
  ultimately show ?case
    using m3(2) s1(2) m2(3) by (intro exI [of _ m3]) (simp add: released_def)
qed simp


text \<open>What parsing made is released again.\<close>

lemma free_parsed:
  assumes ok: "heap_ok s" and f1: "parse_frame s s1"
    and s1: "s1 = s\<lparr>kmem := kmem s1, path_parts := (path_parts s)(n \<mapsto> zero_path_part)\<rparr>"
    and n: "\<not> owned kernel_heap (kmem s) n" and p2: "parsed s1 s2 n nodes names"
    and fp: "spare_pages (kmem s) = Suc (spare_pages (kmem s1))"
    and t: "heap_ok t" "kmem t = kmem s2" "path_parts t = path_parts s2" "\<And>a. inhabitants t a = inhabitants s2 a"
  obtains m where "pparser_free_path_part n t = Some (t\<lparr>path_parts := path_parts s, kmem := m\<rparr>)"
    "heap_ok (t\<lparr>path_parts := path_parts s, kmem := m\<rparr>)" "grows (kmem s) m"
    "spare_pages m = spare_pages (kmem s)"
proof -
  let ?all = "n # nodes"
  have p: "path_list s2 n ?all names" "heap_ok s2" "distinct ?all" "distinct (name_pages s2 ?all)"
    using p2 by (simp_all only: parsed_def)
  have f2: "parse_frame s s2" using p2 parse_frame_trans [OF f1] by (simp add: parsed_def)
  have own: "\<not> owned kernel_heap (kmem s) a" if "\<not> owned kernel_heap (kmem s1) a" for a
    using growsD(1) [of "kmem s" "kmem s1" a] f1 that by (auto simp: parse_frame_def)
  have new: "\<not> owned kernel_heap (kmem s) a" if "a \<in> set ?all" for a
    using that n own p2 by (auto simp: parsed_def)
  have names: "page_start (kmem s2) a \<and> inhabitants s2 a = 0 \<and> \<not> owned kernel_heap (kmem s) a"
    if "a \<in> set (name_pages s2 ?all)" for a
    using that own p2 by (simp add: parsed_def name_page_def)
  have "part_chain t n ?all" by (intro part_chain_cong [of ?all t s2] path_list_chain [OF p(1)]) (simp_all only: t)
  moreover have "name_pages t ?all = name_pages s2 ?all" by (simp add: name_pages_def t(3))
  ultimately obtain m where
    m: "pparser_free_path_part n t = Some (t\<lparr>path_parts := (\<lambda>a. if a \<in> set ?all then None else path_parts t a), kmem := m\<rparr>)"
      "heap_ok (t\<lparr>path_parts := (\<lambda>a. if a \<in> set ?all then None else path_parts t a), kmem := m\<rparr>)"
      "spare_pages m = spare_pages (kmem s2) + 2 * length ?all"
      "gives_back_all (set ?all \<union> set (name_pages s2 ?all)) (kmem s2) m"
    using free_path_part [of t n ?all] t names p(3,4) by fastforce
  have "path_parts s a = None" if "a \<in> set ?all" for a
    using new [OF that] inhabitant_cases(7) [OF ok, of a]
    by (cases "path_parts s a") (auto simp: page_start_def)
  moreover have "path_parts s2 a = path_parts s a" if "a \<notin> set ?all" for a
    using that p2 s1 [THEN arg_cong [where f = path_parts]] by (simp add: parsed_def)
  ultimately have pp: "(\<lambda>a. if a \<in> set ?all then None else path_parts t a) = path_parts s"
    by (simp add: fun_eq_iff t(3))
  have "page_start (kmem s2) a" if "a \<in> set ?all" for a
    using path_list_parts [OF p(1) that] inhabitant_cases(7) [OF p(2), of a] by blast
  then have "grows (kmem s) m"
    using grows_gives_back_all [OF _ m(4), of "kmem s"] f2 new names by (auto simp: parse_frame_def)
  moreover have "spare_pages m = spare_pages (kmem s)"
    using m(3) fp p2 path_list_length [OF p(1)] by (simp add: parsed_def)
  ultimately show thesis using m(1,2) unfolding pp by (intro that)
qed

lemma parse_and_free_root:
  assumes "heap_ok s" and "path_roots s root = Some r"
    and "is_cstring (at (kmem s) p) (d # 0x3A # 0x2F # cs)" and "is_digit d" and "length cs \<le> 253"
    and "\<forall>i \<le> length cs + 3. settled (kmem s) (p + int i)"
    and "2 * length (split_slash cs) \<le> spare_pages (kmem s)"
  obtains s1 s2 where "pparser_parse_path_root p root s = Some (0, s1)" "pparser_free_path_root root s1 = Some s2"
    "path_parts s2 = path_parts s" "path_roots s2 = (path_roots s)(root := None)" "heap_ok s2"
    "spare_pages (kmem s2) = Suc (spare_pages (kmem s))"
    "\<forall>a. settled (kmem s) a \<and> \<not> (root \<le> a \<and> a < root + 4096) \<longrightarrow> kmem s2 a = kmem s a"
    "s2 = s\<lparr>kmem := kmem s2, path_roots := (path_roots s)(root := None)\<rparr>"
    "\<forall>m0. grows m0 (kmem s) \<longrightarrow> \<not> owned kernel_heap m0 root \<longrightarrow> grows m0 (kmem s2)"
proof (rule parse_path_root [OF assms])
  fix s1 s2 :: "'a kstate" and n nodes
  define sp where "sp = s2\<lparr>path_roots := (path_roots s)(root \<mapsto> \<lparr>drive_no = uint d - 48, parts = n\<rparr>)\<rparr>"
  assume "pparser_parse_path_root p root s =
      Some (0, s2\<lparr>path_roots := (path_roots s)(root \<mapsto> \<lparr>drive_no = uint d - 48, parts = n\<rparr>)\<rparr>)"
    and f1: "parse_frame s s1" and s1: "s1 = s\<lparr>kmem := kmem s1, path_parts := (path_parts s)(n \<mapsto> zero_path_part)\<rparr>"
    and n: "\<not> owned kernel_heap (kmem s) n"
    and p2: "parsed s1 s2 n nodes (split_slash cs)"
    and fp: "spare_pages (kmem s) = Suc (spare_pages (kmem s1))"
  then have run: "pparser_parse_path_root p root s = Some (0, sp)" by (simp add: sp_def)
  have f2: "parse_frame s s2" using p2 parse_frame_trans [OF f1] by (simp add: parsed_def)
  have roots: "path_roots s2 root = Some r" using parse_frame_roots [OF f2] assms(2) by simp
  have sp: "heap_ok sp" "kmem sp = kmem s2" "path_parts sp = path_parts s2" "inhabitants sp a = inhabitants s2 a" for a
    using p2 heap_ok_update(3) [OF roots] parse_frame_roots [OF f2] assms(2)
    by (simp_all add: parsed_def sp_def inhabitants_def)
  obtain m where m: "pparser_free_path_part n sp = Some (sp\<lparr>path_parts := path_parts s, kmem := m\<rparr>)"
    "heap_ok (sp\<lparr>path_parts := path_parts s, kmem := m\<rparr>)" "grows (kmem s) m"
    "spare_pages m = spare_pages (kmem s)"
    by (rule free_parsed [OF assms(1) f1 s1 n p2 fp sp])
  define sf where "sf = sp\<lparr>path_parts := path_parts s, kmem := m\<rparr>"
  note m = m [folded sf_def]
  obtain m' where m': "kfree root sf = Some (sf\<lparr>path_roots := (path_roots sf)(root := None), kmem := m'\<rparr>)"
    "released root sf (sf\<lparr>path_roots := (path_roots sf)(root := None), kmem := m'\<rparr>)"
    by (rule kfree_path_root [OF m(2), of root]) (simp_all add: sf_def sp_def)
  let ?s' = "sf\<lparr>path_roots := (path_roots sf)(root := None), kmem := m'\<rparr>"
  have keep: "kmem s a = m' a" if "settled (kmem s) a" "\<not> (root \<le> a \<and> a < root + 4096)" for a
    using that m'(2) growsD(2,3) [OF m(3), of a] by (simp add: released_def gives_back_def sf_def)
  have frame: "?s' = s\<lparr>kmem := kmem ?s', path_roots := (path_roots s)(root := None)\<rparr>"
  proof -
    have "s2 = s\<lparr>kmem := kmem s2, path_parts := path_parts s2\<rparr>" using f2 by (simp add: parse_frame_def)
    then have "s2\<lparr>path_parts := path_parts s, path_roots := (path_roots s)(root := None), kmem := m'\<rparr> =
        s\<lparr>kmem := kmem s2, path_parts := path_parts s2\<rparr>\<lparr>path_parts := path_parts s, path_roots := (path_roots s)(root := None), kmem := m'\<rparr>"
      by (rule arg_cong)
    then show ?thesis by (simp add: sf_def sp_def)
  qed
  have "path_roots sf root \<noteq> None" by (simp add: sf_def sp_def)
  then have "page_start m root" using inhabitant_cases(8) [OF m(2), of root] by (auto simp: sf_def)
  then have grow: "\<forall>m0. grows m0 (kmem s) \<longrightarrow> \<not> owned kernel_heap m0 root \<longrightarrow> grows m0 m'"
    using m'(2) grows_gives_back [OF grows_trans [OF _ m(3)], of _ root m'] by (simp add: released_def sf_def)
  show thesis
    by (rule that [OF run, of ?s', OF _ _ _ _ _ _ frame])
      (use m' m(1,4) keep grow in \<open>simp_all add: pparser_free_path_root_def sp_def sf_def released_def\<close>)
qed

section \<open>Properties\<close>

text \<open>C24: a well-formed path \<open>d:/n1/n2/...\<close> of at most 256 characters, with enough free pages for
its names and nodes, is parsed to its drive number and the list of its names (empty ones included),
at two pages for each name; nothing that was in use in memory changes, and the heap stays sound.\<close>

theorem pparser_parse_path_root_names:
  assumes "heap_ok s" and "path_roots s root = Some r"
    and "is_cstring (at (kmem s) p) (d # 0x3A # 0x2F # cs)" and "is_digit d" and "length cs \<le> 253"
    and "\<forall>i \<le> length cs + 3. settled (kmem s) (p + int i)"
    and "2 * length (split_slash cs) \<le> spare_pages (kmem s)"
  shows "\<exists>s' nodes. pparser_parse_path_root p root s = Some (0, s')
    \<and> path_roots s' root = Some \<lparr>drive_no = uint d - 48, parts = hd nodes\<rparr>
    \<and> path_list s' (hd nodes) nodes (split_slash cs)
    \<and> grows (kmem s) (kmem s') \<and> heap_ok s'
    \<and> spare_pages (kmem s) = spare_pages (kmem s') + 2 * length (split_slash cs)"
proof (rule parse_path_root [OF assms])
  fix s1 s2 :: "'a kstate" and n nodes
  let ?s' = "s2\<lparr>path_roots := (path_roots s)(root \<mapsto> \<lparr>drive_no = uint d - 48, parts = n\<rparr>)\<rparr>"
  assume run: "pparser_parse_path_root p root s = Some (0, ?s')" and f1: "parse_frame s s1"
    and p2: "parsed s1 s2 n nodes (split_slash cs)"
    and fp: "spare_pages (kmem s) = Suc (spare_pages (kmem s1))"
  have f2: "parse_frame s s2" using p2 parse_frame_trans [OF f1] by (simp add: parsed_def)
  have "path_list ?s' n (n # nodes) (split_slash cs)"
    by (rule path_list_cong [of s2]) (use p2 in \<open>auto simp: parsed_def\<close>)
  moreover have "heap_ok ?s'"
    using p2 assms(2) heap_ok_update(3) [of s2 root r] parse_frame_roots [OF f2] by (simp add: parsed_def)
  ultimately show ?thesis
    using run f2 fp p2
    by (intro exI [of _ ?s'] exI [of _ "n # nodes"]) (simp add: parse_frame_def parsed_def)
qed

definition path_state :: "byte list \<Rightarrow> unit kstate" where
  "path_state cs = (initial_state ())
     \<lparr>kmem := write_bytes (mark_run (\<lambda>_. 0) 0x7E00 1) 0x100000 cs, path_roots := [0x1000000 \<mapsto> zero_path_root]\<rparr>"

lemma path_state_facts:
  assumes "length cs < 1000" and "0 \<notin> set cs"
  shows "heap_ok (path_state cs)" "path_roots (path_state cs) 0x1000000 = Some zero_path_root"
    "is_cstring (at (kmem (path_state cs)) 0x100000) cs"
    "\<forall>i \<le> length cs. settled (kmem (path_state cs)) (0x100000 + int i)"
    "spare_pages (kmem (path_state cs)) = 24575"
    "kmem (path_state cs) (0x100000 + 1) = (if 1 < length cs then cs ! 1 else 0)"
proof -
  have one: "mark_run (\<lambda>_. 0) 0x7E00 1 = (\<lambda>_. 0)(0x7E00 := run_entry 1 0)"
    by (auto simp: mark_run_def fun_eq_iff intro: arg_cong2 [of 1 1 _ 0 run_entry])
  have low: "kmem (path_state cs) a = ((\<lambda>_. 0)(0x7E00 := run_entry 1 0)) a" if "a < 0x100000" for a
    using that by (simp add: path_state_def write_bytes_out one)
  have single: "single_pages (kmem (path_state cs))"
    using low by (auto simp: single_pages_def entry_addr_def mark_run_def heap_table_entry_has_next_def)
  have "owned kernel_heap (kmem (path_state cs)) 0x1000000"
    using low [of 32256] by (simp add: owned_def block_of_def entry_addr_def mark_run_def is_free_block_def run_entry_def)
  with single_unchained [OF single] show "heap_ok (path_state cs)"
    by (simp add: heap_ok_def inhabitants_def page_start_def path_state_def initial_state_def)
  have "is_free_block (kmem (path_state cs)) (32256 + int b) \<longleftrightarrow> b \<noteq> 0" if "b < 24576" for b
    using low [of "32256 + int b"] that by (simp add: is_free_block_def mark_run_def run_entry_def)
  then have "{b. b < 24576 \<and> is_free_block (kmem (path_state cs)) (entry_addr kernel_heap (int b))} = {1..<24576}"
    by (auto simp: entry_addr_def)
  then show "spare_pages (kmem (path_state cs)) = 24575" by (simp add: free_below_card)
  show "is_cstring (at (kmem (path_state cs)) 0x100000) cs"
    "\<forall>i \<le> length cs. settled (kmem (path_state cs)) (0x100000 + int i)"
    "kmem (path_state cs) (0x100000 + 1) = (if 1 < length cs then cs ! 1 else 0)"
    using assms by (auto simp: path_state_def is_cstring_def at_def write_bytes_def settled_def mark_run_def)
qed (simp add: path_state_def)

theorem pparser_parse_path_root_names_witness:
  "\<exists>s' nodes. pparser_parse_path_root 0x100000 0x1000000 (path_state [0x37, 0x3A, 0x2F, 0x61, 0x2F, 0x62, 0x63])
      = Some (0, s')
    \<and> path_roots s' 0x1000000 = Some \<lparr>drive_no = 7, parts = hd nodes\<rparr>
    \<and> path_list s' (hd nodes) nodes [[0x61], [0x62, 0x63]]"
proof -
  have split: "split_slash [0x61, 0x2F, 0x62, 0x63] = [[0x61], [0x62, 0x63]]"
    by (simp add: split_slash.simps)
  have digit: "is_digit 0x37" by (simp add: is_digit_def)
  note facts = path_state_facts [of "[0x37, 0x3A, 0x2F, 0x61, 0x2F, 0x62, 0x63]", simplified]
  show ?thesis
    using pparser_parse_path_root_names [OF facts(1-3) digit, unfolded split] facts(4,5) by auto
qed

text \<open>C25: parsing a path and releasing it again are inverse: \<open>pparser_free_path_root\<close> gives back the two
pages of every name and the page of the root, the nodes that were there before are there again, and
nothing that was in use in memory, the root's own page apart, has changed.\<close>

theorem pparser_parse_free_roundtrip:
  assumes "heap_ok s" and "path_roots s root = Some r"
    and "is_cstring (at (kmem s) p) (d # 0x3A # 0x2F # cs)" and "is_digit d" and "length cs \<le> 253"
    and "\<forall>i \<le> length cs + 3. settled (kmem s) (p + int i)"
    and "2 * length (split_slash cs) \<le> spare_pages (kmem s)"
  shows "\<exists>s1 s2. pparser_parse_path_root p root s = Some (0, s1) \<and> pparser_free_path_root root s1 = Some s2
    \<and> path_parts s2 = path_parts s \<and> path_roots s2 = (path_roots s)(root := None) \<and> heap_ok s2
    \<and> spare_pages (kmem s2) = Suc (spare_pages (kmem s))
    \<and> (\<forall>a. settled (kmem s) a \<and> \<not> (root \<le> a \<and> a < root + 4096) \<longrightarrow> kmem s2 a = kmem s a)"
  by (rule parse_and_free_root [OF assms]) blast

theorem pparser_parse_free_roundtrip_witness:
  "\<exists>s1 s2. pparser_parse_path_root 0x100000 0x1000000 (path_state [0x37, 0x3A, 0x2F, 0x61, 0x2F, 0x62, 0x63])
      = Some (0, s1)
    \<and> pparser_free_path_root 0x1000000 s1 = Some s2 \<and> spare_pages (kmem s2) = 24576"
proof -
  have split: "split_slash [0x61, 0x2F, 0x62, 0x63] = [[0x61], [0x62, 0x63]]"
    by (simp add: split_slash.simps)
  have digit: "is_digit 0x37" by (simp add: is_digit_def)
  note facts = path_state_facts [of "[0x37, 0x3A, 0x2F, 0x61, 0x2F, 0x62, 0x63]", simplified]
  show ?thesis
    using pparser_parse_free_roundtrip [OF facts(1-3) digit, unfolded split] facts(4,5) by auto
qed

text \<open>C40: a path of more than 256 characters, one whose first character is no digit, and one whose
separator compares greater than \<open>:/\<close> are refused with \<open>-EINVARG\<close>, without any effect; nothing is
allocated.\<close>

theorem pparser_parse_path_root_rejects:
  assumes "is_cstring (at (kmem s) p) cs"
    and "256 < length cs \<and> length cs < 2147483648
      \<or> length cs \<le> 256 \<and> \<not> is_digit (kmem s p)
      \<or> length cs \<le> 256 \<and> (0x3A < sint (kmem s (p + 1)) \<or> kmem s (p + 1) = 0x3A \<and> 0x2F < sint (kmem s (p + 2)))"
  shows "pparser_parse_path_root p root s = Some (- EINVARG, s)"
proof -
  have "strlen (at (kmem s) p) = Some (length cs)" using assms(1) by (rule strlen_cstring)
  note run = this pparser_parse_path_root_def pparser_parse_drive_no_def
  consider (long) "256 < length cs" "length cs < 2147483648"
    | (digit) "length cs \<le> 256" "\<not> is_digit (kmem s p)"
    | (separator) "length cs \<le> 256" "0x3A < sint (kmem s (p + 1)) \<or> kmem s (p + 1) = 0x3A \<and> 0x2F < sint (kmem s (p + 2))"
    using assms(2) by blast
  then show ?thesis
  proof cases
    case separator
    then have "validate_start_of_path (p + 1) s = (- EINVARG, p + 1)"
      by (simp only: validate_start_of_path_iff add.assoc one_add_one if_True)
    then show ?thesis using separator(1) by (cases "is_digit (kmem s p)") (simp_all add: run Let_def)
  qed (simp_all add: run Let_def)
qed

theorem pparser_parse_path_root_rejects_witness:
  "pparser_parse_path_root 0x100000 0x1000000 (path_state [0x37, 0x78, 0x2F, 0x61])
    = Some (- 2, path_state [0x37, 0x78, 0x2F, 0x61])"
proof -
  let ?s = "path_state [0x37, 0x78, 0x2F, 0x61]"
  have "is_cstring (at (kmem ?s) 0x100000) [0x37, 0x78, 0x2F, 0x61]"
    by (rule path_state_facts) simp_all
  moreover have "kmem ?s (0x100000 + 1) = 0x78" by (subst path_state_facts) simp_all
  ultimately show ?thesis
    using pparser_parse_path_root_rejects [of ?s "0x100000" _ "0x1000000"] by force
qed

text \<open>A separator that compares less than \<open>:/\<close> is accepted all the same: \<open>memcmp\<close> is positive
for it, and only a negative result is an error.  So \<open>0!!a\<close> opens the same file as \<open>0:/a\<close>.\<close>

theorem pparser_accepts_wrong_separator:
  assumes "sint (kmem s p) < 0x3A \<or> kmem s p = 0x3A \<and> sint (kmem s (p + 1)) \<le> 0x2F"
  shows "validate_start_of_path p s = (0, p + 2)"
  using assms by (auto simp: validate_start_of_path_iff)

theorem pparser_accepts_wrong_separator_witness:
  "validate_start_of_path 0x100001 (path_state [0x30, 0x21, 0x21, 0x61]) = (0, 0x100003)"
  using pparser_accepts_wrong_separator [of "path_state [0x30, 0x21, 0x21, 0x61]" "0x100001"]
  by (simp add: path_state_def write_bytes_def)


end
