(* ===== verification/Fat_Clusters.thy ===== *)
theory Fat_Clusters
  imports Streamer
begin

text \<open>
  \<open>fs/fat/fat16.c\<close>, the data layer: cluster arithmetic, the file allocation table, and reading a
  range of bytes along a cluster chain.  The functions take the \<open>disk_t*\<close> they work on; its
  private data is a \<open>fat_private\<close> object of the state.
\<close>

definition KERNEL_FAT16_SIGNATURE :: byte where [simp]: "KERNEL_FAT16_SIGNATURE = 0x29"
definition KERNEL_FAT16_FAT_ENTRY_SIZE :: int where [simp]: "KERNEL_FAT16_FAT_ENTRY_SIZE = 2"
definition KERNEL_FAT16_BAD_SECTOR :: int where [simp]: "KERNEL_FAT16_BAD_SECTOR = 0xFFF7"
definition FAT_FILE_READ_ONLY :: byte where [simp]: "FAT_FILE_READ_ONLY = 0x01"
definition FAT_FILE_SUBDIRECTORY :: byte where [simp]: "FAT_FILE_SUBDIRECTORY = 0x10"
definition FAT_ITEM_TYPE_DIRECTORY :: int where [simp]: "FAT_ITEM_TYPE_DIRECTORY = 0"
definition FAT_ITEM_TYPE_FILE :: int where [simp]: "FAT_ITEM_TYPE_FILE = 1"

section \<open>The operations\<close>

definition fat16_cluster_to_sector :: "fat_private_t \<Rightarrow> int \<Rightarrow> int" where
  "fat16_cluster_to_sector fat_private cluster =
     (let sectors_per_cluster = uint (sectors_per_cluster (primary_header (header fat_private)))
      in s32 (ending_sector_pos (root_directory fat_private)
              + s32 (s32 (cluster - 2) * sectors_per_cluster)))"

definition fat16_get_first_cluster :: "fat_directory_item \<Rightarrow> int" where
  "fat16_get_first_cluster item =
     s32 (push_bit 16 (uint (high_16_bits_first_cluster item)) OR uint (low_16_bits_first_cluster item))"

definition fat16_get_cluster_size_in_bytes :: "disk_t \<Rightarrow> fat_private_t \<Rightarrow> int" where
  "fat16_get_cluster_size_in_bytes disk fat_private =
     s32 (uint (sectors_per_cluster (primary_header (header fat_private))) * sector_size disk)"

definition fat16_get_first_fat_sector :: "fat_private_t \<Rightarrow> int" where
  "fat16_get_first_fat_sector fat_private = uint (reserved_sectors (primary_header (header fat_private)))"

text \<open>\<open>disk->fs_private\<close>, followed.\<close>

definition private_of :: "disk_t \<Rightarrow> 'd kstate \<Rightarrow> fat_private_t option" where
  "private_of disk s = fat_privates s (fs_private disk)"

text \<open>
  The local \<open>result\<close> starts as 0 and receives the bytes read; the result of the read itself is
  not looked at.
\<close>

definition fat16_get_fat_entry :: "'d ports \<Rightarrow> disk_ptr option \<Rightarrow> int \<Rightarrow> 'd kstate \<Rightarrow> (int \<times> 'd kstate) option" where
  "fat16_get_fat_entry io disk_p cluster s =
     do { disk \<leftarrow> disk_ref disk_p s;
          fat_private \<leftarrow> private_of disk s;
          let stream = fat_read_stream fat_private;
          if stream = 0 then Some (0, s)
          else do {
            let fat_table_position = u32 (fat16_get_first_fat_sector fat_private * sector_size disk);
            (res, s) \<leftarrow> disk_streamer_seek_pos stream
              (s32 (fat_table_position + s32 (cluster * KERNEL_FAT16_FAT_ENTRY_SIZE))) s;
            if res < 0 then Some (res, s)
            else do {
              (_, bs, s) \<leftarrow> disk_streamer_read_bytes io stream 2 s;
              let result = word16_at (bs @ drop (length bs) [0, 0]) 0;
              Some (uint result, s) } } }"

definition is_readable_cluster :: "int \<Rightarrow> bool" where
  "is_readable_cluster entry =
     (if entry \<ge> 0xFFF8 then False
      else if entry = KERNEL_FAT16_BAD_SECTOR then False
      else if entry = 0xFFF0 \<or> entry = 0xFFF6 then False
      else if entry = 0x00 then False
      else True)"

text \<open>The loop over \<open>clusters_ahead\<close>.\<close>

fun follow_chain :: "'d ports \<Rightarrow> disk_ptr option \<Rightarrow> nat \<Rightarrow> int \<Rightarrow> 'd kstate \<Rightarrow> (int \<times> 'd kstate) option" where
  "follow_chain io disk_p 0 cluster_to_use s = Some (cluster_to_use, s)"
| "follow_chain io disk_p (Suc n) cluster_to_use s =
     do { (entry, s) \<leftarrow> fat16_get_fat_entry io disk_p cluster_to_use s;
          if \<not> is_readable_cluster entry then Some (- EIO, s)
          else follow_chain io disk_p n entry s }"

text \<open>A division by zero raises a processor exception: no result.\<close>

definition fat16_get_cluster_for_offset ::
    "'d ports \<Rightarrow> disk_ptr option \<Rightarrow> int \<Rightarrow> int \<Rightarrow> 'd kstate \<Rightarrow> (int \<times> 'd kstate) option" where
  "fat16_get_cluster_for_offset io disk_p starting_cluster offset s =
     do { disk \<leftarrow> disk_ref disk_p s;
          fat_private \<leftarrow> private_of disk s;
          let cluster_bytes = fat16_get_cluster_size_in_bytes disk fat_private;
          if cluster_bytes = 0 then None
          else follow_chain io disk_p (nat (offset sdiv cluster_bytes)) starting_cluster s }"

text \<open>
  The loop \<open>while (total > 0)\<close>, with the result, the bytes stored through \<open>out\<close>, and the state.
  Reading through a stream changes neither the disk nor its private data, which are read once.
\<close>

partial_function (option) read_clusters ::
    "'d ports \<Rightarrow> disk_ptr option \<Rightarrow> disk_t \<Rightarrow> fat_private_t \<Rightarrow> addr \<Rightarrow> int \<Rightarrow> int \<Rightarrow> int \<Rightarrow> int \<Rightarrow> 'd kstate
      \<Rightarrow> (int \<times> byte list \<times> 'd kstate) option" where
  "read_clusters io disk_p disk fat_private stream cluster_bytes cur_cluster offset_from_cur_cluster remaining s =
     (if remaining > 0 then
        if \<not> is_readable_cluster cur_cluster then Some (- EIO, [], s)
        else do {
          let available_in_cur_cluster = cluster_bytes - offset_from_cur_cluster;
          let bytes_read = (if remaining > available_in_cur_cluster then available_in_cur_cluster else remaining);
          let sector = fat16_cluster_to_sector fat_private cur_cluster;
          let pos = s32 (offset_from_cur_cluster + s32 (sector * sector_size disk));
          (res, s) \<leftarrow> disk_streamer_seek_pos stream pos s;
          if res \<noteq> OK then Some (- EIO, [], s)
          else do {
            (res, bs, s) \<leftarrow> disk_streamer_read_bytes io stream bytes_read s;
            if res \<noteq> OK then Some (- EIO, bs, s)
            else do {
              let remaining = remaining - bytes_read;
              (cur_cluster, offset_from_cur_cluster, s) \<leftarrow>
                (if bytes_read = available_in_cur_cluster
                 then do { (entry, s) \<leftarrow> fat16_get_fat_entry io disk_p cur_cluster s; Some (entry, 0, s) }
                 else Some (cur_cluster, offset_from_cur_cluster, s));
              (res, bs', s) \<leftarrow> read_clusters io disk_p disk fat_private stream cluster_bytes
                cur_cluster offset_from_cur_cluster remaining s;
              Some (res, bs @ bs', s) } } }
      else Some (0, [], s))"

definition fat16_read_internal_from_stream_v2 ::
    "'d ports \<Rightarrow> disk_ptr option \<Rightarrow> addr \<Rightarrow> int \<Rightarrow> int \<Rightarrow> int \<Rightarrow> 'd kstate \<Rightarrow> (int \<times> byte list \<times> 'd kstate) option" where
  "fat16_read_internal_from_stream_v2 io disk_p stream starting_cluster offset remaining s =
     do { disk \<leftarrow> disk_ref disk_p s;
          fat_private \<leftarrow> private_of disk s;
          let cluster_bytes = fat16_get_cluster_size_in_bytes disk fat_private;
          (cur_cluster, s) \<leftarrow> fat16_get_cluster_for_offset io disk_p starting_cluster offset s;
          let offset_from_cur_cluster = offset smod cluster_bytes;
          read_clusters io disk_p disk fat_private stream cluster_bytes cur_cluster
            offset_from_cur_cluster remaining s }"

definition fat16_read_internal_v2 ::
    "'d ports \<Rightarrow> disk_ptr option \<Rightarrow> int \<Rightarrow> int \<Rightarrow> int \<Rightarrow> 'd kstate \<Rightarrow> (int \<times> byte list \<times> 'd kstate) option" where
  "fat16_read_internal_v2 io disk_p starting_cluster offset remaining s =
     do { disk \<leftarrow> disk_ref disk_p s;
          fat_private \<leftarrow> private_of disk s;
          let stream = cluster_read_stream fat_private;
          fat16_read_internal_from_stream_v2 io disk_p stream starting_cluster offset remaining s }"


section \<open>What reading through streams leaves alone\<close>

definition on_root :: "'d kstate \<Rightarrow> addr \<Rightarrow> bool" where
  "on_root s p \<longleftrightarrow> (\<exists>pos. streamers s p = Some \<lparr>ds_pos = pos, ds_disk = Some Root_disk\<rparr>)"

definition io_frame :: "'d kstate \<Rightarrow> 'd kstate \<Rightarrow> bool" where
  "io_frame s s' \<longleftrightarrow>
     s' = s\<lparr>dev := dev s', streamers := streamers s'\<rparr> \<and> (\<forall>p. on_root s p \<longrightarrow> on_root s' p) \<and>
     (\<forall>p. streamers s' p = None \<longleftrightarrow> streamers s p = None)"

lemma io_frame_refl [simp, intro]: "io_frame s s"
  by (simp add: io_frame_def)

text \<open>Moving a stream, with or without device activity, is such a change.\<close>

lemma io_frame_position:
  assumes "on_root s p"
  shows "io_frame s (s\<lparr>dev := d, streamers := (streamers s)(p \<mapsto> \<lparr>ds_pos = q, ds_disk = Some Root_disk\<rparr>)\<rparr>)"
    and "io_frame s (s\<lparr>streamers := (streamers s)(p \<mapsto> \<lparr>ds_pos = q, ds_disk = Some Root_disk\<rparr>)\<rparr>)"
  using assms unfolding io_frame_def on_root_def by auto

lemma io_frame_trans [trans]: "io_frame s s' \<Longrightarrow> io_frame s' s'' \<Longrightarrow> io_frame s s''"
proof -
  assume 1: "io_frame s s'" and 2: "io_frame s' s''"
  have "s'' = s'\<lparr>dev := dev s'', streamers := streamers s''\<rparr>" using 2 by (simp add: io_frame_def)
  also have "s' = s\<lparr>dev := dev s', streamers := streamers s'\<rparr>" using 1 by (simp add: io_frame_def)
  finally have "s'' = s\<lparr>dev := dev s'', streamers := streamers s''\<rparr>" by simp
  with 1 2 show "io_frame s s''" by (simp add: io_frame_def)
qed

lemma io_frame_fields:
  assumes "io_frame s s'"
  shows "root_disk s' = root_disk s" "fat_privates s' = fat_privates s" "kmem s' = kmem s"
    "kheap s' = kheap s" "dir_items s' = dir_items s" "directories s' = directories s"
    "fat_items s' = fat_items s" "fat_descs s' = fat_descs s" "path_parts s' = path_parts s"
    "path_roots s' = path_roots s" "file_descs s' = file_descs s" "filedescriptors s' = filedescriptors s"
    "filesystems s' = filesystems s"
  using assms unfolding io_frame_def
  by - (erule conjE, erule ssubst, simp)+

text \<open>
  A state with a FAT16 volume on the root disk, whose private data is \<open>fp\<close>.
\<close>

definition fat_volume :: "'d kstate \<Rightarrow> fat_private_t \<Rightarrow> bool" where
  "fat_volume s fp \<longleftrightarrow>
     sector_size (root_disk s) = 512 \<and> private_of (root_disk s) s = Some fp \<and>
     fat_read_stream fp \<noteq> 0 \<and> on_root s (fat_read_stream fp) \<and>
     on_root s (cluster_read_stream fp) \<and> on_root s (directory_stream fp)"

lemma fat_volume_frame: "fat_volume s fp \<Longrightarrow> io_frame s s' \<Longrightarrow> fat_volume s' fp"
  using io_frame_fields [of s s'] by (auto simp: fat_volume_def private_of_def io_frame_def)

context sector_device
begin

lemma seek_and_read:
  assumes "good (dev s)" and "on_root s p" and "0 \<le> pos" and "pos < 2147483648" and "pos + n < 2147483648"
  obtains s1 s2 where "disk_streamer_seek_pos p pos s = Some (0, s1)"
    "disk_streamer_read_bytes io p n s1 = Some (0, read_bytes img pos (nat n), s2)"
    "io_frame s s2" "good (dev s2)"
proof -
  let ?s1 = "s\<lparr>streamers := (streamers s)(p \<mapsto> \<lparr>ds_pos = pos, ds_disk = Some Root_disk\<rparr>)\<rparr>"
  have 1: "disk_streamer_seek_pos p pos s = Some (0, ?s1)"
    using assms(2) by (auto simp: on_root_def disk_streamer_seek_pos_def)
  obtain d' where d': "good d'" "disk_streamer_read_bytes io p n ?s1 = Some (0, read_bytes img pos (nat n),
      ?s1\<lparr>dev := d', streamers := (streamers ?s1)(p \<mapsto> \<lparr>ds_pos = pos + max 0 n, ds_disk = Some Root_disk\<rparr>)\<rparr>)"
    using stream_read [of ?s1 p pos n] assms by auto
  then show thesis
    using 1 io_frame_position(1) [OF assms(2)] by (intro that) auto
qed

end

section \<open>The file allocation table and the clusters of an image\<close>

definition fat_entry_of :: "(int \<Rightarrow> byte) \<Rightarrow> fat_private_t \<Rightarrow> int \<Rightarrow> int" where
  "fat_entry_of img fp c =
     (let p = 512 * fat16_get_first_fat_sector fp + 2 * c in uint (le16 (img p) (img (p + 1))))"

definition sector_of :: "fat_private_t \<Rightarrow> int \<Rightarrow> int" where
  "sector_of fp c =
     ending_sector_pos (root_directory fp) + (c - 2) * uint (sectors_per_cluster (primary_header (header fp)))"

definition bytes_per_cluster :: "fat_private_t \<Rightarrow> int" where
  "bytes_per_cluster fp = 512 * uint (sectors_per_cluster (primary_header (header fp)))"

definition cluster_data :: "(int \<Rightarrow> byte) \<Rightarrow> fat_private_t \<Rightarrow> int \<Rightarrow> byte list" where
  "cluster_data img fp c = read_bytes img (512 * sector_of fp c) (nat (bytes_per_cluster fp))"

text \<open>The first \<open>n\<close> clusters of the chain from \<open>c\<close>.\<close>

fun fat_chain :: "(int \<Rightarrow> byte) \<Rightarrow> fat_private_t \<Rightarrow> int \<Rightarrow> nat \<Rightarrow> int list" where
  "fat_chain img fp c 0 = []"
| "fat_chain img fp c (Suc n) = c # fat_chain img fp (fat_entry_of img fp c) n"

definition chain_data :: "(int \<Rightarrow> byte) \<Rightarrow> fat_private_t \<Rightarrow> int \<Rightarrow> nat \<Rightarrow> byte list" where
  "chain_data img fp c n = concat (map (cluster_data img fp) (fat_chain img fp c n))"

text \<open>A cluster that holds data, at a position the \<open>int\<close> arithmetic can express.\<close>

definition data_cluster :: "fat_private_t \<Rightarrow> int \<Rightarrow> bool" where
  "data_cluster fp c \<longleftrightarrow>
     is_readable_cluster c \<and> 0 \<le> c \<and> c < 65536 \<and> 0 \<le> sector_of fp c \<and>
     512 * sector_of fp c + bytes_per_cluster fp < 2147483648"

lemma length_cluster_data [simp]: "length (cluster_data img fp c) = nat (bytes_per_cluster fp)"
  by (simp add: cluster_data_def)

lemma bytes_per_cluster_range: "0 \<le> bytes_per_cluster fp" "bytes_per_cluster fp < 131072"
  using uint_byte_range(1) [of "sectors_per_cluster (primary_header (header fp))"]
  by (simp_all add: bytes_per_cluster_def)

lemma length_chain_data: "length (chain_data img fp c n) = n * nat (bytes_per_cluster fp)"
  by (induction n arbitrary: c) (simp_all add: chain_data_def)

lemma chain_data_Suc:
  "chain_data img fp c (Suc n) = cluster_data img fp c @ chain_data img fp (fat_entry_of img fp c) n"
  by (simp add: chain_data_def)

lemma fat_entry_of_range: "0 \<le> fat_entry_of img fp c" "fat_entry_of img fp c < 65536"
  by (simp_all add: fat_entry_of_def Let_def)

lemma first_fat_sector_range: "0 \<le> fat16_get_first_fat_sector fp" "fat16_get_first_fat_sector fp < 65536"
  by (simp_all add: fat16_get_first_fat_sector_def)

lemma cluster_to_sector:
  assumes "data_cluster fp c"
  shows "fat16_cluster_to_sector fp c = sector_of fp c"
proof -
  let ?u = "uint (sectors_per_cluster (primary_header (header fp)))"
  have c: "- 2 \<le> c - 2" "c - 2 < 65534" using assms by (auto simp: data_cluster_def)
  have u: "0 \<le> ?u" "?u \<le> 255" by simp_all
  have "(c - 2) * ?u \<le> 65534 * 255" using c u by (intro mult_mono) auto
  moreover have "- (2 * 255) \<le> (c - 2) * ?u"
  proof -
    have "(2 - c) * ?u \<le> 2 * 255" using c u by (intro mult_mono) auto
    then show ?thesis by (simp add: algebra_simps)
  qed
  ultimately have "s32 (s32 (c - 2) * ?u) = (c - 2) * ?u" using c by simp
  moreover have "s32 (sector_of fp c) = sector_of fp c"
    using assms bytes_per_cluster_range [of fp] by (auto simp: data_cluster_def)
  ultimately show ?thesis by (simp add: fat16_cluster_to_sector_def sector_of_def)
qed

lemma cluster_size:
  "sector_size disk = 512 \<Longrightarrow> fat16_get_cluster_size_in_bytes disk fp = bytes_per_cluster fp"
proof -
  have "s32 (bytes_per_cluster fp) = bytes_per_cluster fp"
    using bytes_per_cluster_range [of fp] by simp
  then show "sector_size disk = 512 \<Longrightarrow> ?thesis"
    by (simp add: fat16_get_cluster_size_in_bytes_def bytes_per_cluster_def mult.commute)
qed

context sector_device
begin

lemma get_fat_entry:
  assumes vol: "fat_volume s fp" and "good (dev s)" and c: "0 \<le> c" "c < 65536"
  obtains s' where "fat16_get_fat_entry io (Some Root_disk) c s = Some (fat_entry_of img fp c, s')"
    "io_frame s s'" "good (dev s')"
proof -
  let ?p = "512 * fat16_get_first_fat_sector fp + 2 * c"
  have p: "0 \<le> ?p" "?p + 2 < 2147483648" using c first_fat_sector_range [of fp] by auto
  have pos: "s32 (u32 (fat16_get_first_fat_sector fp * 512) + s32 (c * 2)) = ?p"
    using c p first_fat_sector_range [of fp] by (simp add: mult.commute)
  obtain s1 s2 where s1: "disk_streamer_seek_pos (fat_read_stream fp) ?p s = Some (0, s1)"
    and s2: "disk_streamer_read_bytes io (fat_read_stream fp) 2 s1 = Some (0, read_bytes img ?p (nat 2), s2)"
    and frame: "io_frame s s2" "good (dev s2)"
    using seek_and_read [of s "fat_read_stream fp" ?p 2] assms p by (auto simp: fat_volume_def)
  have "uint (word16_at (read_bytes img ?p (nat 2) @ drop 2 [0, 0]) 0) = fat_entry_of img fp c"
    by (simp add: word16_at_def fat_entry_of_def Let_def read_bytes_def upt_rec)
  then have "fat16_get_fat_entry io (Some Root_disk) c s = Some (fat_entry_of img fp c, s2)"
    using vol s1 s2 pos
    by (simp add: fat16_get_fat_entry_def disk_ref_def fat_volume_def Let_def)
  then show thesis using frame by (rule that)
qed

lemma follow_chain_reads:
  assumes "fat_volume s fp" and "good (dev s)"
    and "\<forall>x \<in> set (fat_chain img fp c (Suc n)). data_cluster fp x"
  shows "\<exists>s'. follow_chain io (Some Root_disk) n c s = Some (fat_chain img fp c (Suc n) ! n, s') \<and>
      io_frame s s' \<and> good (dev s')"
  using assms
proof (induction n arbitrary: c s)
  case 0
  then show ?case by auto
next
  case (Suc n)
  let ?e = "fat_entry_of img fp c"
  have c: "0 \<le> c" "c < 65536" using Suc.prems(3) by (auto simp: data_cluster_def)
  obtain s1 where s1: "fat16_get_fat_entry io (Some Root_disk) c s = Some (?e, s1)"
    "io_frame s s1" "good (dev s1)"
    using get_fat_entry [OF Suc.prems(1,2) c] by blast
  have ok: "\<forall>x \<in> set (fat_chain img fp ?e (Suc n)). data_cluster fp x" using Suc.prems(3) by simp
  then have "is_readable_cluster ?e" by (simp add: data_cluster_def)
  moreover obtain s2 where "follow_chain io (Some Root_disk) n ?e s1 =
      Some (fat_chain img fp ?e (Suc n) ! n, s2)" "io_frame s1 s2" "good (dev s2)"
    using Suc.IH [OF fat_volume_frame [OF Suc.prems(1) s1(2)] s1(3) ok] by blast
  ultimately show ?case using s1 io_frame_trans [of s s1 s2] by auto
qed

lemma cluster_slice:
  assumes "0 \<le> off" and "0 \<le> k" and "off + k \<le> bytes_per_cluster fp"
  shows "read_bytes img (512 * sector_of fp c + off) (nat k) = take (nat k) (drop (nat off) (cluster_data img fp c))"
proof -
  have "nat off + nat k \<le> nat (bytes_per_cluster fp)" using assms by linarith
  then show ?thesis
    using assms(1) slice_read_bytes [of "nat off" "nat k" "nat (bytes_per_cluster fp)" img "512 * sector_of fp c"]
    by (simp add: slice_def cluster_data_def)
qed

text \<open>Reading from one cluster of the chain.\<close>

lemma read_one_cluster:
  assumes "fat_volume s fp" and "good (dev s)" and "on_root s p" and dc: "data_cluster fp c"
    and k: "0 \<le> off" "0 \<le> k" "off + k \<le> bytes_per_cluster fp" "off < bytes_per_cluster fp"
    and size: "sector_size disk = 512"
  obtains s1 s2 where
    "disk_streamer_seek_pos p (s32 (off + s32 (fat16_cluster_to_sector fp c * sector_size disk))) s = Some (0, s1)"
    "disk_streamer_read_bytes io p k s1 =
      Some (0, take (nat k) (drop (nat off) (cluster_data img fp c)), s2)"
    "io_frame s s2" "good (dev s2)"
proof -
  let ?pos = "512 * sector_of fp c + off"
  have bounds: "0 \<le> sector_of fp c" "512 * sector_of fp c + bytes_per_cluster fp < 2147483648"
    using dc by (auto simp: data_cluster_def)
  then have "s32 (sector_of fp c * 512) = 512 * sector_of fp c"
    using bytes_per_cluster_range [of fp] by (simp add: mult.commute)
  then have pos: "s32 (off + s32 (fat16_cluster_to_sector fp c * sector_size disk)) = ?pos"
    using bounds k by (simp add: cluster_to_sector [OF dc] size add.commute)
  have "0 \<le> ?pos" "?pos < 2147483648" "?pos + k < 2147483648" using bounds k by linarith+
  then obtain s1 s2 where "disk_streamer_seek_pos p ?pos s = Some (0, s1)"
    "disk_streamer_read_bytes io p k s1 = Some (0, read_bytes img ?pos (nat k), s2)"
    "io_frame s s2" "good (dev s2)"
    using seek_and_read [of s p ?pos k] assms(2,3) by metis
  then show thesis unfolding cluster_slice [OF k(1-3)] by (intro that) (simp_all only: pos)
qed

lemma read_clusters_data:
  assumes "fat_volume s fp" and "good (dev s)" and "on_root s p" and size: "sector_size disk = 512"
    and "\<forall>x \<in> set (fat_chain img fp c n). data_cluster fp x"
    and "0 \<le> off" and "off < bytes_per_cluster fp" and "0 \<le> len"
    and "off + len \<le> int n * bytes_per_cluster fp"
  shows "\<exists>s'. read_clusters io (Some Root_disk) disk fp p (bytes_per_cluster fp) c off len s =
      Some (0, take (nat len) (drop (nat off) (chain_data img fp c n)), s') \<and> io_frame s s' \<and> good (dev s')"
  using assms(1-3,5-)
proof (induction n arbitrary: c off len s)
  case 0
  then have "len = 0" "off = 0" by auto
  then show ?case using "0.prems" by (subst read_clusters.simps) auto
next
  case (Suc n)
  let ?cb = "bytes_per_cluster fp" and ?e = "fat_entry_of img fp c"
  show ?case
  proof (cases "len = 0")
    case True
    then show ?thesis using Suc.prems by (subst read_clusters.simps) auto
  next
    case False
    then have len: "0 < len" using Suc.prems(7) by simp
    have dc: "data_cluster fp c" using Suc.prems(4) by simp
    define k where "k = (if len > ?cb - off then ?cb - off else len)"
    have k: "0 < k" "off + k \<le> ?cb" "k \<le> len" using len Suc.prems(6) by (auto simp: k_def)
    obtain s1 s2 where s1: "disk_streamer_seek_pos p
        (s32 (off + s32 (fat16_cluster_to_sector fp c * sector_size disk))) s = Some (0, s1)"
      and s2: "disk_streamer_read_bytes io p k s1 =
        Some (0, take (nat k) (drop (nat off) (cluster_data img fp c)), s2)"
      and f2: "io_frame s s2" "good (dev s2)"
      using read_one_cluster [OF Suc.prems(1-3) dc Suc.prems(5) _ k(2) Suc.prems(6) size] k(1) by auto
    show ?thesis
    proof (cases "k = ?cb - off")
      case True
      have c: "0 \<le> c" "c < 65536" using dc by (auto simp: data_cluster_def)
      obtain s3 where s3: "fat16_get_fat_entry io (Some Root_disk) c s2 = Some (?e, s3)"
        "io_frame s2 s3" "good (dev s3)"
        using get_fat_entry [OF fat_volume_frame [OF Suc.prems(1) f2(1)] f2(2) c] by blast
      have f3: "io_frame s s3" using f2(1) s3(2) by (rule io_frame_trans)
      have chain: "\<forall>x \<in> set (fat_chain img fp ?e n). data_cluster fp x" using Suc.prems(4) by simp
      have rest: "0 + (len - k) \<le> int n * ?cb" "0 \<le> len - k" "0 < ?cb"
        using Suc.prems(5,6,8) k True by (auto simp: algebra_simps)
      obtain s4 where s4: "read_clusters io (Some Root_disk) disk fp p ?cb ?e 0 (len - k) s3 =
          Some (0, take (nat (len - k)) (drop (nat 0) (chain_data img fp ?e n)), s4)"
        "io_frame s3 s4" "good (dev s4)"
        using Suc.IH [OF fat_volume_frame [OF Suc.prems(1) f3] s3(3) _ chain order_refl rest(3,2,1)]
          f3 Suc.prems(3) by (auto simp: io_frame_def)
      have "take (nat k) (drop (nat off) (cluster_data img fp c)) = drop (nat off) (cluster_data img fp c)"
        using True by (simp add: nat_diff_distrib Suc.prems(5))
      moreover have "nat len - (nat ?cb - nat off) = nat (len - k)" "nat off \<le> nat ?cb"
        using True k Suc.prems(5,6) by auto
      ultimately have bytes: "take (nat len) (drop (nat off) (chain_data img fp c (Suc n))) =
          take (nat k) (drop (nat off) (cluster_data img fp c)) @ take (nat (len - k)) (chain_data img fp ?e n)"
        by (simp add: chain_data_Suc take_all_iff) (use k Suc.prems(5) True in linarith)
      have "read_clusters io (Some Root_disk) disk fp p ?cb c off len s =
          Some (0, take (nat len) (drop (nat off) (chain_data img fp c (Suc n))), s4)"
        unfolding bytes using len dc s1 s2 s3(1) s4(1) True
        by (subst read_clusters.simps) (simp add: data_cluster_def k_def [symmetric] Let_def)
      then show ?thesis using f3 s4 io_frame_trans by blast
    next
      case False
      then have "k = len" "len < ?cb - off" using k by (auto simp: k_def split: if_splits)
      then have bytes: "take (nat len) (drop (nat off) (chain_data img fp c (Suc n))) =
          take (nat k) (drop (nat off) (cluster_data img fp c))"
        using Suc.prems(5) len by (simp add: chain_data_Suc)
      have "read_clusters io (Some Root_disk) disk fp p ?cb c off len s =
          Some (0, take (nat len) (drop (nat off) (chain_data img fp c (Suc n))), s2)"
        unfolding bytes using len dc s1 s2 False \<open>k = len\<close> \<open>len < ?cb - off\<close>
        by (subst read_clusters.simps, subst read_clusters.simps) (simp add: data_cluster_def Let_def)
      then show ?thesis using f2 by blast
    qed
  qed
qed

lemma fat_chain_drop:
  "q < n \<Longrightarrow> fat_chain im fp (fat_chain im fp c n ! q) (n - q) = drop q (fat_chain im fp c n)"
proof (induction q arbitrary: c n)
  case 0
  then show ?case by (cases n) auto
next
  case (Suc q)
  then show ?case by (cases n) auto
qed

lemma fat_chain_prefix: "q < n \<Longrightarrow> fat_chain im fp c (Suc q) = take (Suc q) (fat_chain im fp c n)"
proof (induction q arbitrary: c n)
  case 0
  then show ?case by (cases n) auto
next
  case (Suc q)
  then obtain k where n: "n = Suc k" by (cases n) auto
  with Suc.prems have "q < k" by simp
  from Suc.IH [OF this, of "fat_entry_of im fp c"] show ?case by (simp add: n)
qed

lemma length_fat_chain [simp]: "length (fat_chain im fp c n) = n"
  by (induction n arbitrary: c) auto

lemma chain_data_drop:
  assumes "q < n"
  shows "chain_data im fp (fat_chain im fp c n ! q) (n - q) =
    drop (q * nat (bytes_per_cluster fp)) (chain_data im fp c n)"
proof -
  let ?xs = "map (cluster_data im fp) (fat_chain im fp c n)"
  have "length (concat (take q ?xs)) = q * nat (bytes_per_cluster fp)"
    using assms by (simp add: length_concat take_map comp_def sum_list_triv)
  moreover have "chain_data im fp c n = concat (take q ?xs) @ concat (drop q ?xs)"
    by (simp add: chain_data_def flip: concat_append)
  ultimately show ?thesis by (simp add: chain_data_def fat_chain_drop [OF assms] drop_map)
qed

lemma read_internal_data:
  assumes vol: "fat_volume s fp" and "good (dev s)" and p: "on_root s p"
    and ok: "\<forall>x \<in> set (fat_chain img fp c n). data_cluster fp x"
    and off: "0 \<le> off" and len: "0 < len" "off + len \<le> int n * bytes_per_cluster fp"
  shows "\<exists>s'. fat16_read_internal_from_stream_v2 io (Some Root_disk) p c off len s =
      Some (0, take (nat len) (drop (nat off) (chain_data img fp c n)), s') \<and> io_frame s s' \<and> good (dev s')"
proof -
  let ?cb = "bytes_per_cluster fp"
  have cb: "0 < ?cb" using off len bytes_per_cluster_range(1) [of fp] by (cases "?cb = 0") auto
  define q where "q = nat (off div ?cb)"
  have q: "int q = off div ?cb" using off cb by (simp add: q_def pos_imp_zdiv_nonneg_iff)
  have split: "off = int q * ?cb + off mod ?cb" by (simp add: q)
  have m: "0 \<le> off mod ?cb" "off mod ?cb < ?cb" using cb by simp_all
  have "int q * ?cb < int n * ?cb" using split m(1) len by linarith
  then have qn: "q < n" using cb by (simp add: mult_less_cancel_right)
  let ?cur = "fat_chain img fp c (Suc q) ! q"
  have cur: "?cur = fat_chain img fp c n ! q" using fat_chain_prefix [OF qn, of img fp c] by simp
  have "\<forall>x \<in> set (fat_chain img fp c (Suc q)). data_cluster fp x"
    using ok set_take_subset [of "Suc q" "fat_chain img fp c n"]
    unfolding fat_chain_prefix [OF qn] by blast
  from follow_chain_reads [OF vol assms(2) this] obtain s1 where
    s1: "follow_chain io (Some Root_disk) q c s = Some (?cur, s1)" "io_frame s s1" "good (dev s1)" by blast
  have rest: "\<forall>x \<in> set (fat_chain img fp ?cur (n - q)). data_cluster fp x"
    using ok set_drop_subset [of q "fat_chain img fp c n"] unfolding cur fat_chain_drop [OF qn] by blast
  have "int (n - q) * ?cb = int n * ?cb - int q * ?cb" using qn by (simp add: of_nat_diff left_diff_distrib)
  then have bound: "off mod ?cb + len \<le> int (n - q) * ?cb" using split len by linarith
  have "on_root s1 p" using s1(2) p by (simp add: io_frame_def)
  from read_clusters_data [OF fat_volume_frame [OF vol s1(2)] s1(3) this _ rest m less_imp_le [OF len(1)] bound]
  obtain s2 where s2: "read_clusters io (Some Root_disk) (root_disk s) fp p ?cb ?cur (off mod ?cb) len s1 =
      Some (0, take (nat len) (drop (nat (off mod ?cb)) (chain_data img fp ?cur (n - q))), s2)"
    "io_frame s1 s2" "good (dev s2)"
    using vol by (auto simp: fat_volume_def)
  have "nat off = q * nat ?cb + nat (off mod ?cb)"
    using split m cb by (metis nat_add_distrib nat_int nat_mult_distrib of_nat_0_le_iff zero_le_mult_iff less_imp_le)
  then have "drop (nat (off mod ?cb)) (chain_data img fp ?cur (n - q)) = drop (nat off) (chain_data img fp c n)"
    unfolding cur chain_data_drop [OF qn] by (simp add: add.commute)
  moreover have "fat16_get_cluster_size_in_bytes (root_disk s) fp = ?cb" "private_of (root_disk s) s = Some fp"
    using vol by (auto simp: fat_volume_def cluster_size)
  ultimately have "fat16_read_internal_from_stream_v2 io (Some Root_disk) p c off len s =
      Some (0, take (nat len) (drop (nat off) (chain_data img fp c n)), s2)"
    using s1(1) s2(1) cb off
    by (simp add: fat16_read_internal_from_stream_v2_def fat16_get_cluster_for_offset_def disk_ref_def
        Let_def sdiv_nonneg smod_nonneg q_def)
  with s2 io_frame_trans [OF s1(2) s2(2)] show ?thesis by blast
qed

lemma read_internal_v2_data:
  assumes "fat_volume s fp" and "good (dev s)"
    and "\<forall>x \<in> set (fat_chain img fp c n). data_cluster fp x"
    and "0 \<le> off" and "0 < len" and "off + len \<le> int n * bytes_per_cluster fp"
  shows "\<exists>s'. fat16_read_internal_v2 io (Some Root_disk) c off len s =
      Some (0, take (nat len) (drop (nat off) (chain_data img fp c n)), s') \<and> io_frame s s' \<and> good (dev s')"
proof -
  have "private_of (root_disk s) s = Some fp" "on_root s (cluster_read_stream fp)"
    using assms(1) by (auto simp: fat_volume_def)
  then show ?thesis
    using read_internal_data [OF assms(1,2) _ assms(3-)]
    by (simp add: fat16_read_internal_v2_def disk_ref_def)
qed

text \<open>
  A read that runs past the chain, when the entry after its \<open>n\<close> clusters is no data cluster.
\<close>

lemma read_clusters_short:
  assumes "fat_volume s fp" and "good (dev s)" and "on_root s p" and size: "sector_size disk = 512"
    and "\<forall>x \<in> set (fat_chain img fp c n). data_cluster fp x"
    and "\<not> is_readable_cluster ((fat_entry_of img fp ^^ n) c)"
    and "0 \<le> off" and "off < bytes_per_cluster fp" and "n = 0 \<Longrightarrow> off = 0"
    and "int n * bytes_per_cluster fp < off + len"
  shows "\<exists>s'. read_clusters io (Some Root_disk) disk fp p (bytes_per_cluster fp) c off len s =
      Some (- EIO, drop (nat off) (chain_data img fp c n), s') \<and> io_frame s s' \<and> good (dev s')"
  using assms(1-3,5-)
proof (induction n arbitrary: c off len s)
  case 0
  then show ?case by (subst read_clusters.simps) (auto simp: chain_data_def)
next
  case (Suc n)
  let ?cb = "bytes_per_cluster fp" and ?e = "fat_entry_of img fp c"
  let ?k = "?cb - off"
  have dc: "data_cluster fp c" using Suc.prems(4) by simp
  have "?cb \<le> int (Suc n) * ?cb" using bytes_per_cluster_range(1) [of fp] by (simp add: algebra_simps)
  then have len: "?k < len" "0 < ?k" using Suc.prems(7,9) by linarith+
  obtain s1 s2 where s1: "disk_streamer_seek_pos p
      (s32 (off + s32 (fat16_cluster_to_sector fp c * sector_size disk))) s = Some (0, s1)"
    and s2: "disk_streamer_read_bytes io p ?k s1 =
      Some (0, take (nat ?k) (drop (nat off) (cluster_data img fp c)), s2)"
    and f2: "io_frame s s2" "good (dev s2)"
    using read_one_cluster [OF Suc.prems(1-3) dc Suc.prems(6) _ _ Suc.prems(7) size, of ?k] len(2) by auto
  have c: "0 \<le> c" "c < 65536" using dc by (auto simp: data_cluster_def)
  obtain s3 where s3: "fat16_get_fat_entry io (Some Root_disk) c s2 = Some (?e, s3)"
    "io_frame s2 s3" "good (dev s3)"
    using get_fat_entry [OF fat_volume_frame [OF Suc.prems(1) f2(1)] f2(2) c] by blast
  have f3: "io_frame s s3" using f2(1) s3(2) by (rule io_frame_trans)
  have on: "on_root s3 p" using f3 Suc.prems(3) by (simp add: io_frame_def)
  have chain: "\<forall>x \<in> set (fat_chain img fp ?e n). data_cluster fp x" using Suc.prems(4) by simp
  have stop: "\<not> is_readable_cluster ((fat_entry_of img fp ^^ n) ?e)"
    using Suc.prems(5) by (simp add: funpow_swap1)
  have rest: "int n * ?cb < 0 + (len - ?k)" "0 < ?cb"
    using Suc.prems(6,7,9) by (auto simp: algebra_simps)
  obtain s4 where s4: "read_clusters io (Some Root_disk) disk fp p ?cb ?e 0 (len - ?k) s3 =
      Some (- EIO, drop (nat 0) (chain_data img fp ?e n), s4)" "io_frame s3 s4" "good (dev s4)"
    using Suc.IH [OF fat_volume_frame [OF Suc.prems(1) f3] s3(3) on chain stop order_refl rest(2) _ rest(1)]
    by auto
  have bytes: "drop (nat off) (chain_data img fp c (Suc n)) =
      take (nat ?k) (drop (nat off) (cluster_data img fp c)) @ chain_data img fp ?e n"
    using Suc.prems(6,7) by (simp add: chain_data_Suc nat_diff_distrib)
  have "read_clusters io (Some Root_disk) disk fp p ?cb c off len s =
      Some (- EIO, drop (nat off) (chain_data img fp c (Suc n)), s4)"
    unfolding bytes using len dc s1 s2 s3(1) s4(1)
    by (subst read_clusters.simps) (simp add: data_cluster_def Let_def)
  then show ?case using f3 s4 io_frame_trans by blast
qed

text \<open>Following the chain past its end.\<close>

lemma follow_chain_end:
  assumes "fat_volume s fp" and "good (dev s)"
    and "\<forall>x \<in> set (fat_chain img fp c n). data_cluster fp x"
    and "\<not> is_readable_cluster ((fat_entry_of img fp ^^ n) c)" and "0 < n" and "n \<le> k"
  shows "\<exists>s'. follow_chain io (Some Root_disk) k c s = Some (- EIO, s') \<and> io_frame s s' \<and> good (dev s')"
  using assms
proof (induction n arbitrary: c k s)
  case 0
  then show ?case by simp
next
  case (Suc n)
  let ?e = "fat_entry_of img fp c"
  obtain j where k: "k = Suc j" "n \<le> j" using Suc.prems(6) by (cases k) auto
  have c: "0 \<le> c" "c < 65536" using Suc.prems(3) by (auto simp: data_cluster_def)
  obtain s1 where s1: "fat16_get_fat_entry io (Some Root_disk) c s = Some (?e, s1)"
    "io_frame s s1" "good (dev s1)"
    using get_fat_entry [OF Suc.prems(1,2) c] by blast
  show ?case
  proof (cases "n = 0")
    case True
    then show ?thesis using s1 Suc.prems(4) k by auto
  next
    case False
    have chain: "\<forall>x \<in> set (fat_chain img fp ?e n). data_cluster fp x" using Suc.prems(3) by simp
    moreover have "hd (fat_chain img fp ?e n) = ?e" "fat_chain img fp ?e n \<noteq> []" using False by (cases n; simp)+
    ultimately have "is_readable_cluster ?e" by (metis data_cluster_def hd_in_set)
    moreover obtain s2 where "follow_chain io (Some Root_disk) j ?e s1 = Some (- EIO, s2)"
      "io_frame s1 s2" "good (dev s2)"
      using Suc.IH [OF fat_volume_frame [OF Suc.prems(1) s1(2)] s1(3) chain _ _ k(2)] Suc.prems(4) False
      by (auto simp: funpow_swap1)
    ultimately show ?thesis using s1 io_frame_trans [of s s1 s2] k by auto
  qed
qed

end

section \<open>A small volume\<close>

text \<open>
  A disk with one sector per cluster, one reserved sector, one FAT of one sector, a root directory
  of 16 entries in sector 2 and the data area from sector 3.  The one file, \<open>HELLO.TXT\<close> of 600
  bytes, occupies clusters 2 and 3; data bytes are their address modulo 256.
\<close>

definition demo_bytes :: "(int \<times> byte) list" where
  "demo_bytes =
     [(13, 1), (14, 1), (16, 1), (17, 16), (22, 1), (38, 0x29),
      (516, 3), (518, 0xFF), (519, 0xFF),
      (1024, 0x48), (1025, 0x45), (1026, 0x4C), (1027, 0x4C), (1028, 0x4F), (1029, 0x20), (1030, 0x20),
      (1031, 0x20), (1032, 0x54), (1033, 0x58), (1034, 0x54), (1035, 0x20), (1050, 2), (1052, 0x58),
      (1053, 2)]"

definition demo_image :: "int \<Rightarrow> byte" where
  "demo_image a =
     (case map_of demo_bytes a of Some b \<Rightarrow> b | None \<Rightarrow> if a < 1536 then 0 else word_of_int a)"

definition demo_private :: fat_private_t where
  "demo_private =
     \<lparr>header = fat_h_of (read_bytes demo_image 0 62),
      root_directory = \<lparr>dir_item = 0x1004000, dir_total = 1, sector_pos = 2, ending_sector_pos = 3\<rparr>,
      cluster_read_stream = 0x1001000, fat_read_stream = 0x1002000, directory_stream = 0x1003000\<rparr>"

definition demo_state :: "ata kstate" where
  "demo_state = (initial_state (blank_drive demo_image))
     \<lparr>root_disk := \<lparr>disk_id = 0, disk_type = 0, sector_size = 512, disk_filesystem = Some Fat16_fs,
                    fs_private = 0x1000000\<rparr>,
      fat_privates := [0x1000000 \<mapsto> demo_private],
      streamers := [0x1001000 \<mapsto> \<lparr>ds_pos = 0, ds_disk = Some Root_disk\<rparr>,
                    0x1002000 \<mapsto> \<lparr>ds_pos = 0, ds_disk = Some Root_disk\<rparr>,
                    0x1003000 \<mapsto> \<lparr>ds_pos = 0, ds_disk = Some Root_disk\<rparr>]\<rparr>"

lemma demo_volume: "fat_volume demo_state demo_private" "idle_drive demo_image (dev demo_state)"
  by (simp_all add: fat_volume_def demo_state_def initial_state_def demo_private_def private_of_def
      on_root_def blank_drive_def idle_drive_def)

lemma demo_header:
  "sectors_per_cluster (primary_header (header demo_private)) = 1"
  "reserved_sectors (primary_header (header demo_private)) = 1"
  by (simp_all add: demo_private_def fat_h_of_def fat_header_of_def word16_at_def demo_image_def
      demo_bytes_def le16_def)

lemma demo_chain:
  "fat_entry_of demo_image demo_private 2 = 3" "fat_entry_of demo_image demo_private 3 = 0xFFFF"
  "bytes_per_cluster demo_private = 512" "sector_of demo_private c = c + 1"
  "data_cluster demo_private 2" "data_cluster demo_private 3"
  by (simp_all add: fat_entry_of_def Let_def fat16_get_first_fat_sector_def demo_header bytes_per_cluster_def
      sector_of_def demo_private_def [THEN arg_cong [where f = root_directory]] demo_image_def
      demo_bytes_def uint_le16 data_cluster_def is_readable_cluster_def)

section \<open>Properties\<close>

text \<open>C18: reading \<open>len\<close> bytes at offset \<open>off\<close> of a file returns exactly those bytes of the
concatenated clusters of its chain, wherever cluster and sector boundaries fall, if the chain has
enough data clusters; only the device and the stream positions change.\<close>

theorem fat16_read_internal_chain:
  assumes "ata_laws io drv" and "idle_drive img (drv (dev s))" and "fat_volume s fp"
    and "\<forall>x \<in> set (fat_chain img fp c n). data_cluster fp x"
    and "0 \<le> off" and "0 < len" and "off + len \<le> int n * bytes_per_cluster fp"
  shows "\<exists>s'. fat16_read_internal_v2 io (Some Root_disk) c off len s =
      Some (0, take (nat len) (drop (nat off) (chain_data img fp c n)), s')
    \<and> io_frame s s' \<and> idle_drive img (drv (dev s'))"
  by (rule sector_device.read_internal_v2_data [OF ata_sector_device [OF assms(1)] assms(3,2,4-7)])

theorem fat16_read_internal_chain_witness:
  "\<exists>s'. fat16_read_internal_v2 ata_ports (Some Root_disk) 2 510 4 demo_state =
      Some (0, take 4 (drop 510 (chain_data demo_image demo_private 2 2)), s')"
  using fat16_read_internal_chain [OF ata_ports_laws demo_volume(2,1), of 2 2 510 4]
  by (auto simp: numeral_2_eq_2 demo_chain)

text \<open>A read that starts inside the chain but runs past its last data cluster returns \<open>-EIO\<close>
after storing all the bytes the chain still has.\<close>

theorem fat16_read_past_chain_end:
  assumes "ata_laws io drv" and "idle_drive img (drv (dev s))" and "fat_volume s fp"
    and "\<forall>x \<in> set (fat_chain img fp c n). data_cluster fp x"
    and "\<not> is_readable_cluster ((fat_entry_of img fp ^^ n) c)"
    and "0 \<le> off" and "off < bytes_per_cluster fp" and "0 < n"
    and "int n * bytes_per_cluster fp < off + len"
  shows "\<exists>s'. fat16_read_internal_v2 io (Some Root_disk) c off len s =
      Some (- EIO, drop (nat off) (chain_data img fp c n), s')
    \<and> io_frame s s' \<and> idle_drive img (drv (dev s'))"
proof -
  have vol: "sector_size (root_disk s) = 512" "private_of (root_disk s) s = Some fp"
    "on_root s (cluster_read_stream fp)" "fat16_get_cluster_size_in_bytes (root_disk s) fp = bytes_per_cluster fp"
    using assms(3) by (auto simp: fat_volume_def cluster_size)
  obtain s' where "read_clusters io (Some Root_disk) (root_disk s) fp (cluster_read_stream fp)
      (bytes_per_cluster fp) c off len s = Some (- EIO, drop (nat off) (chain_data img fp c n), s')"
    "io_frame s s'" "idle_drive img (drv (dev s'))"
    using sector_device.read_clusters_short [OF ata_sector_device [OF assms(1)] assms(3,2) vol(3,1)
      assms(4-7) _ assms(9)] assms(8) by auto
  then show ?thesis
    using vol assms(6,7)
    by (auto simp: fat16_read_internal_v2_def fat16_read_internal_from_stream_v2_def
        fat16_get_cluster_for_offset_def disk_ref_def Let_def sdiv_nonneg smod_nonneg)
qed

theorem fat16_read_past_chain_end_witness:
  "\<exists>s'. fat16_read_internal_v2 ata_ports (Some Root_disk) 2 500 1000 demo_state =
      Some (-1, drop 500 (chain_data demo_image demo_private 2 2), s')"
  using fat16_read_past_chain_end [OF ata_ports_laws demo_volume(2,1), of 2 2 500 1000]
  by (auto simp: numeral_2_eq_2 demo_chain is_readable_cluster_def)

lemma cluster_before_data:
  assumes "0 \<le> sector_of fp (-1)" and "sector_of fp (-1) < 1048576"
  shows "fat16_cluster_to_sector fp (-1) = sector_of fp (-1)"
proof -
  let ?spc = "uint (sectors_per_cluster (primary_header (header fp)))"
  have "0 \<le> ?spc" "?spc \<le> 255" by simp_all
  then have "s32 (- (3 * ?spc)) = - (3 * ?spc)" by (intro s32_id) linarith+
  moreover have "s32 (sector_of fp (-1)) = sector_of fp (-1)" using assms by simp
  ultimately show ?thesis by (simp add: fat16_cluster_to_sector_def sector_of_def)
qed

text \<open>C29: an offset beyond the chain is not reported.  \<open>fat16_get_cluster_for_offset\<close> returns
\<open>-EIO\<close>, which is -1 and passes \<open>is_readable_cluster\<close>, so the read succeeds with bytes from the
sector three clusters before the end of the root directory's area: bytes of the root directory,
a FAT or the boot sector.\<close>

theorem fat16_offset_beyond_chain:
  assumes "ata_laws io drv" and "idle_drive img (drv (dev s))" and "fat_volume s fp"
    and "\<forall>x \<in> set (fat_chain img fp c n). data_cluster fp x" and "0 < n"
    and "\<not> is_readable_cluster ((fat_entry_of img fp ^^ n) c)"
    and "int n * bytes_per_cluster fp \<le> off" and "0 < bytes_per_cluster fp" and "0 < len"
    and "off mod bytes_per_cluster fp + len < bytes_per_cluster fp"
    and "0 \<le> sector_of fp (-1)" and "sector_of fp (-1) < 1048576"
  shows "\<exists>s'. fat16_read_internal_v2 io (Some Root_disk) c off len s =
      Some (0, read_bytes img (512 * sector_of fp (-1) + off mod bytes_per_cluster fp) (nat len), s')"
proof -
  let ?cb = "bytes_per_cluster fp" and ?o = "off mod bytes_per_cluster fp"
  note dev = ata_sector_device [OF assms(1), of img]
  have vol: "sector_size (root_disk s) = 512" "private_of (root_disk s) s = Some fp"
    "fat16_get_cluster_size_in_bytes (root_disk s) fp = ?cb"
    using assms(3) by (auto simp: fat_volume_def cluster_size)
  have "0 \<le> int n * ?cb" using assms(8) by simp
  then have off: "0 \<le> off" using assms(7) by linarith
  have "int n \<le> off div ?cb" using zdiv_mono1 [OF assms(7,8)] assms(8) by simp
  then have "n \<le> nat (off div ?cb)" by linarith
  then obtain s1 where s1: "follow_chain io (Some Root_disk) (nat (off div ?cb)) c s = Some (- EIO, s1)"
    "io_frame s s1" "idle_drive img (drv (dev s1))"
    using sector_device.follow_chain_end [OF dev assms(3,2,4,6,5)] by blast
  have sector: "fat16_cluster_to_sector fp (-1) = sector_of fp (-1)" by (rule cluster_before_data [OF assms(11,12)])
  let ?pos = "512 * sector_of fp (-1) + ?o"
  have o: "0 \<le> ?o" "?o < 131072"
    using pos_mod_sign [OF assms(8), of off] pos_mod_bound [OF assms(8), of off]
      bytes_per_cluster_range(2) [of fp] by linarith+
  then have pos: "0 \<le> ?pos" "?pos < 2147483648" "?pos + len < 2147483648"
    using assms(10-12) bytes_per_cluster_range(2) [of fp] by linarith+
  then have pos': "s32 (?o + s32 (sector_of fp (-1) * 512)) = ?pos"
    using o assms(11,12) by (simp add: mult.commute add.commute)
  have vol1: "on_root s1 (cluster_read_stream fp)"
    using fat_volume_frame [OF assms(3) s1(2)] by (simp add: fat_volume_def)
  obtain s2 s3 where s2: "disk_streamer_seek_pos (cluster_read_stream fp) ?pos s1 = Some (0, s2)"
    and s3: "disk_streamer_read_bytes io (cluster_read_stream fp) len s2
      = Some (0, read_bytes img ?pos (nat len), s3)"
    using sector_device.seek_and_read [OF dev s1(3) vol1 pos] by blast
  have "read_clusters io (Some Root_disk) (root_disk s) fp (cluster_read_stream fp) ?cb (- 1) ?o len s1
      = Some (0, read_bytes img ?pos (nat len), s3)"
    using assms(9,10) s2 s3
    by (subst read_clusters.simps, subst read_clusters.simps)
       (simp add: is_readable_cluster_def sector vol(1) pos' Let_def)
  then show ?thesis
    using vol s1(1) off assms(8)
    by (simp add: fat16_read_internal_v2_def fat16_read_internal_from_stream_v2_def
        fat16_get_cluster_for_offset_def disk_ref_def Let_def sdiv_nonneg smod_nonneg)
qed

theorem fat16_offset_beyond_chain_witness:
  "\<exists>s'. fat16_read_internal_v2 ata_ports (Some Root_disk) 2 5000 11 demo_state =
      Some (0, read_bytes demo_image 392 11, s')"
  using fat16_offset_beyond_chain [OF ata_ports_laws demo_volume(2,1), of 2 2 5000 11]
  by (simp add: numeral_2_eq_2 demo_chain is_readable_cluster_def)

end
