(* ===== verification/Fat_Directories.thy ===== *)
theory Fat_Directories
  imports Fat_Clusters
begin

text \<open>
  \<open>fs/fat/fat16.c\<close>, the directory layer: file names, directory items and the objects made of
  them, loading a directory, and looking a path up.  A \<open>struct fat_directory_item*\<close> into the
  array of a directory is passed as the item it points to: these functions only read it.
\<close>

section \<open>Names\<close>

text \<open>
  \<open>fat16_to_proper_string\<close> copies characters of \<open>in\<close> to \<open>out\<close> up to a NUL, a space or \<open>size\<close>
  characters.  The buffer is \<open>buf\<close>, \<open>out\<close> an index into it and \<open>inp\<close> the array at \<open>in\<close> with
  the bytes of the structure that follow it; \<open>size\<close> is positive in both calls.
\<close>

fun proper_string_loop :: "byte list \<Rightarrow> nat \<Rightarrow> byte list \<Rightarrow> nat \<Rightarrow> nat \<Rightarrow> byte list \<times> nat \<times> nat" where
  "proper_string_loop buf out inp j 0 = (buf, out, j)"
| "proper_string_loop buf out inp j (Suc n) =
     (if inp ! j \<noteq> 0x00 \<and> inp ! j \<noteq> 0x20
      then proper_string_loop (buf[out := inp ! j]) (out + 1) inp (j + 1) n
      else (buf, out, j))"

definition fat16_to_proper_string :: "byte list \<Rightarrow> nat \<Rightarrow> byte list \<Rightarrow> nat \<Rightarrow> byte list \<times> nat" where
  "fat16_to_proper_string buf out inp sz =
     (let (buf, out, j) = proper_string_loop buf out inp 0 sz
      in (if inp ! j = 0x20 then buf[out := 0x00] else buf, out))"

definition fat16_get_full_relative_filename :: "fat_directory_item \<Rightarrow> nat \<Rightarrow> byte list" where
  "fat16_get_full_relative_filename item len =
     (let out = replicate len 0x00;
          (out, out_tmp) = fat16_to_proper_string out 0
            (di_filename item @ di_ext item @ [attribute item]) 8
      in if di_ext item ! 0 \<noteq> 0x00 \<and> di_ext item ! 0 \<noteq> 0x20
         then
           let out = out[out_tmp := 0x2E];
               out_tmp = out_tmp + 1
           in fst (fat16_to_proper_string out out_tmp (di_ext item @ [attribute item]) 3)
         else out)"

section \<open>Items and directories\<close>

definition fat16_clone_directory_item :: "fat_directory_item \<Rightarrow> 'd kstate \<Rightarrow> addr \<times> 'd kstate" where
  "fat16_clone_directory_item item s =
     (let (item_copy, s) = kzalloc sizeof_directory_item s
      in if item_copy = 0 then (0, s)
         else (item_copy, s\<lparr>dir_items := (dir_items s)(item_copy \<mapsto> [item])\<rparr>))"

definition sector_pos_to_bytes_offset :: "disk_t \<Rightarrow> int \<Rightarrow> int" where
  "sector_pos_to_bytes_offset disk sector_p = s32 (sector_size disk * sector_p)"

text \<open>The endless loop of the count, left by a return or an item whose name starts with NUL.\<close>

partial_function (option) count_items ::
    "'d ports \<Rightarrow> addr \<Rightarrow> int \<Rightarrow> 'd kstate \<Rightarrow> (int \<times> 'd kstate) option" where
  "count_items io ds count s =
     do { (res, bs, s) \<leftarrow> disk_streamer_read_bytes io ds (int sizeof_directory_item) s;
          if res \<noteq> OK then Some (- EIO, s)
          else
            let item = directory_item_of bs
            in if di_filename item ! 0 = 0x00 then Some (count, s)
               else if di_filename item ! 0 = 0xE5 then count_items io ds count s
               else count_items io ds (s32 (count + 1)) s }"

definition fat16_get_total_items_for_directory ::
    "'d ports \<Rightarrow> disk_ptr option \<Rightarrow> fat_private_t \<Rightarrow> int \<Rightarrow> 'd kstate \<Rightarrow> (int \<times> 'd kstate) option" where
  "fat16_get_total_items_for_directory io disk_p fat_private dir_sector_pos s =
     do { disk \<leftarrow> disk_ref disk_p s;
          let dir_bytes_offset = sector_pos_to_bytes_offset disk dir_sector_pos;
          let ds = directory_stream fat_private;
          (res, s) \<leftarrow> disk_streamer_seek_pos ds dir_bytes_offset s;
          if res \<noteq> OK then Some (- EIO, s) else count_items io ds 0 s }"

text \<open>The array of \<open>n\<close> zeroed items after \<open>bs\<close> has been stored at its start.\<close>

definition fill_items :: "nat \<Rightarrow> byte list \<Rightarrow> fat_directory_item list" where
  "fill_items n bs = directory_items_of (bs @ replicate (sizeof_directory_item * n - length bs) 0)"

text \<open>
  \<open>private_p\<close> is the \<open>fat_private_t*\<close>; the root directory is a part of that object, which the
  code passes as a third pointer.
\<close>

definition fat16_get_root_directory ::
    "'d ports \<Rightarrow> disk_ptr option \<Rightarrow> addr \<Rightarrow> 'd kstate \<Rightarrow> (int \<times> 'd kstate) option" where
  "fat16_get_root_directory io disk_p private_p s =
     do { disk \<leftarrow> disk_ref disk_p s;
          fat_private \<leftarrow> fat_privates s private_p;
          let primary = primary_header (header fat_private);
          let root_dir_sector_pos = uint (fat_copies primary) * uint (sectors_per_fat primary)
            + uint (reserved_sectors primary);
          let entries = uint (root_dir_entries primary);
          let root_dir_size = entries * int sizeof_directory_item;
          if sector_size disk = 0 then None
          else do {
            let sectors = root_dir_size sdiv sector_size disk;
            let sectors = (if root_dir_size smod sector_size disk \<noteq> 0 then sectors + 1 else sectors);
            (total_items, s) \<leftarrow> fat16_get_total_items_for_directory io disk_p fat_private root_dir_sector_pos s;
            if total_items < 0 then Some (- EIO, s)
            else
              let (root_dir_items, s) = kzalloc (nat root_dir_size) s
              in if root_dir_items = 0 then Some (- ENOMEM, s)
              else do {
                let s = s\<lparr>dir_items := (dir_items s)(root_dir_items \<mapsto> fill_items (nat entries) [])\<rparr>;
                let ds = directory_stream fat_private;
                (res, s) \<leftarrow> disk_streamer_seek_pos ds (sector_pos_to_bytes_offset disk root_dir_sector_pos) s;
                if res \<noteq> OK then Some (- EIO, s)
                else do {
                  (res, bs, s) \<leftarrow> disk_streamer_read_bytes io ds root_dir_size s;
                  let s = s\<lparr>dir_items := (dir_items s)(root_dir_items \<mapsto> fill_items (nat entries) bs)\<rparr>;
                  if res \<noteq> OK then Some (- EIO, s)
                  else do {
                    fat_private \<leftarrow> fat_privates s private_p;
                    Some (0, s\<lparr>fat_privates := (fat_privates s)(private_p \<mapsto> fat_private
                      \<lparr>root_directory := \<lparr>dir_item = root_dir_items, dir_total = total_items,
                        sector_pos = root_dir_sector_pos,
                        ending_sector_pos = root_dir_sector_pos + sectors\<rparr>\<rparr>)\<rparr>) } } } } }"

definition fat16_directory_free :: "addr \<Rightarrow> 'd kstate \<Rightarrow> 'd kstate option" where
  "fat16_directory_free directory_p s =
     (if directory_p = 0 then Some s
      else do {
        directory \<leftarrow> directories s directory_p;
        s \<leftarrow> (if dir_item directory \<noteq> 0 then kfree (dir_item directory) s else Some s);
        kfree directory_p s })"

definition fat16_fat_item_free :: "addr \<Rightarrow> 'd kstate \<Rightarrow> 'd kstate option" where
  "fat16_fat_item_free fat_item_p s =
     do { fat_item \<leftarrow> fat_items s fat_item_p;
          s \<leftarrow> (if item_type fat_item = FAT_ITEM_TYPE_DIRECTORY then fat16_directory_free (item_ptr fat_item) s
                else if item_type fat_item = FAT_ITEM_TYPE_FILE then kfree (item_ptr fat_item) s
                else Some s);
          kfree fat_item_p s }"

text \<open>
  \<open>fat16_load_fat_directory\<close>: on an error after the allocation the directory is freed, and its
  address is returned all the same.
\<close>

definition fat16_load_fat_directory ::
    "'d ports \<Rightarrow> disk_ptr option \<Rightarrow> fat_directory_item \<Rightarrow> 'd kstate \<Rightarrow> (addr \<times> 'd kstate) option" where
  "fat16_load_fat_directory io disk_p item s =
     do { disk \<leftarrow> disk_ref disk_p s;
          let private_p = fs_private disk;
          if attribute item AND FAT_FILE_SUBDIRECTORY = 0 then Some (0, s)
          else
            let (directory_p, s) = kzalloc 16 s
            in if directory_p = 0 then Some (0, s)
            else do {
              let s = s\<lparr>directories := (directories s)(directory_p \<mapsto> zero_directory)\<rparr>;
              fat_private \<leftarrow> fat_privates s private_p;
              let cluster = fat16_get_first_cluster item;
              let cluster_sector = fat16_cluster_to_sector fat_private cluster;
              (total_items, s) \<leftarrow> fat16_get_total_items_for_directory io disk_p fat_private cluster_sector s;
              directory \<leftarrow> directories s directory_p;
              let directory = directory\<lparr>dir_total := total_items\<rparr>;
              let directory_size = s32 (dir_total directory * int sizeof_directory_item);
              let (items_p, s) = kzalloc (nat (u32 directory_size)) s;
              let directory = directory\<lparr>dir_item := items_p\<rparr>;
              let s = s\<lparr>directories := (directories s)(directory_p \<mapsto> directory)\<rparr>;
              (res, s) \<leftarrow>
                (if items_p = 0 then Some (- ENOMEM, s)
                 else do {
                   (res, bs, s) \<leftarrow> fat16_read_internal_v2 io disk_p cluster 0x00 directory_size s;
                   let s = s\<lparr>dir_items := (dir_items s)(items_p \<mapsto> fill_items (nat total_items) bs)\<rparr>;
                   if res \<noteq> OK then Some (res, s)
                   else if sector_size disk = 0 then None
                   else do {
                     let starting_sector = fat16_cluster_to_sector fat_private cluster;
                     let sectors = directory_size sdiv sector_size disk;
                     let sectors = (if directory_size smod sector_size disk \<noteq> 0 then sectors + 1 else sectors);
                     let ending_sector = s32 (starting_sector + sectors);
                     directory \<leftarrow> directories s directory_p;
                     let directory = directory\<lparr>sector_pos := starting_sector, ending_sector_pos := ending_sector\<rparr>;
                     Some (0, s\<lparr>directories := (directories s)(directory_p \<mapsto> directory)\<rparr>) } });
              s \<leftarrow> (if res \<noteq> OK then fat16_directory_free directory_p s else Some s);
              Some (directory_p, s) } }"

definition fat16_new_fat_item_for_directory_item ::
    "'d ports \<Rightarrow> disk_ptr option \<Rightarrow> fat_directory_item \<Rightarrow> 'd kstate \<Rightarrow> (addr \<times> 'd kstate) option" where
  "fat16_new_fat_item_for_directory_item io disk_p directory_item s =
     (let (item_p, s) = kzalloc 8 s
      in if item_p = 0 then Some (0, s)
      else
        let s = s\<lparr>fat_items := (fat_items s)(item_p \<mapsto> zero_fat_item)\<rparr>
        in if attribute directory_item AND FAT_FILE_SUBDIRECTORY \<noteq> 0
        then do {
          (directory_p, s) \<leftarrow> fat16_load_fat_directory io disk_p directory_item s;
          item \<leftarrow> fat_items s item_p;
          Some (item_p, s\<lparr>fat_items := (fat_items s)
            (item_p \<mapsto> item\<lparr>item_ptr := directory_p, item_type := FAT_ITEM_TYPE_DIRECTORY\<rparr>)\<rparr>) }
        else do {
          let (copy_p, s) = fat16_clone_directory_item directory_item s;
          item \<leftarrow> fat_items s item_p;
          Some (item_p, s\<lparr>fat_items := (fat_items s)
            (item_p \<mapsto> item\<lparr>item_ptr := copy_p, item_type := FAT_ITEM_TYPE_FILE\<rparr>)\<rparr>) })"

section \<open>Looking names up\<close>

text \<open>The loop over the items of \<open>directory\<close>, from \<open>i\<close> on; \<open>path\<close> points to the name sought.\<close>

definition item_at :: "fat_directory_item list \<Rightarrow> int \<Rightarrow> fat_directory_item option" where
  "item_at xs i = (if 0 \<le> i \<and> i < int (length xs) then Some (xs ! nat i) else None)"

function search_directory ::
    "'d ports \<Rightarrow> disk_ptr option \<Rightarrow> fat_directory_t \<Rightarrow> addr \<Rightarrow> int \<Rightarrow> 'd kstate \<Rightarrow> (addr \<times> 'd kstate) option" where
  "search_directory io disk_p directory path i s =
     (if i < dir_total directory then
        do { xs \<leftarrow> dir_items s (dir_item directory);
             item \<leftarrow> item_at xs i;
             let tmp_filename = fat16_get_full_relative_filename item 100;
             if istrncmp (\<lambda>k. tmp_filename ! nat k) (at (kmem s) path) 100 = 0
             then fat16_new_fat_item_for_directory_item io disk_p item s
             else search_directory io disk_p directory path (i + 1) s }
      else Some (0, s))"
  by pat_completeness auto
termination
  by (relation "measure (\<lambda>(io, disk_p, directory, path, i, s). nat (dir_total directory - i))") auto

declare search_directory.simps [simp del]

definition fat16_get_item_in_directory ::
    "'d ports \<Rightarrow> disk_ptr option \<Rightarrow> fat_directory_t \<Rightarrow> addr \<Rightarrow> 'd kstate \<Rightarrow> (addr \<times> 'd kstate) option" where
  "fat16_get_item_in_directory io disk_p directory path s = search_directory io disk_p directory path 0 s"

text \<open>The loop over the rest of the path; every level frees the item of the level before.\<close>

partial_function (option) walk_path ::
    "'d ports \<Rightarrow> disk_ptr option \<Rightarrow> addr \<Rightarrow> addr \<Rightarrow> 'd kstate \<Rightarrow> (addr \<times> 'd kstate) option" where
  "walk_path io disk_p current_item next_part s =
     (if next_part = 0 then Some (current_item, s)
      else do {
        current \<leftarrow> fat_items s current_item;
        if item_type current \<noteq> FAT_ITEM_TYPE_DIRECTORY then Some (0, s)
        else do {
          directory \<leftarrow> directories s (item_ptr current);
          part \<leftarrow> path_parts s next_part;
          (tmp_item, s) \<leftarrow> fat16_get_item_in_directory io disk_p directory (part_name part) s;
          s \<leftarrow> fat16_fat_item_free current_item s;
          part \<leftarrow> path_parts s next_part;
          walk_path io disk_p tmp_item (part_next part) s } })"

definition fat16_get_directory_entry ::
    "'d ports \<Rightarrow> disk_ptr option \<Rightarrow> addr \<Rightarrow> 'd kstate \<Rightarrow> (addr \<times> 'd kstate) option" where
  "fat16_get_directory_entry io disk_p path s =
     do { disk \<leftarrow> disk_ref disk_p s;
          fat_private \<leftarrow> private_of disk s;
          part \<leftarrow> path_parts s path;
          (root_item, s) \<leftarrow> fat16_get_item_in_directory io disk_p (root_directory fat_private) (part_name part) s;
          if root_item = 0 then Some (0, s)
          else do {
            part \<leftarrow> path_parts s path;
            walk_path io disk_p root_item (part_next part) s } }"


section \<open>What the names are\<close>

text \<open>
  The file name of an item as it is written in a path: the characters of the name before the
  first space or NUL, and the extension after a dot, if it has any.
\<close>

definition name_chars :: "byte list \<Rightarrow> byte list" where
  "name_chars bs = takeWhile (\<lambda>c. c \<noteq> 0x00 \<and> c \<noteq> 0x20) bs"

definition dos_name :: "fat_directory_item \<Rightarrow> byte list" where
  "dos_name item =
     name_chars (di_filename item) @
     (if name_chars (di_ext item) = [] then [] else 0x2E # name_chars (di_ext item))"

definition item_ok :: "fat_directory_item \<Rightarrow> bool" where
  "item_ok item \<longleftrightarrow> length (di_filename item) = 8 \<and> length (di_ext item) = 3"

lemma directory_item_ok [simp]: "32 \<le> length bs \<Longrightarrow> item_ok (directory_item_of bs)"
  by (simp add: item_ok_def directory_item_of_def slice_def)

lemma length_name_chars: "length (name_chars bs) \<le> length bs"
  by (simp add: name_chars_def length_takeWhile_le)

lemma name_chars_nonzero: "0 \<notin> set (name_chars bs)"
  by (auto simp: name_chars_def dest: set_takeWhileD)

lemma name_chars_Nil: "0 < length bs \<Longrightarrow> name_chars bs = [] \<longleftrightarrow> bs ! 0 = 0x00 \<or> bs ! 0 = 0x20"
  by (cases bs) (auto simp: name_chars_def)

lemma dos_name_nonzero: "0 \<notin> set (dos_name item)"
  using name_chars_nonzero by (auto simp: dos_name_def)

lemma length_dos_name: "item_ok item \<Longrightarrow> length (dos_name item) \<le> 12"
  using length_name_chars [of "di_filename item"] length_name_chars [of "di_ext item"]
  by (auto simp: dos_name_def item_ok_def)

text \<open>Copying into a buffer that is still zero from the write position on.\<close>

lemma proper_string_loop_eq:
  "j + n \<le> length inp \<Longrightarrow> n \<le> k \<Longrightarrow>
     proper_string_loop (pre @ replicate k 0) (length pre) inp j n =
       (let t = name_chars (take n (drop j inp))
        in (pre @ t @ replicate (k - length t) 0, length pre + length t, j + length t))"
proof (induction n arbitrary: j k pre)
  case 0
  then show ?case by (simp add: name_chars_def)
next
  case (Suc n)
  have step: "take (Suc n) (drop j inp) = inp ! j # take n (drop (Suc j) inp)"
    using Suc.prems(1) by (simp add: Cons_nth_drop_Suc [symmetric])
  obtain k' where k: "k = Suc k'" "n \<le> k'" using Suc.prems(2) by (cases k) auto
  show ?case
  proof (cases "inp ! j \<noteq> 0 \<and> inp ! j \<noteq> 0x20")
    case True
    have "proper_string_loop (pre @ replicate k 0) (length pre) inp j (Suc n) =
        proper_string_loop ((pre @ [inp ! j]) @ replicate k' 0) (length (pre @ [inp ! j])) inp (j + 1) n"
      using True k(1) by simp
    also have "\<dots> = (let t = name_chars (take n (drop (j + 1) inp))
        in ((pre @ [inp ! j]) @ t @ replicate (k' - length t) 0, length (pre @ [inp ! j]) + length t, j + 1 + length t))"
      by (rule Suc.IH) (use Suc.prems(1) k(2) in auto)
    finally show ?thesis using True k(1) step by (simp add: name_chars_def Let_def)
  next
    case False
    then show ?thesis using step by (auto simp: name_chars_def)
  qed
qed

lemma proper_string_eq:
  assumes "n < length inp" and "n \<le> k"
  shows "fat16_to_proper_string (pre @ replicate k 0) (length pre) inp n =
    (let t = name_chars (take n inp) in (pre @ t @ replicate (k - length t) 0, length pre + length t))"
proof -
  have "(pre @ t @ replicate m (0 :: byte))[length pre + length t := 0] = pre @ t @ replicate m 0" for t m
    by (cases m) (simp_all add: list_update_append list_update_beyond)
  then show ?thesis
    using assms proper_string_loop_eq [of 0 n inp k pre]
    by (simp add: fat16_to_proper_string_def Let_def)
qed

lemma full_filename_eq:
  assumes "item_ok item" and "12 \<le> len"
  shows "fat16_get_full_relative_filename item len =
    dos_name item @ replicate (len - length (dos_name item)) 0"
proof -
  let ?b = "name_chars (di_filename item)" and ?e = "name_chars (di_ext item)"
  have len: "length ?b \<le> 8" "length (di_filename item) = 8" "length (di_ext item) = 3"
    using assms(1) length_name_chars [of "di_filename item"] by (auto simp: item_ok_def)
  have base: "fat16_to_proper_string (replicate len 0) 0 (di_filename item @ di_ext item @ [attribute item]) 8
      = (?b @ replicate (len - length ?b) 0, length ?b)"
    using proper_string_eq [of 8 "di_filename item @ di_ext item @ [attribute item]" len "[]"] len assms(2)
    by (simp add: Let_def)
  have no_ext: "?e = [] \<longleftrightarrow> di_ext item ! 0 = 0x00 \<or> di_ext item ! 0 = 0x20"
    using len(3) by (intro name_chars_Nil) simp
  show ?thesis
  proof (cases "?e = []")
    case True
    then show ?thesis
      using no_ext base by (auto simp: fat16_get_full_relative_filename_def dos_name_def)
  next
    case False
    obtain m where m: "len - length ?b = Suc m" "3 \<le> m"
      using len(1) assms(2) by (cases "len - length ?b") auto
    have "(?b @ replicate (len - length ?b) 0)[length ?b := 0x2E] = (?b @ [0x2E]) @ replicate m 0"
      by (simp add: m(1))
    moreover have "fat16_to_proper_string ((?b @ [0x2E]) @ replicate m 0) (length (?b @ [0x2E]))
        (di_ext item @ [attribute item]) 3 = ((?b @ [0x2E]) @ ?e @ replicate (m - length ?e) 0,
          length (?b @ [0x2E]) + length ?e)"
      using proper_string_eq [of 3 "di_ext item @ [attribute item]" m "?b @ [0x2E]"] len m(2)
      by (simp add: Let_def)
    moreover have "m - length ?e = len - length (dos_name item)"
      using False m(1) by (simp add: dos_name_def)
    ultimately show ?thesis
      using no_ext base False by (simp add: fat16_get_full_relative_filename_def dos_name_def)
  qed
qed


section \<open>Searching a directory\<close>

definition named :: "byte list \<Rightarrow> fat_directory_item \<Rightarrow> bool" where
  "named cs item \<longleftrightarrow> map tolower (dos_name item) = map tolower cs"

lemma name_test:
  assumes "item_ok item" and "is_cstring (at m path) cs"
  shows "istrncmp (\<lambda>k. fat16_get_full_relative_filename item 100 ! nat k) (at m path) 100 = 0 \<longleftrightarrow> named cs item"
proof -
  let ?f = "\<lambda>k. fat16_get_full_relative_filename item 100 ! nat k"
  have len: "length (dos_name item) \<le> 12" using assms(1) by (rule length_dos_name)
  have "?f (int i) = dos_name item ! i \<and> dos_name item ! i \<noteq> 0" if "i < length (dos_name item)" for i
  proof
    show "?f (int i) = dos_name item ! i"
      using that full_filename_eq [OF assms(1), of 100] by (simp add: nth_append)
    have "dos_name item ! i \<in> set (dos_name item)" using that by simp
    then show "dos_name item ! i \<noteq> 0" using dos_name_nonzero [of item] by metis
  qed
  moreover have "?f (int (length (dos_name item))) = 0"
    using len full_filename_eq [OF assms(1), of 100] by (simp add: nth_append)
  ultimately have "is_cstring ?f (dos_name item)"
    by (auto simp: is_cstring_def in_set_conv_nth)
  then have "istrncmp ?f (at m path) 100 = 0 \<longleftrightarrow> map tolower (dos_name item) = map tolower (take 100 cs)"
    using len assms(2) by (simp add: istrncmp_list_cmp list_cmp_eq_0_iff)
  moreover have "map tolower (dos_name item) = map tolower (take 100 cs) \<longleftrightarrow> named cs item"
  proof (cases "length cs \<le> 100")
    case False
    then have "length (map tolower (take 100 cs)) \<noteq> length (map tolower (dos_name item))"
      "length (map tolower cs) \<noteq> length (map tolower (dos_name item))" using len by simp_all
    then show ?thesis unfolding named_def by metis
  qed (simp add: named_def)
  ultimately show ?thesis by simp
qed

lemma search_directory_find:
  assumes "dir_items s (dir_item d) = Some xs" and "\<forall>item \<in> set xs. item_ok item"
    and "dir_total d \<le> int (length xs)" and "is_cstring (at (kmem s) path) cs"
  shows "0 \<le> i \<Longrightarrow> search_directory io disk_p d path i s =
    (case find (named cs) (drop (nat i) (take (nat (dir_total d)) xs)) of
       None \<Rightarrow> Some (0, s)
     | Some item \<Rightarrow> fat16_new_fat_item_for_directory_item io disk_p item s)"
proof (induction "nat (dir_total d - i)" arbitrary: i)
  case 0
  then show ?case by (subst search_directory.simps) simp
next
  case (Suc n)
  then have i: "i < dir_total d" "nat i < length xs" "nat i < nat (dir_total d)" using assms(3) by auto
  have split: "drop (nat i) (take (nat (dir_total d)) xs) =
      xs ! nat i # drop (nat (i + 1)) (take (nat (dir_total d)) xs)"
    using i Suc.prems by (simp add: Cons_nth_drop_Suc [symmetric] nat_add_distrib)
  have item: "item_at xs i = Some (xs ! nat i)" using i Suc.prems by (simp add: item_at_def)
  have test: "istrncmp (\<lambda>k. fat16_get_full_relative_filename (xs ! nat i) 100 ! nat k) (at (kmem s) path) 100 = 0
      \<longleftrightarrow> named cs (xs ! nat i)"
    by (rule name_test) (use assms(2,4) i in auto)
  have IH: "search_directory io disk_p d path (i + 1) s =
    (case find (named cs) (drop (nat (i + 1)) (take (nat (dir_total d)) xs)) of
       None \<Rightarrow> Some (0, s)
     | Some item \<Rightarrow> fat16_new_fat_item_for_directory_item io disk_p item s)"
    by (rule Suc.hyps) (use Suc in auto)
  show ?case
    using i(1) assms(1) item test IH
    by (subst search_directory.simps) (simp add: split)
qed

section \<open>Properties\<close>

text \<open>C27: the name the search compares is the item's 8.3 name as users write it: name characters up
to the first space or NUL, a dot only if there is an extension, and NUL after it; it fits the
buffer of 100 characters with room to spare.\<close>

theorem fat16_filename_is_dos_name:
  assumes "item_ok item" and "12 \<le> len"
  shows "fat16_get_full_relative_filename item len =
      dos_name item @ replicate (len - length (dos_name item)) 0
    \<and> length (dos_name item) \<le> 12 \<and> 0 \<notin> set (dos_name item)"
  using full_filename_eq [OF assms] length_dos_name [OF assms(1)] dos_name_nonzero by simp

definition readme_item :: fat_directory_item where
  "readme_item = directory_item_of ([0x52, 0x45, 0x41, 0x44, 0x4D, 0x45, 0x20, 0x20, 0x4D, 0x44, 0x20] @ replicate 21 0)"

lemma readme_name: "dos_name readme_item = [0x52, 0x45, 0x41, 0x44, 0x4D, 0x45, 0x2E, 0x4D, 0x44]"
  by (simp add: readme_item_def dos_name_def directory_item_of_def slice_def name_chars_def)

theorem fat16_filename_is_dos_name_witness:
  "take 10 (fat16_get_full_relative_filename readme_item 100)
    = [0x52, 0x45, 0x41, 0x44, 0x4D, 0x45, 0x2E, 0x4D, 0x44, 0]"
  using fat16_filename_is_dos_name [of readme_item 100] readme_name
  by (simp add: readme_item_def)

text \<open>C26: looking a name up in a directory examines its first \<open>total\<close> items in order and makes an
object of the first one whose name is the given one up to case; if there is none, the result is
\<open>NULL\<close> and nothing has changed.\<close>

theorem fat16_lookup_first_match:
  assumes "dir_items s (dir_item d) = Some xs" and "\<forall>item \<in> set xs. item_ok item"
    and "dir_total d \<le> int (length xs)" and "is_cstring (at (kmem s) path) cs"
  shows "fat16_get_item_in_directory io disk_p d path s =
    (case find (\<lambda>item. map tolower (dos_name item) = map tolower cs) (take (nat (dir_total d)) xs) of
       None \<Rightarrow> Some (0, s)
     | Some item \<Rightarrow> fat16_new_fat_item_for_directory_item io disk_p item s)"
  using search_directory_find [OF assms, of 0 io disk_p]
  by (simp add: fat16_get_item_in_directory_def named_def [abs_def])

definition readme_state :: "ata kstate" where
  "readme_state = (initial_state (blank_drive (\<lambda>_. 0)))
     \<lparr>kmem := write_bytes (\<lambda>_. 0) 0x100000 [0x72, 0x65, 0x61, 0x64, 0x6D, 0x65, 0x2E, 0x4D, 0x64],
      dir_items := [0x1000000 \<mapsto> [readme_item]]\<rparr>"

theorem fat16_lookup_first_match_witness:
  "fat16_get_item_in_directory ata_ports (Some Root_disk)
      \<lparr>dir_item = 0x1000000, dir_total = 1, sector_pos = 0, ending_sector_pos = 0\<rparr> 0x100000 readme_state
    = fat16_new_fat_item_for_directory_item ata_ports (Some Root_disk) readme_item readme_state"
proof -
  have s: "is_cstring (at (kmem readme_state) 0x100000) [0x72, 0x65, 0x61, 0x64, 0x6D, 0x65, 0x2E, 0x4D, 0x64]"
    by (auto simp: readme_state_def is_cstring_def at_def write_bytes_def)
  have "item_ok readme_item" by (simp add: readme_item_def)
  then show ?thesis
    using fat16_lookup_first_match [OF _ _ _ s, of "\<lparr>dir_item = 0x1000000, dir_total = 1, sector_pos = 0, ending_sector_pos = 0\<rparr>" "[readme_item]"]
    by (simp add: readme_state_def readme_name tolower_def)
qed

end
