(* ===== verification/Fat16.thy ===== *)
theory Fat16
  imports Fat_Directories
begin

text \<open>
  \<open>fs/fat/fat16.c\<close>, the operations behind the function pointers of \<open>fat16_fs\<close>: resolve, open,
  seek, read, stat and close.  The \<open>void* private\<close> of a file is the address of a
  \<open>fat_file_descriptor\<close> object, or a negative error number.
\<close>

definition SEEK_SET :: int where [simp]: "SEEK_SET = 0"
definition SEEK_CUR :: int where [simp]: "SEEK_CUR = 1"
definition SEEK_END :: int where [simp]: "SEEK_END = 2"
definition FILE_MODE_READ :: int where [simp]: "FILE_MODE_READ = 0"
definition FILE_MODE_WRITE :: int where [simp]: "FILE_MODE_WRITE = 1"
definition FILE_MODE_APPEND :: int where [simp]: "FILE_MODE_APPEND = 2"
definition FILE_MODE_INVALID :: int where [simp]: "FILE_MODE_INVALID = 3"
definition FILE_STAT_READ_ONLY :: int where [simp]: "FILE_STAT_READ_ONLY = 0"

section \<open>The operations\<close>

text \<open>\<open>strcpy(fat16_fs.name, "FAT16")\<close>\<close>

definition fat16_init :: "'d kstate \<Rightarrow> fs_impl option \<times> 'd kstate" where
  "fat16_init s =
     (Some Fat16_fs,
      s\<lparr>fat16_fs_name := [0x46, 0x41, 0x54, 0x31, 0x36, 0] @ drop 6 (fat16_fs_name s)\<rparr>)"

definition fat16_open ::
    "'d ports \<Rightarrow> disk_ptr option \<Rightarrow> addr \<Rightarrow> int \<Rightarrow> 'd kstate \<Rightarrow> (addr \<times> 'd kstate) option" where
  "fat16_open io disk_p path mode s =
     (if mode \<noteq> FILE_MODE_READ then Some (- ERDONLY, s)
      else
        let (descriptor, s) = kzalloc 8 s
        in if descriptor = 0 then Some (- ENOMEM, s)
        else do {
          let s = s\<lparr>fat_descs := (fat_descs s)(descriptor \<mapsto> zero_fat_descriptor)\<rparr>;
          (entry, s) \<leftarrow> fat16_get_directory_entry io disk_p path s;
          if entry = 0 then Some (- EIO, s)
          else do {
            desc \<leftarrow> fat_descs s descriptor;
            Some (descriptor, s\<lparr>fat_descs := (fat_descs s)
              (descriptor \<mapsto> desc\<lparr>ffd_item := entry, ffd_pos := 0\<rparr>)\<rparr>) } })"

text \<open>The comparison \<open>offset > real_item->filesize\<close> converts the \<open>int\<close> to unsigned.\<close>

definition fat16_seek :: "addr \<Rightarrow> int \<Rightarrow> int \<Rightarrow> 'd kstate \<Rightarrow> (int \<times> 'd kstate) option" where
  "fat16_seek private offset whence s =
     do { desc \<leftarrow> fat_descs s private;
          item \<leftarrow> fat_items s (ffd_item desc);
          if item_type item \<noteq> FAT_ITEM_TYPE_FILE then Some (- EINVARG, s)
          else do {
            xs \<leftarrow> dir_items s (item_ptr item);
            real_item \<leftarrow> item_at xs 0;
            if u32 offset > uint (filesize real_item) then Some (- EINVARG, s)
            else if whence = SEEK_SET
            then Some (0, s\<lparr>fat_descs := (fat_descs s)(private \<mapsto> desc\<lparr>ffd_pos := u32 offset\<rparr>)\<rparr>)
            else if whence = SEEK_CUR
            then Some (0, s\<lparr>fat_descs := (fat_descs s)
              (private \<mapsto> desc\<lparr>ffd_pos := u32 (ffd_pos desc + offset)\<rparr>)\<rparr>)
            else if whence = SEEK_END then Some (- EUNIMP, s)
            else Some (- EINVARG, s) } }"

text \<open>The loop over \<open>nmemb\<close> members, with the bytes stored through \<open>out\<close>.\<close>

fun read_members ::
    "'d ports \<Rightarrow> disk_ptr option \<Rightarrow> int \<Rightarrow> int \<Rightarrow> int \<Rightarrow> nat \<Rightarrow> 'd kstate \<Rightarrow> (int \<times> byte list \<times> 'd kstate) option" where
  "read_members io disk_p starting_cluster offset sz 0 s = Some (OK, [], s)"
| "read_members io disk_p starting_cluster offset sz (Suc n) s =
     do { (res, bs, s) \<leftarrow> fat16_read_internal_v2 io disk_p starting_cluster offset (s32 sz) s;
          if res \<noteq> OK then Some (res, bs, s)
          else do {
            (res, bs', s) \<leftarrow> read_members io disk_p starting_cluster (s32 (offset + sz)) sz n s;
            Some (res, bs @ bs', s) } }"

text \<open>\<open>desc->item->item\<close> is followed whatever the type of the item; a directory is no item array.\<close>

definition fat16_read ::
    "'d ports \<Rightarrow> disk_ptr option \<Rightarrow> addr \<Rightarrow> int \<Rightarrow> int \<Rightarrow> 'd kstate \<Rightarrow> (int \<times> byte list \<times> 'd kstate) option" where
  "fat16_read io disk_p private sz nmemb s =
     do { desc \<leftarrow> fat_descs s private;
          fat_item \<leftarrow> fat_items s (ffd_item desc);
          xs \<leftarrow> dir_items s (item_ptr fat_item);
          item \<leftarrow> item_at xs 0;
          let starting_cluster = fat16_get_first_cluster item;
          let offset = s32 (ffd_pos desc);
          read_members io disk_p starting_cluster offset sz (nat nmemb) s }"

text \<open>The caller's \<open>file_stat_t\<close> is returned updated.\<close>

definition fat16_stat :: "addr \<Rightarrow> file_stat_t \<Rightarrow> 'd kstate \<Rightarrow> (int \<times> file_stat_t) option" where
  "fat16_stat private stat s =
     do { fat_desc \<leftarrow> fat_descs s private;
          item \<leftarrow> fat_items s (ffd_item fat_desc);
          if item_type item \<noteq> FAT_ITEM_TYPE_FILE then Some (- EINVARG, stat)
          else do {
            xs \<leftarrow> dir_items s (item_ptr item);
            r_item \<leftarrow> item_at xs 0;
            let stat = stat\<lparr>stat_filesize := uint (filesize r_item), stat_flags := 0x00\<rparr>;
            let stat = (if attribute r_item OR FAT_FILE_READ_ONLY \<noteq> 0
                        then stat\<lparr>stat_flags := FILE_STAT_READ_ONLY\<rparr> else stat);
            Some (0, stat) } }"

text \<open>
  \<open>fat16_init_private\<close> stores three new streams, stopping at the first that is \<open>NULL\<close>.
\<close>

definition set_private :: "addr \<Rightarrow> (fat_private_t \<Rightarrow> fat_private_t) \<Rightarrow> 'd kstate \<Rightarrow> 'd kstate option" where
  "set_private private_p f s =
     do { fp \<leftarrow> fat_privates s private_p;
          Some (s\<lparr>fat_privates := (fat_privates s)(private_p \<mapsto> f fp)\<rparr>) }"

definition fat16_init_private :: "addr \<Rightarrow> disk_ptr option \<Rightarrow> 'd kstate \<Rightarrow> (int \<times> 'd kstate) option" where
  "fat16_init_private private_p disk_p s =
     do { s \<leftarrow> set_private private_p (\<lambda>_. zero_fat_private) s;
          disk \<leftarrow> disk_ref disk_p s;
          (st, s) \<leftarrow> disk_streamer_new (disk_id disk) s;
          s \<leftarrow> set_private private_p (\<lambda>fp. fp\<lparr>cluster_read_stream := st\<rparr>) s;
          if st = 0 then Some (- EIO, s)
          else do {
            (st, s) \<leftarrow> disk_streamer_new (disk_id disk) s;
            s \<leftarrow> set_private private_p (\<lambda>fp. fp\<lparr>fat_read_stream := st\<rparr>) s;
            if st = 0 then Some (- EIO, s)
            else do {
              (st, s) \<leftarrow> disk_streamer_new (disk_id disk) s;
              s \<leftarrow> set_private private_p (\<lambda>fp. fp\<lparr>directory_stream := st\<rparr>) s;
              if st = 0 then Some (- EIO, s) else Some (0, s) } } }"

text \<open>
  The part of \<open>fat16_resolve\<close> from the first use of \<open>disk_stream\<close> to the label \<open>out\<close>, and the
  part after the label.
\<close>

definition resolve_volume ::
    "'d ports \<Rightarrow> disk_ptr option \<Rightarrow> addr \<Rightarrow> addr \<Rightarrow> 'd kstate \<Rightarrow> (int \<times> 'd kstate) option" where
  "resolve_volume io disk_p private_p disk_stream s =
     (if disk_stream = 0 then Some (- EIO, s)
      else do {
        (res, bs, s) \<leftarrow> disk_streamer_read_bytes io disk_stream (int sizeof_fat_h) s;
        if res \<noteq> OK then Some (- EIO, s)
        else do {
          s \<leftarrow> set_private private_p (\<lambda>fp. fp\<lparr>header := fat_h_of bs\<rparr>) s;
          if signature (extended_header (fat_h_of bs)) \<noteq> KERNEL_FAT16_SIGNATURE then Some (- EFSNOTUS, s)
          else do {
            (res, s) \<leftarrow> fat16_get_root_directory io disk_p private_p s;
            if res \<noteq> OK then Some (- EIO, s)
            else do {
              disk \<leftarrow> disk_ref disk_p s;
              Some (res, s\<lparr>root_disk := disk\<lparr>fs_private := private_p, disk_filesystem := Some Fat16_fs\<rparr>\<rparr>) } } } })"

definition resolve_out :: "disk_ptr option \<Rightarrow> addr \<Rightarrow> addr \<Rightarrow> int \<Rightarrow> 'd kstate \<Rightarrow> (int \<times> 'd kstate) option" where
  "resolve_out disk_p private_p disk_stream res s =
     do { s \<leftarrow> (if disk_stream \<noteq> 0 then disk_streamer_close disk_stream s else Some s);
          if res < 0
          then do {
            s \<leftarrow> kfree private_p s;
            disk \<leftarrow> disk_ref disk_p s;
            Some (res, s\<lparr>root_disk := disk\<lparr>fs_private := 0\<rparr>\<rparr>) }
          else Some (res, s) }"

text \<open>
  On the two early jumps to \<open>out\<close> the pointer \<open>disk_stream\<close> is tested before it was ever assigned:
  there is no defined result.
\<close>

definition fat16_resolve :: "'d ports \<Rightarrow> disk_ptr option \<Rightarrow> 'd kstate \<Rightarrow> (int \<times> 'd kstate) option" where
  "fat16_resolve io disk_p s =
     (let (private_p, s) = kzalloc sizeof_fat_private s
      in if private_p = 0 then None
      else do {
        let s = s\<lparr>fat_privates := (fat_privates s)(private_p \<mapsto> zero_fat_private)\<rparr>;
        (res, s) \<leftarrow> fat16_init_private private_p disk_p s;
        if res \<noteq> OK then None
        else do {
          disk \<leftarrow> disk_ref disk_p s;
          (disk_stream, s) \<leftarrow> disk_streamer_new (disk_id disk) s;
          (res, s) \<leftarrow> resolve_volume io disk_p private_p disk_stream s;
          resolve_out disk_p private_p disk_stream res s } })"

definition fat16_close :: "addr \<Rightarrow> 'd kstate \<Rightarrow> (int \<times> 'd kstate) option" where
  "fat16_close private s =
     do { fat_desc \<leftarrow> fat_descs s private;
          s \<leftarrow> fat16_fat_item_free (ffd_item fat_desc) s;
          fat_desc \<leftarrow> fat_descs s private;
          let s = s\<lparr>fat_descs := (fat_descs s)(private \<mapsto> fat_desc\<lparr>ffd_pos := 0\<rparr>)\<rparr>;
          s \<leftarrow> kfree private s;
          Some (0, s) }"


section \<open>Open files\<close>

text \<open>
  \<open>private\<close> is an open regular file with directory item \<open>item\<close> at position \<open>pos\<close>.
\<close>

definition open_file :: "'d kstate \<Rightarrow> addr \<Rightarrow> fat_directory_item \<Rightarrow> int \<Rightarrow> bool" where
  "open_file s private item pos \<longleftrightarrow>
     (\<exists>item_p ptr. fat_descs s private = Some \<lparr>ffd_item = item_p, ffd_pos = pos\<rparr> \<and>
        fat_items s item_p = Some \<lparr>item_ptr = ptr, item_type = FAT_ITEM_TYPE_FILE\<rparr> \<and>
        dir_items s ptr = Some [item])"

lemma open_file_frame: "io_frame s s' \<Longrightarrow> open_file s' private item pos = open_file s private item pos"
  by (simp add: open_file_def io_frame_fields)

context sector_device
begin

lemma read_members_data:
  assumes "fat_volume s fp" and "good (dev s)"
    and "\<forall>x \<in> set (fat_chain img fp c n). data_cluster fp x"
    and "0 \<le> off" and "0 < sz" and "sz < 2147483648"
    and "off + sz * int k \<le> int n * bytes_per_cluster fp" and "off + sz * int k < 2147483648"
  shows "\<exists>s'. read_members io (Some Root_disk) c off sz k s =
      Some (0, take (nat (sz * int k)) (drop (nat off) (chain_data img fp c n)), s') \<and>
      io_frame s s' \<and> good (dev s')"
  using assms
proof (induction k arbitrary: off s)
  case 0
  then show ?case by auto
next
  case (Suc k)
  have step: "sz * int (Suc k) = sz + sz * int k" "0 \<le> sz * int k" using Suc.prems(5) by (simp_all add: algebra_simps)
  obtain s1 where s1: "fat16_read_internal_v2 io (Some Root_disk) c off sz s =
      Some (0, take (nat sz) (drop (nat off) (chain_data img fp c n)), s1)" "io_frame s s1" "good (dev s1)"
    using read_internal_v2_data [OF Suc.prems(1-5)] Suc.prems(7) step by force
  have "0 \<le> off + sz" "off + sz + sz * int k \<le> int n * bytes_per_cluster fp"
    "off + sz + sz * int k < 2147483648"
    using Suc.prems(4-8) step by linarith+
  moreover have "s32 (off + sz) = off + sz" "s32 sz = sz"
    using Suc.prems(4-8) step by (intro s32_id; linarith)+
  ultimately have facts: "0 \<le> off + sz" "off + sz + sz * int k \<le> int n * bytes_per_cluster fp"
    "off + sz + sz * int k < 2147483648" "s32 (off + sz) = off + sz" "s32 sz = sz" by blast+
  then obtain s2 where s2: "read_members io (Some Root_disk) c (off + sz) sz k s1 =
      Some (0, take (nat (sz * int k)) (drop (nat (off + sz)) (chain_data img fp c n)), s2)"
    "io_frame s1 s2" "good (dev s2)"
    using Suc.IH [OF fat_volume_frame [OF Suc.prems(1) s1(2)] s1(3) Suc.prems(3) facts(1) Suc.prems(5,6)
      facts(2,3)] by blast
  have "take (nat (sz * int (Suc k))) (drop (nat off) (chain_data img fp c n)) =
      take (nat sz) (drop (nat off) (chain_data img fp c n)) @
      take (nat (sz * int k)) (drop (nat (off + sz)) (chain_data img fp c n))"
  proof -
    have "nat (sz * int (Suc k)) = nat sz + nat (sz * int k)" "nat (off + sz) = nat sz + nat off"
      using step Suc.prems(4,5) by (auto simp: nat_add_distrib)
    then show ?thesis by (simp add: take_add)
  qed
  then show ?case
    using s1 s2 facts(4,5) io_frame_trans [of s s1 s2] by auto
qed

lemma fat16_read_data:
  assumes "fat_volume s fp" and "good (dev s)" and "open_file s private item pos"
    and "c = fat16_get_first_cluster item"
    and "\<forall>x \<in> set (fat_chain img fp c n). data_cluster fp x"
    and "0 \<le> pos" and "0 < sz" and "0 < k" and "pos + sz * k \<le> int n * bytes_per_cluster fp"
    and "pos + sz * k < 2147483648"
  shows "\<exists>s'. fat16_read io (Some Root_disk) private sz k s =
      Some (0, take (nat (sz * k)) (drop (nat pos) (chain_data img fp c n)), s') \<and>
      io_frame s s' \<and> good (dev s')"
proof -
  have "sz * 1 \<le> sz * k" using assms(7,8) by (intro mult_left_mono) linarith+
  then have sz: "sz < 2147483648" "pos < 2147483648" using assms(6,7,10) by linarith+
  then have pos: "s32 pos = pos" using assms(6) by simp
  have k: "int (nat k) = k" using assms(8) by simp
  obtain s' where "read_members io (Some Root_disk) c pos sz (nat k) s =
      Some (0, take (nat (sz * k)) (drop (nat pos) (chain_data img fp c n)), s')"
    "io_frame s s'" "good (dev s')"
    using read_members_data [OF assms(1,2,5-7) sz(1), of "nat k"] assms(9,10) unfolding k by blast
  then show ?thesis
    using assms(3,4) pos by (auto simp: fat16_read_def open_file_def item_at_def Let_def)
qed

end

section \<open>Properties\<close>

text \<open>Reading \<open>nmemb\<close> members of \<open>size\<close> bytes from an open file returns exactly the bytes of
its cluster chain from the file's position on, and leaves the position where it was: only the
device and the streams change.  The file's size plays no part: any range that the chain covers
is read.\<close>

theorem fat16_read_file:
  assumes "ata_laws io drv" and "idle_drive img (drv (dev s))" and "fat_volume s fp"
    and "open_file s private item pos"
    and "\<forall>x \<in> set (fat_chain img fp (fat16_get_first_cluster item) n). data_cluster fp x"
    and "0 \<le> pos" and "0 < sz" and "0 < nmemb"
    and "pos + sz * nmemb \<le> int n * bytes_per_cluster fp" and "pos + sz * nmemb < 2147483648"
  shows "\<exists>s'. fat16_read io (Some Root_disk) private sz nmemb s =
      Some (0, take (nat (sz * nmemb)) (drop (nat pos)
        (chain_data img fp (fat16_get_first_cluster item) n)), s')
    \<and> io_frame s s' \<and> open_file s' private item pos \<and> idle_drive img (drv (dev s'))"
  using sector_device.fat16_read_data [OF ata_sector_device [OF assms(1)] assms(3,2,4) refl assms(5-10)]
    open_file_frame assms(4) by blast

definition demo_item :: fat_directory_item where
  "demo_item = directory_item_of (read_bytes demo_image 1024 32)"

definition demo_open :: "ata kstate" where
  "demo_open = demo_state
     \<lparr>fat_descs := [0x1005000 \<mapsto> \<lparr>ffd_item = 0x1006000, ffd_pos = 500\<rparr>],
      fat_items := [0x1006000 \<mapsto> \<lparr>item_ptr = 0x1007000, item_type = 1\<rparr>],
      dir_items := [0x1007000 \<mapsto> [demo_item]]\<rparr>"

lemma demo_open_facts:
  "fat_volume demo_open demo_private" "idle_drive demo_image (dev demo_open)"
  "open_file demo_open 0x1005000 demo_item 500" "fat16_get_first_cluster demo_item = 2"
proof -
  show "fat_volume demo_open demo_private" "idle_drive demo_image (dev demo_open)"
    using demo_volume by (simp_all add: fat_volume_def demo_open_def private_of_def on_root_def)
  show "open_file demo_open 0x1005000 demo_item 500"
    by (simp add: open_file_def demo_open_def)
  show "fat16_get_first_cluster demo_item = 2"
    by (simp add: fat16_get_first_cluster_def demo_item_def directory_item_of_def word16_at_def uint_le16
        demo_image_def demo_bytes_def)
qed

theorem fat16_read_file_witness:
  "\<exists>s'. fat16_read ata_ports (Some Root_disk) 0x1005000 100 2 demo_open =
      Some (0, take 200 (drop 500 (chain_data demo_image demo_private 2 2)), s')"
  using fat16_read_file [OF ata_ports_laws demo_open_facts(2,1,3), of 2 100 2]
  by (auto simp: numeral_2_eq_2 demo_chain demo_open_facts)

text \<open>Seeking relative to the current position is checked against the file size only by its
offset: from the end of a file a seek by any amount up to the file's size is accepted and leaves
the position beyond the end.\<close>

theorem fat16_seek_cur_beyond_end:
  assumes "open_file s private item (uint (filesize item))" and "0 < off" and "off \<le> uint (filesize item)"
    and "uint (filesize item) + off < 4294967296"
  shows "\<exists>s'. fat16_seek private off SEEK_CUR s = Some (0, s')
    \<and> open_file s' private item (uint (filesize item) + off)"
  using assms by (auto simp: fat16_seek_def open_file_def item_at_def)

theorem fat16_seek_cur_beyond_end_witness:
  "\<exists>s'. fat16_seek 0x1005000 600 SEEK_CUR
      (demo_open\<lparr>fat_descs := [0x1005000 \<mapsto> \<lparr>ffd_item = 0x1006000, ffd_pos = 600\<rparr>]\<rparr>) = Some (0, s')
    \<and> open_file s' 0x1005000 demo_item 1200"
proof -
  have size: "uint (filesize demo_item) = 600"
    by (simp add: demo_item_def directory_item_of_def word32_at_def uint_le32 demo_image_def demo_bytes_def)
  show ?thesis
    using fat16_seek_cur_beyond_end [of "demo_open
        \<lparr>fat_descs := [0x1005000 \<mapsto> \<lparr>ffd_item = 0x1006000, ffd_pos = 600\<rparr>]\<rparr>" "0x1005000" demo_item 600]
    by (simp add: size) (simp add: open_file_def demo_open_def)
qed

end
