(* ===== verification/File.thy ===== *)
theory File
  imports Fat16 Pparser
begin

text \<open>
  \<open>fs/file.c\<close>: the table of file systems, the table of file descriptors and the file interface,
  with \<open>disk_search_and_init\<close> of \<open>disk.c\<close>, which needs the table of file systems.  The calls
  through the function pointers of a \<open>filesystem_t\<close> are the \<open>vfs\<close> functions: there is one file
  system, and a call through \<open>NULL\<close> has no result.
\<close>

section \<open>The function pointers\<close>

definition vfs_resolve :: "'d ports \<Rightarrow> fs_impl option \<Rightarrow> disk_ptr option \<Rightarrow> 'd kstate \<Rightarrow> (int \<times> 'd kstate) option" where
  "vfs_resolve io fs disk_p s = (case fs of Some Fat16_fs \<Rightarrow> fat16_resolve io disk_p s | None \<Rightarrow> None)"

definition vfs_open ::
    "'d ports \<Rightarrow> fs_impl option \<Rightarrow> disk_ptr option \<Rightarrow> addr \<Rightarrow> int \<Rightarrow> 'd kstate \<Rightarrow> (addr \<times> 'd kstate) option" where
  "vfs_open io fs disk_p path mode s =
     (case fs of Some Fat16_fs \<Rightarrow> fat16_open io disk_p path mode s | None \<Rightarrow> None)"

definition vfs_seek :: "fs_impl option \<Rightarrow> addr \<Rightarrow> int \<Rightarrow> int \<Rightarrow> 'd kstate \<Rightarrow> (int \<times> 'd kstate) option" where
  "vfs_seek fs private offset whence s =
     (case fs of Some Fat16_fs \<Rightarrow> fat16_seek private offset whence s | None \<Rightarrow> None)"

definition vfs_read ::
    "'d ports \<Rightarrow> fs_impl option \<Rightarrow> disk_ptr option \<Rightarrow> addr \<Rightarrow> int \<Rightarrow> int \<Rightarrow> 'd kstate
      \<Rightarrow> (int \<times> byte list \<times> 'd kstate) option" where
  "vfs_read io fs disk_p private sz nmemb s =
     (case fs of Some Fat16_fs \<Rightarrow> fat16_read io disk_p private sz nmemb s | None \<Rightarrow> None)"

definition vfs_stat :: "fs_impl option \<Rightarrow> addr \<Rightarrow> file_stat_t \<Rightarrow> 'd kstate \<Rightarrow> (int \<times> file_stat_t) option" where
  "vfs_stat fs private stat s =
     (case fs of Some Fat16_fs \<Rightarrow> fat16_stat private stat s | None \<Rightarrow> None)"

definition vfs_close :: "fs_impl option \<Rightarrow> addr \<Rightarrow> 'd kstate \<Rightarrow> (int \<times> 'd kstate) option" where
  "vfs_close fs private s = (case fs of Some Fat16_fs \<Rightarrow> fat16_close private s | None \<Rightarrow> None)"

section \<open>The table of file systems\<close>

text \<open>The index of the first free slot.\<close>

fun free_slot :: "fs_impl option list \<Rightarrow> nat \<Rightarrow> nat option" where
  "free_slot [] i = None"
| "free_slot (x # xs) i = (if x = None then Some i else free_slot xs (Suc i))"

definition fs_get_free_filesystem :: "'d kstate \<Rightarrow> nat option" where
  "fs_get_free_filesystem s = free_slot (filesystems s) 0"

definition fs_insert_filesystem :: "fs_impl option \<Rightarrow> 'd kstate \<Rightarrow> 'd kstate" where
  "fs_insert_filesystem filesystem s =
     (case fs_get_free_filesystem s of None \<Rightarrow> s
      | Some i \<Rightarrow> s\<lparr>filesystems := (filesystems s)[i := filesystem]\<rparr>)"

definition fs_static_load :: "'d kstate \<Rightarrow> 'd kstate" where
  "fs_static_load s = (let (fs, s) = fat16_init s in fs_insert_filesystem fs s)"

definition fs_load :: "'d kstate \<Rightarrow> 'd kstate" where
  "fs_load s = fs_static_load (s\<lparr>filesystems := replicate MAX_FILESYSTEMS None\<rparr>)"

definition fs_init :: "'d kstate \<Rightarrow> 'd kstate" where
  "fs_init s = fs_load (s\<lparr>filedescriptors := replicate MAX_FILEDESCRIPTORS 0\<rparr>)"

fun resolve_slots ::
    "'d ports \<Rightarrow> disk_ptr option \<Rightarrow> fs_impl option list \<Rightarrow> 'd kstate \<Rightarrow> (fs_impl option \<times> 'd kstate) option" where
  "resolve_slots io disk_p [] s = Some (None, s)"
| "resolve_slots io disk_p (fs # rest) s =
     (if fs \<noteq> None
      then do { (res, s) \<leftarrow> vfs_resolve io fs disk_p s;
                if res = 0 then Some (fs, s) else resolve_slots io disk_p rest s }
      else resolve_slots io disk_p rest s)"

definition fs_resolve :: "'d ports \<Rightarrow> disk_ptr option \<Rightarrow> 'd kstate \<Rightarrow> (fs_impl option \<times> 'd kstate) option" where
  "fs_resolve io disk_p s = resolve_slots io disk_p (filesystems s) s"

definition disk_search_and_init :: "'d ports \<Rightarrow> 'd kstate \<Rightarrow> 'd kstate option" where
  "disk_search_and_init io s =
     do { let s = s\<lparr>root_disk := zero_disk\<lparr>disk_id := 0, disk_type := DISK_TYPE_REAL,
                                sector_size := DISK_SECTOR_SIZE\<rparr>\<rparr>;
          (fs, s) \<leftarrow> fs_resolve io (Some Root_disk) s;
          Some (s\<lparr>root_disk := (root_disk s)\<lparr>disk_filesystem := fs\<rparr>\<rparr>) }"

section \<open>The table of descriptors\<close>

fun first_zero :: "addr list \<Rightarrow> nat \<Rightarrow> nat option" where
  "first_zero [] i = None"
| "first_zero (x # xs) i = (if x \<noteq> 0 then first_zero xs (Suc i) else Some i)"

text \<open>The result and, when it is 0, the new descriptor.\<close>

definition file_new_descriptor :: "'d kstate \<Rightarrow> (int \<times> addr \<times> 'd kstate) option" where
  "file_new_descriptor s =
     (case first_zero (filedescriptors s) 0 of
        None \<Rightarrow> Some (- ENOMEM, 0, s)
      | Some i \<Rightarrow>
          let (desc, s) = kzalloc 16 s
          in if desc = 0 then None
             else Some (0, desc,
               s\<lparr>file_descs := (file_descs s)(desc \<mapsto> zero_file_descriptor\<lparr>fd_index := int i + 1\<rparr>),
                 filedescriptors := (filedescriptors s)[i := desc]\<rparr>))"

definition file_descriptor_free :: "addr \<Rightarrow> 'd kstate \<Rightarrow> 'd kstate option" where
  "file_descriptor_free desc_p s =
     do { desc \<leftarrow> file_descs s desc_p;
          let i = fd_index desc - 1;
          if i < 0 \<or> i \<ge> int (length (filedescriptors s)) then None
          else kfree desc_p (s\<lparr>filedescriptors := (filedescriptors s)[nat i := 0]\<rparr>) }"

text \<open>Descriptor 0 makes the code read \<open>filedescriptors[-1]\<close>.\<close>

definition file_get_descriptor :: "int \<Rightarrow> 'd kstate \<Rightarrow> addr option" where
  "file_get_descriptor fd s =
     (if fd < 0 \<or> fd \<ge> int MAX_FILEDESCRIPTORS then Some 0
      else let index = fd - 1
           in if index < 0 \<or> index \<ge> int (length (filedescriptors s)) then None
              else Some (filedescriptors s ! nat index))"

section \<open>The file interface\<close>

definition get_file_mode :: "(int \<Rightarrow> byte) \<Rightarrow> int" where
  "get_file_mode str =
     (if strncmp str (literal [0x72]) 1 = 0 then FILE_MODE_READ
      else if strncmp str (literal [0x77]) 1 = 0 then FILE_MODE_WRITE
      else if strncmp str (literal [0x61]) 1 = 0 then FILE_MODE_APPEND
      else FILE_MODE_INVALID)"

text \<open>From the parsed path to the label \<open>out\<close>.\<close>

definition fopen_disk ::
    "'d ports \<Rightarrow> path_root_t \<Rightarrow> (int \<Rightarrow> byte) \<Rightarrow> 'd kstate \<Rightarrow> (int \<times> 'd kstate) option" where
  "fopen_disk io path_root mode_str s =
     (if parts path_root = 0 then Some (- EINVARG, s)
      else
        let disk_p = disk_get (drive_no path_root)
        in if disk_p = None then Some (- EIO, s)
        else do {
          disk \<leftarrow> disk_ref disk_p s;
          if disk_filesystem disk = None then Some (- EIO, s)
          else
            let mode = get_file_mode mode_str
            in if FILE_MODE_INVALID = mode then Some (- EINVARG, s)
            else do {
              (fd_priv, s) \<leftarrow> vfs_open io (disk_filesystem disk) disk_p (parts path_root) mode s;
              if fd_priv = 0 then Some (- EIO, s)
              else if fd_priv < 0 then Some (fd_priv, s)
              else do {
                (res, desc_p, s) \<leftarrow> file_new_descriptor s;
                if res < 0 then Some (res, s)
                else do {
                  disk \<leftarrow> disk_ref disk_p s;
                  desc \<leftarrow> file_descs s desc_p;
                  let desc = desc\<lparr>fd_fs := disk_filesystem disk, fd_private := fd_priv, fd_disk := disk_p\<rparr>;
                  Some (fd_index desc, s\<lparr>file_descs := (file_descs s)(desc_p \<mapsto> desc)\<rparr>) } } } })"

definition fopen ::
    "'d ports \<Rightarrow> addr \<Rightarrow> (int \<Rightarrow> byte) \<Rightarrow> 'd kstate \<Rightarrow> (int \<times> 'd kstate) option" where
  "fopen io filename mode_str s =
     do { let (root_p, s) = kzalloc 8 s;
          let s = (if root_p = 0 then s
                   else s\<lparr>path_roots := (path_roots s)(root_p \<mapsto> zero_path_root)\<rparr>);
          (res, s) \<leftarrow> pparser_parse_path_root filename root_p s;
          (res, s) \<leftarrow>
            (if res < 0 then Some (res, s)
             else do { path_root \<leftarrow> path_roots s root_p; fopen_disk io path_root mode_str s });
          Some (if res < 0 then 0 else res, s) }"

definition fseek :: "int \<Rightarrow> int \<Rightarrow> int \<Rightarrow> 'd kstate \<Rightarrow> (int \<times> 'd kstate) option" where
  "fseek fd offset whence s =
     do { desc_p \<leftarrow> file_get_descriptor fd s;
          if desc_p = 0 then Some (- EIO, s)
          else do {
            desc \<leftarrow> file_descs s desc_p;
            (res, s) \<leftarrow> vfs_seek (fd_fs desc) (fd_private desc) offset whence s;
            Some (if res \<noteq> OK then - EIO else res, s) } }"

text \<open>\<open>fread\<close> stores the bytes read at \<open>out\<close>; \<open>sz\<close> and \<open>nmemb\<close> are unsigned.  The code stores each sector's bytes
as soon as it has them, the model stores all of them at the end, in a memory apart from the objects.  Both come to
the same unless the buffer lies over an object that the rest of the read uses; so properties of \<open>fread\<close> are
restricted to buffers that are clear of the objects (\<open>clear_of_objects\<close>, \<open>free_buffer\<close>, \<open>lends\<close>).\<close>

definition fread ::
    "'d ports \<Rightarrow> addr \<Rightarrow> int \<Rightarrow> int \<Rightarrow> int \<Rightarrow> 'd kstate \<Rightarrow> (int \<times> 'd kstate) option" where
  "fread io out sz nmemb fd s =
     (if sz = 0 \<or> nmemb = 0 \<or> fd < 1 then Some (- EINVARG, s)
      else do {
        desc_p \<leftarrow> file_get_descriptor fd s;
        if desc_p = 0 then Some (- EIO, s)
        else do {
          desc \<leftarrow> file_descs s desc_p;
          (res, bs, s) \<leftarrow> vfs_read io (fd_fs desc) (fd_disk desc) (fd_private desc) sz nmemb s;
          Some (res, s\<lparr>kmem := write_bytes (kmem s) out bs\<rparr>) } })"

definition fstat :: "int \<Rightarrow> file_stat_t \<Rightarrow> 'd kstate \<Rightarrow> (int \<times> file_stat_t) option" where
  "fstat fd stat s =
     do { desc_p \<leftarrow> file_get_descriptor fd s;
          if desc_p = 0 then Some (- EIO, stat)
          else do {
            desc \<leftarrow> file_descs s desc_p;
            vfs_stat (fd_fs desc) (fd_private desc) stat s } }"

definition fclose :: "int \<Rightarrow> 'd kstate \<Rightarrow> (int \<times> 'd kstate) option" where
  "fclose fd s =
     do { desc_p \<leftarrow> file_get_descriptor fd s;
          if desc_p = 0 then Some (- EIO, s)
          else do {
            desc \<leftarrow> file_descs s desc_p;
            (res, s) \<leftarrow> vfs_close (fd_fs desc) (fd_private desc) s;
            if res \<noteq> OK then Some (- EIO, s)
            else do { s \<leftarrow> file_descriptor_free desc_p s; Some (res, s) } } }"


section \<open>Open descriptors\<close>

text \<open>\<open>fd\<close> is an open descriptor of a regular file of the root disk.\<close>

definition open_fd :: "'d kstate \<Rightarrow> int \<Rightarrow> fat_directory_item \<Rightarrow> int \<Rightarrow> bool" where
  "open_fd s fd item pos \<longleftrightarrow>
     1 \<le> fd \<and> fd < 512 \<and> length (filedescriptors s) = 512 \<and>
     (\<exists>desc_p priv. filedescriptors s ! nat (fd - 1) = desc_p \<and> desc_p \<noteq> 0 \<and>
        file_descs s desc_p = Some \<lparr>fd_index = fd, fd_fs = Some Fat16_fs, fd_private = priv,
                                    fd_disk = Some Root_disk\<rparr> \<and>
        open_file s priv item pos)"

lemma open_fdE:
  assumes "open_fd s fd item pos"
  obtains desc_p priv where "1 \<le> fd" "fd < 512" "file_get_descriptor fd s = Some desc_p" "desc_p \<noteq> 0"
    "file_descs s desc_p = Some \<lparr>fd_index = fd, fd_fs = Some Fat16_fs, fd_private = priv,
                                 fd_disk = Some Root_disk\<rparr>"
    "open_file s priv item pos"
  using assms by (auto simp: open_fd_def file_get_descriptor_def Let_def)

lemma open_fd_frame: "io_frame s s' \<Longrightarrow> open_fd s' fd item pos = open_fd s fd item pos"
  by (simp add: open_fd_def io_frame_fields open_file_frame)

lemma open_fd_kmem [simp]: "open_fd (s\<lparr>kmem := m\<rparr>) fd item pos = open_fd s fd item pos"
  by (simp add: open_fd_def open_file_def)

lemma fat_volume_kmem [simp]: "fat_volume (s\<lparr>kmem := m\<rparr>) fp = fat_volume s fp"
  by (simp add: fat_volume_def private_of_def on_root_def)

context sector_device
begin

lemma fread_data:
  assumes "fat_volume s fp" and "good (dev s)" and fd: "open_fd s fd item pos"
    and "c = fat16_get_first_cluster item"
    and "\<forall>x \<in> set (fat_chain img fp c n). data_cluster fp x"
    and "0 \<le> pos" and "0 < sz" and "0 < k" and "pos + sz * k \<le> int n * bytes_per_cluster fp"
    and "pos + sz * k < 2147483648"
  obtains s' where "fread io out sz k fd s = Some (0, s')"
    "kmem s' = write_bytes (kmem s) out (take (nat (sz * k)) (drop (nat pos) (chain_data img fp c n)))"
    "fat_volume s' fp" "open_fd s' fd item pos" "good (dev s')" "io_frame s (s'\<lparr>kmem := kmem s\<rparr>)"
proof -
  obtain desc_p priv where d: "1 \<le> fd" "fd < 512" "file_get_descriptor fd s = Some desc_p" "desc_p \<noteq> 0"
    "file_descs s desc_p = Some \<lparr>fd_index = fd, fd_fs = Some Fat16_fs, fd_private = priv,
                                 fd_disk = Some Root_disk\<rparr>"
    "open_file s priv item pos"
    using fd by (rule open_fdE)
  let ?bs = "take (nat (sz * k)) (drop (nat pos) (chain_data img fp c n))"
  obtain s1 where s1: "fat16_read io (Some Root_disk) priv sz k s = Some (0, ?bs, s1)"
    "io_frame s s1" "good (dev s1)"
    using fat16_read_data [OF assms(1,2) d(6) assms(4-10)] by blast
  have "fread io out sz k fd s = Some (0, s1\<lparr>kmem := write_bytes (kmem s1) out ?bs\<rparr>)"
    using d s1(1) assms(7,8) by (simp add: fread_def vfs_read_def)
  moreover have "s1\<lparr>kmem := kmem s\<rparr> = s1" using io_frame_fields(3) [OF s1(2)] by (cases s1) simp
  then have "io_frame s (s1\<lparr>kmem := write_bytes (kmem s1) out ?bs\<rparr>\<lparr>kmem := kmem s\<rparr>)" using s1(2) by simp
  ultimately show thesis
    using s1 fat_volume_frame [OF assms(1) s1(2)] fd
    by (intro that [of "s1\<lparr>kmem := write_bytes (kmem s1) out ?bs\<rparr>"]) (simp_all add: open_fd_frame io_frame_fields)
qed

end

section \<open>Properties\<close>

lemma length_chain_slice:
  assumes "0 \<le> pos" "0 \<le> k" "pos + k \<le> int n * bytes_per_cluster fp"
  shows "length (take (nat k) (drop (nat pos) (chain_data img fp c n))) = nat k"
proof -
  have "int (length (chain_data img fp c n)) = int n * bytes_per_cluster fp"
    using bytes_per_cluster_range(1) [of fp] by (simp add: length_chain_data)
  then have "nat pos + nat k \<le> length (chain_data img fp c n)" using assms by linarith
  then show ?thesis by simp
qed

text \<open>An object ends with its page, an array of items where its last item does; a buffer is clear of the objects when it
lies in the address space and meets none of them.\<close>

definition object_end :: "'d kstate \<Rightarrow> addr \<Rightarrow> addr" where
  "object_end s p =
     p + (case dir_items s p of Some items \<Rightarrow> max 4096 (int (length items) * 32) | None \<Rightarrow> 4096)"

definition clear_of_objects :: "'d kstate \<Rightarrow> addr \<Rightarrow> int \<Rightarrow> bool" where
  "clear_of_objects s out len \<longleftrightarrow>
     0 \<le> out \<and> out + len \<le> 4294967296 \<and> (\<forall>p. inhabitants s p \<noteq> 0 \<longrightarrow> object_end s p \<le> out \<or> out + len \<le> p)"

lemma clear_of_objects_kept:
  assumes "clear_of_objects s out len" and "io_frame s (s'\<lparr>kmem := kmem s\<rparr>)"
  shows "clear_of_objects s' out len"
proof -
  have same: "s'\<lparr>kmem := kmem s\<rparr> = s\<lparr>dev := dev s', streamers := streamers s'\<rparr>"
    "streamers s' p = None \<longleftrightarrow> streamers s p = None" for p
    using assms(2) by (simp_all add: io_frame_def)
  then have "inhabitants s' p = inhabitants s p" "dir_items s' p = dir_items s p" for p
    by (cases s, cases s', simp add: inhabitants_def)+
  then show ?thesis using assms(1) by (simp add: clear_of_objects_def object_end_def)
qed

text \<open>C19: \<open>fread\<close> on an open descriptor, into a buffer that is clear of the objects on the heap, stores at \<open>out\<close>
exactly the bytes of the file's cluster
chain from its position on, returns 0 (not the number of members read), changes no byte outside the buffer and no object
except the positions of streams (\<open>io_frame\<close>: the volume's streams stay on their disk), leaves the buffer clear of the
objects, and leaves the descriptor open at the same position.\<close>

theorem fread_file:
  assumes "ata_laws io drv" and "idle_drive img (drv (dev s))" and "fat_volume s fp"
    and "open_fd s fd item pos"
    and "\<forall>x \<in> set (fat_chain img fp (fat16_get_first_cluster item) n). data_cluster fp x"
    and "0 \<le> pos" and "0 < sz" and "0 < nmemb"
    and "pos + sz * nmemb \<le> int n * bytes_per_cluster fp" and "pos + sz * nmemb < 2147483648"
    and "clear_of_objects s out (sz * nmemb)"
  shows "\<exists>s'. fread io out sz nmemb fd s = Some (0, s')
    \<and> read_bytes (kmem s') out (nat (sz * nmemb)) = take (nat (sz * nmemb)) (drop (nat pos)
        (chain_data img fp (fat16_get_first_cluster item) n))
    \<and> (\<forall>a. a < out \<or> out + sz * nmemb \<le> a \<longrightarrow> kmem s' a = kmem s a)
    \<and> io_frame s (s'\<lparr>kmem := kmem s\<rparr>) \<and> clear_of_objects s' out (sz * nmemb)
    \<and> open_fd s' fd item pos \<and> fat_volume s' fp"
proof -
  obtain s' where s': "fread io out sz nmemb fd s = Some (0, s')"
    "kmem s' = write_bytes (kmem s) out (take (nat (sz * nmemb)) (drop (nat pos)
      (chain_data img fp (fat16_get_first_cluster item) n)))"
    "fat_volume s' fp" "open_fd s' fd item pos" "io_frame s (s'\<lparr>kmem := kmem s\<rparr>)"
    using sector_device.fread_data [OF ata_sector_device [OF assms(1)] assms(3,2,4) refl assms(5-10)] by metis
  have "0 \<le> sz * nmemb" using assms(7,8) by simp
  then show ?thesis
    using s' length_chain_slice [OF assms(6) _ assms(9)] clear_of_objects_kept [OF assms(11) s'(5)]
    by (intro exI [of _ s']) (auto simp: write_bytes_out)
qed

definition demo_fd :: "ata kstate" where
  "demo_fd = demo_open
     \<lparr>filedescriptors := 0x1008000 # replicate 511 0,
      file_descs := [0x1008000 \<mapsto> \<lparr>fd_index = 1, fd_fs = Some Fat16_fs, fd_private = 0x1005000,
                                   fd_disk = Some Root_disk\<rparr>]\<rparr>"

lemma demo_fd_facts:
  "fat_volume demo_fd demo_private" "idle_drive demo_image (dev demo_fd)" "open_fd demo_fd 1 demo_item 500"
  using demo_open_facts
  by (simp_all add: fat_volume_def demo_fd_def private_of_def on_root_def open_fd_def open_file_def)

lemma demo_clear:
  assumes "0 \<le> out" and "out + len \<le> 0x1000000"
  shows "clear_of_objects demo_fd out len"
proof -
  have "0x1000000 \<le> p" if "inhabitants demo_fd p \<noteq> 0" for p
    using that by (auto simp: inhabitants_def demo_fd_def demo_open_def demo_state_def initial_state_def split: if_splits)
  then have "out + len \<le> p" if "inhabitants demo_fd p \<noteq> 0" for p using assms(2) that by (meson order_trans)
  then show ?thesis using assms by (simp add: clear_of_objects_def)
qed

lemma demo_clusters:
  "\<forall>x \<in> set (fat_chain demo_image demo_private (fat16_get_first_cluster demo_item) 2). data_cluster demo_private x"
  by (simp add: demo_open_facts numeral_2_eq_2 demo_chain)

theorem fread_file_witness:
  "\<exists>s'. fread ata_ports 0x200000 100 2 1 demo_fd = Some (0, s')
    \<and> read_bytes (kmem s') 0x200000 200 = take 200 (drop 500 (chain_data demo_image demo_private 2 2))"
  using fread_file [OF ata_ports_laws demo_fd_facts(2,1,3) demo_clusters, of 100 2 "0x200000"] demo_clear [of "0x200000" 200]
  by (auto simp: demo_chain demo_open_facts)

text \<open>Because the position is not advanced, reading twice in a row stores the same bytes twice;
a file cannot be read in pieces without seeking.\<close>

theorem fread_repeats:
  assumes "ata_laws io drv" and "idle_drive img (drv (dev s))" and "fat_volume s fp"
    and "open_fd s fd item pos"
    and "\<forall>x \<in> set (fat_chain img fp (fat16_get_first_cluster item) n). data_cluster fp x"
    and "0 \<le> pos" and "0 < sz" and "0 < nmemb"
    and "pos + sz * nmemb \<le> int n * bytes_per_cluster fp" and "pos + sz * nmemb < 2147483648"
    and "clear_of_objects s out (sz * nmemb)" and "clear_of_objects s out' (sz * nmemb)"
  shows "\<exists>s1 s2. fread io out sz nmemb fd s = Some (0, s1) \<and> fread io out' sz nmemb fd s1 = Some (0, s2)
    \<and> read_bytes (kmem s2) out' (nat (sz * nmemb)) = read_bytes (kmem s1) out (nat (sz * nmemb))"
proof -
  note read = sector_device.fread_data [OF ata_sector_device [OF assms(1), of img]]
  let ?bs = "take (nat (sz * nmemb)) (drop (nat pos) (chain_data img fp (fat16_get_first_cluster item) n))"
  obtain s1 where s1: "fread io out sz nmemb fd s = Some (0, s1)" "kmem s1 = write_bytes (kmem s) out ?bs"
    "fat_volume s1 fp" "open_fd s1 fd item pos" "idle_drive img (drv (dev s1))"
    using read [OF assms(3,2,4) refl assms(5-10)] by metis
  obtain s2 where s2: "fread io out' sz nmemb fd s1 = Some (0, s2)" "kmem s2 = write_bytes (kmem s1) out' ?bs"
    using read [OF s1(3,5,4) refl assms(5-10)] by metis
  have "0 \<le> sz * nmemb" using assms(7,8) by simp
  then show ?thesis using s1 s2 length_chain_slice [OF assms(6) _ assms(9)] by auto
qed

theorem fread_repeats_witness:
  "\<exists>s1 s2. fread ata_ports 0x200000 100 2 1 demo_fd = Some (0, s1)
    \<and> fread ata_ports 0x300000 100 2 1 s1 = Some (0, s2)
    \<and> read_bytes (kmem s2) 0x300000 200 = read_bytes (kmem s1) 0x200000 200"
  using fread_repeats [OF ata_ports_laws demo_fd_facts(2,1,3) demo_clusters, of 100 2 "0x200000" "0x300000"]
    demo_clear [of "0x200000" 200] demo_clear [of "0x300000" 200]
  by (auto simp: demo_chain)

text \<open>C20: seeking to an offset within the file and then reading, into a buffer that is clear of the objects on the heap, yields
the bytes at that offset; the descriptor is then open at the offset, and no byte outside the buffer has changed.\<close>

theorem fseek_fread:
  assumes "ata_laws io drv" and "idle_drive img (drv (dev s))" and "fat_volume s fp"
    and "open_fd s fd item pos" and "0 \<le> off" and "off \<le> uint (filesize item)"
    and "\<forall>x \<in> set (fat_chain img fp (fat16_get_first_cluster item) n). data_cluster fp x"
    and "0 < sz" and "0 < nmemb"
    and "off + sz * nmemb \<le> int n * bytes_per_cluster fp" and "off + sz * nmemb < 2147483648"
    and "clear_of_objects s out (sz * nmemb)"
  shows "\<exists>s1 s2. fseek fd off SEEK_SET s = Some (0, s1) \<and> fread io out sz nmemb fd s1 = Some (0, s2)
    \<and> read_bytes (kmem s2) out (nat (sz * nmemb)) = take (nat (sz * nmemb)) (drop (nat off)
        (chain_data img fp (fat16_get_first_cluster item) n))
    \<and> open_fd s2 fd item off \<and> clear_of_objects s2 out (sz * nmemb)
    \<and> (\<forall>a. a < out \<or> out + sz * nmemb \<le> a \<longrightarrow> kmem s2 a = kmem s a)"
proof -
  obtain desc_p priv where d: "1 \<le> fd" "fd < 512" "file_get_descriptor fd s = Some desc_p" "desc_p \<noteq> 0"
    "file_descs s desc_p = Some \<lparr>fd_index = fd, fd_fs = Some Fat16_fs, fd_private = priv,
                                 fd_disk = Some Root_disk\<rparr>"
    "open_file s priv item pos"
    using assms(4) by (rule open_fdE)
  obtain item_p ptr where f: "fat_descs s priv = Some \<lparr>ffd_item = item_p, ffd_pos = pos\<rparr>"
    "fat_items s item_p = Some \<lparr>item_ptr = ptr, item_type = FAT_ITEM_TYPE_FILE\<rparr>" "dir_items s ptr = Some [item]"
    using d(6) by (auto simp: open_file_def)
  have "0 \<le> sz * nmemb" using assms(8,9) by simp
  then have "off < 2147483648" using assms(11) by linarith
  then have u: "u32 off = off" using assms(5) by simp
  let ?s1 = "s\<lparr>fat_descs := (fat_descs s)(priv \<mapsto> \<lparr>ffd_item = item_p, ffd_pos = off\<rparr>)\<rparr>"
  have seek: "fseek fd off SEEK_SET s = Some (0, ?s1)"
    using d f u assms(6) by (simp add: fseek_def vfs_seek_def fat16_seek_def item_at_def)
  have "open_fd ?s1 fd item off"
    using assms(4) d f by (auto simp: open_fd_def open_file_def file_get_descriptor_def Let_def split: if_splits)
  moreover have "fat_volume ?s1 fp" "idle_drive img (drv (dev ?s1))"
    using assms(2,3) by (simp_all add: fat_volume_def private_of_def on_root_def)
  ultimately obtain s2 where s2: "fread io out sz nmemb fd ?s1 = Some (0, s2)"
    "kmem s2 = write_bytes (kmem ?s1) out (take (nat (sz * nmemb)) (drop (nat off)
      (chain_data img fp (fat16_get_first_cluster item) n)))"
    "open_fd s2 fd item off" "io_frame ?s1 (s2\<lparr>kmem := kmem ?s1\<rparr>)"
    using sector_device.fread_data [OF ata_sector_device [OF assms(1)], of ?s1 fp img fd item off _ n sz nmemb out]
      assms(5,7-11) by metis
  have "inhabitants ?s1 p = inhabitants s p" for p using f(1) by (auto simp: inhabitants_def)
  then have "clear_of_objects ?s1 out (sz * nmemb)" using assms(12) by (simp add: clear_of_objects_def object_end_def)
  then have "clear_of_objects s2 out (sz * nmemb)" by (rule clear_of_objects_kept [OF _ s2(4)])
  then show ?thesis
    using seek s2 length_chain_slice [OF assms(5) \<open>0 \<le> sz * nmemb\<close> assms(10)] \<open>0 \<le> sz * nmemb\<close>
    by (auto simp: write_bytes_out)
qed

theorem fseek_fread_witness:
  "\<exists>s1 s2. fseek 1 10 SEEK_SET demo_fd = Some (0, s1) \<and> fread ata_ports 0x200000 100 1 1 s1 = Some (0, s2)
    \<and> read_bytes (kmem s2) 0x200000 100 = take 100 (drop 10 (chain_data demo_image demo_private 2 2))"
proof -
  have "uint (filesize demo_item) = 600"
    by (simp add: demo_item_def directory_item_of_def word32_at_def uint_le32 demo_image_def demo_bytes_def)
  then show ?thesis
    using fseek_fread [OF ata_ports_laws demo_fd_facts(2,1,3) _ _ demo_clusters, of 10 100 1 "0x200000"]
      demo_clear [of "0x200000" 100]
    by (auto simp: demo_chain demo_open_facts)
qed


section \<open>The descriptor table\<close>

lemma first_zero_spec:
  "first_zero xs k = (if \<forall>j < length xs. xs ! j \<noteq> 0 then None else Some (k + (LEAST j. j < length xs \<and> xs ! j = 0)))"
proof (induction xs arbitrary: k)
  case (Cons x xs)
  show ?case
  proof (cases "x = 0")
    case True
    then have "(LEAST j. j < length (x # xs) \<and> (x # xs) ! j = 0) = 0" by (intro Least_equality) auto
    then show ?thesis using True by auto
  next
    case False
    have all: "(\<forall>j < length (x # xs). (x # xs) ! j \<noteq> 0) \<longleftrightarrow> (\<forall>j < length xs. xs ! j \<noteq> 0)"
      using False by (auto simp: nth_Cons split: nat.splits)
    show ?thesis
    proof (cases "\<forall>j < length xs. xs ! j \<noteq> 0")
      case True
      then show ?thesis using False Cons.IH [of "Suc k"] all by simp
    next
      case ex: False
      then obtain j where "j < length xs \<and> xs ! j = 0" by blast
      then have "(LEAST j. j < length (x # xs) \<and> (x # xs) ! j = 0) =
          Suc (LEAST j. Suc j < length (x # xs) \<and> (x # xs) ! Suc j = 0)"
        using False by (intro Least_Suc [of _ "Suc j"]) auto
      then show ?thesis using False Cons.IH [of "Suc k"] all ex by simp
    qed
  qed
qed simp

text \<open>A new descriptor takes the first free slot, is a fresh page of the heap, and its number is
the slot's index plus one; it is found again under that number, except that number 512, the last
slot's, is rejected by every operation.  With no free slot the result is \<open>-ENOMEM\<close>.\<close>

theorem file_new_descriptor_slot:
  assumes "kheap s = kernel_heap" and "0 < free_pages kernel_heap (kmem s)"
    and "length (filedescriptors s) = 512"
  shows "if \<forall>j < 512. filedescriptors s ! j \<noteq> 0 then file_new_descriptor s = Some (- ENOMEM, 0, s)
    else \<exists>i desc s'. i < 512 \<and> filedescriptors s ! i = 0 \<and> (\<forall>j < i. filedescriptors s ! j \<noteq> 0)
      \<and> file_new_descriptor s = Some (0, desc, s') \<and> 0 < desc
      \<and> (\<forall>a. desc \<le> a \<and> a < desc + 4096 \<longrightarrow> \<not> owned kernel_heap (kmem s) a)
      \<and> map_option fd_index (file_descs s' desc) = Some (int i + 1)
      \<and> filedescriptors s' = (filedescriptors s)[i := desc]
      \<and> file_get_descriptor (int i + 1) s' = Some (if i = 511 then 0 else desc)"
proof (cases "\<forall>j < 512. filedescriptors s ! j \<noteq> 0")
  case True
  then show ?thesis using assms(3) by (simp add: file_new_descriptor_def first_zero_spec)
next
  case False
  define i where "i = (LEAST j. j < 512 \<and> filedescriptors s ! j = 0)"
  have i: "i < 512" "filedescriptors s ! i = 0"
    using LeastI_ex [of "\<lambda>j. j < 512 \<and> filedescriptors s ! j = 0"] False by (auto simp: i_def)
  have before: "filedescriptors s ! j \<noteq> 0" if "j < i" for j
    using not_less_Least [of j "\<lambda>j. j < 512 \<and> filedescriptors s ! j = 0"] that i(1) by (auto simp: i_def)
  obtain p m where p: "kzalloc 16 s = (p, s\<lparr>kmem := m\<rparr>)" "0 < p"
    "\<And>a. p \<le> a \<Longrightarrow> a < p + 4096 \<Longrightarrow> \<not> owned kernel_heap (kmem s) a"
    by (rule kzalloc_granted [of s 16]) (use assms(1,2) in auto)
  have "first_zero (filedescriptors s) 0 = Some i"
    using False assms(3) by (simp add: first_zero_spec i_def)
  then show ?thesis
    using p i before assms(3) False
    by (auto simp: file_new_descriptor_def file_get_descriptor_def zero_file_descriptor_def Let_def
        intro!: exI [of _ i])
qed

theorem file_new_descriptor_slot_witness:
  "\<exists>desc s'. file_new_descriptor (initial_state ()) = Some (0, desc, s') \<and> file_get_descriptor 1 s' = Some desc"
proof -
  let ?s = "initial_state ()"
  have s: "kheap ?s = kernel_heap" "0 < free_pages kernel_heap (kmem ?s)" "length (filedescriptors ?s) = 512"
    "filedescriptors ?s ! j = (if j < 512 then 0 else filedescriptors ?s ! j)" for j
    by (simp_all add: initial_state_def free_pages_empty is_free_block_def)
  obtain i desc s' where "i < 512" "\<forall>j < i. filedescriptors ?s ! j \<noteq> 0"
    "file_new_descriptor ?s = Some (0, desc, s')"
    "file_get_descriptor (int i + 1) s' = Some (if i = 511 then 0 else desc)"
    using file_new_descriptor_slot [OF s(1-3)] s(4) [of 0] by (auto split: if_splits)
  moreover from this have "i = 0" using s(4) [of 0] by (cases i) auto
  ultimately show ?thesis by auto
qed

text \<open>\<open>fopen\<close> never returns a negative number: a failure is 0.\<close>

theorem fopen_not_negative:
  assumes "fopen io filename mode_str s = Some (r, s')"
  shows "0 \<le> r"
  using assms by (auto simp: fopen_def bind_eq_Some_conv Let_def split: if_splits prod.splits)

theorem fopen_not_negative_witness:
  "\<exists>r s'. fopen ata_ports 0x100000 (literal [0x72]) (initial_state (blank_drive demo_image)) = Some (r, s')
    \<and> 0 \<le> r"
proof -
  let ?s = "initial_state (blank_drive demo_image)"
  obtain m where z: "kzalloc 8 ?s = (16777216, ?s\<lparr>kmem := m\<rparr>)" and m: "m 0x100000 = 0"
    using kheap_zalloc_single [OF kernel_heap_layout _ _ first_fit_empty, of 8]
    by (auto simp: kzalloc_def initial_state_def block_addr_def memset_eq mark_run_def entry_addr_def)
  then have "\<exists>s'. fopen ata_ports 0x100000 (literal [0x72]) ?s = Some (0, s')"
    by (simp add: fopen_def pparser_parse_path_root_def strlen_def at_def pparser_parse_drive_no_def
        is_digit_def strlen_loop.simps [of _ 0])
  then show ?thesis using fopen_not_negative by blast
qed

text \<open>\<open>fread\<close> refuses a zero size or count and a number below 1 with \<open>-EINVARG\<close>, and a number
that is out of range or whose slot is empty with \<open>-EIO\<close>, in each case changing nothing.\<close>

theorem fread_rejects:
  assumes "length (filedescriptors s) = 512"
    and "sz = 0 \<or> nmemb = 0 \<or> fd < 1 \<or> 512 \<le> fd \<or> filedescriptors s ! nat (fd - 1) = 0"
  shows "fread io out sz nmemb fd s = Some (if sz = 0 \<or> nmemb = 0 \<or> fd < 1 then - EINVARG else - EIO, s)"
  using assms by (auto simp: fread_def file_get_descriptor_def Let_def)

theorem fread_rejects_witness:
  "fread ata_ports 0x200000 1 1 512 demo_fd = Some (- 1, demo_fd)
    \<and> fread ata_ports 0x200000 1 0 1 demo_fd = Some (- 2, demo_fd)"
  using fread_rejects [of demo_fd 1 1 512 ata_ports "0x200000"] fread_rejects [of demo_fd 1 0 1 ata_ports "0x200000"]
  by (simp add: demo_fd_def)

text \<open>The mode is decided by the first character of the mode string alone.\<close>

theorem get_file_mode_first_char:
  "get_file_mode str = (if str 0 = 0x72 then FILE_MODE_READ else if str 0 = 0x77 then FILE_MODE_WRITE
     else if str 0 = 0x61 then FILE_MODE_APPEND else FILE_MODE_INVALID)"
proof -
  have "strncmp str (literal [c]) 1 = 0 \<longleftrightarrow> str 0 = c" for c
    by (simp add: strncmp_def strncmp_loop.simps [of _ _ _ 0] strncmp_loop.simps [of _ _ _ "Suc 0"] literal_def)
  then show ?thesis by (simp add: get_file_mode_def)
qed

end
