(* ===== verification/Mount.thy ===== *)
theory Mount
  imports Fat16 Objects
begin

text \<open>
  Mounting: what \<open>fat16_resolve\<close> makes of a disk image.  \<open>fat16_image\<close> says when an image is a
  FAT16 volume the code can mount: the signature, a root directory of at most one page, and an
  end mark that the count of its items finds.  The lemmas follow \<open>fat16_resolve\<close> function by
  function; the properties say what is in memory afterwards, and what a foreign disk leaves behind.
\<close>

section \<open>The volume on the image\<close>

definition boot_header :: "(int \<Rightarrow> byte) \<Rightarrow> fat_h_t" where
  "boot_header img = fat_h_of (read_bytes img 0 62)"

definition root_sector :: "(int \<Rightarrow> byte) \<Rightarrow> int" where
  "root_sector img =
     (let h = primary_header (boot_header img)
      in uint (fat_copies h) * uint (sectors_per_fat h) + uint (reserved_sectors h))"

definition root_entries :: "(int \<Rightarrow> byte) \<Rightarrow> int" where
  "root_entries img = uint (root_dir_entries (primary_header (boot_header img)))"

definition root_sectors :: "(int \<Rightarrow> byte) \<Rightarrow> int" where
  "root_sectors img =
     root_entries img * 32 div 512 + (if root_entries img * 32 mod 512 = 0 then 0 else 1)"

text \<open>The items of the root directory, deleted and unused ones included.\<close>

definition root_items :: "(int \<Rightarrow> byte) \<Rightarrow> fat_directory_item list" where
  "root_items img =
     directory_items_of (read_bytes img (512 * root_sector img) (32 * nat (root_entries img)))"

text \<open>The number of items before the end mark at index \<open>n\<close> that are not deleted.\<close>

definition live_items :: "(int \<Rightarrow> byte) \<Rightarrow> int \<Rightarrow> nat \<Rightarrow> int" where
  "live_items img pos n = int (length (filter (\<lambda>i. img (pos + 32 * int i) \<noteq> 0xE5) [0..<n]))"

definition items_end :: "(int \<Rightarrow> byte) \<Rightarrow> int \<Rightarrow> nat \<Rightarrow> bool" where
  "items_end img pos n \<longleftrightarrow>
     (\<forall>i < n. img (pos + 32 * int i) \<noteq> 0) \<and> img (pos + 32 * int n) = 0 \<and>
     0 \<le> pos \<and> pos + 32 * int n + 32 < 2147483648"

definition fat16_image :: "(int \<Rightarrow> byte) \<Rightarrow> nat \<Rightarrow> bool" where
  "fat16_image img n \<longleftrightarrow>
     signature (extended_header (boot_header img)) = KERNEL_FAT16_SIGNATURE \<and>
     0 < root_entries img \<and> root_entries img \<le> 128 \<and>
     512 * root_sector img + 4096 < 2147483648 \<and> items_end img (512 * root_sector img) n"

lemma root_sector_nonneg: "0 \<le> root_sector img"
  by (simp add: root_sector_def Let_def)

lemma live_items_Suc:
  "live_items img pos (Suc n) = (if img pos = 0xE5 then 0 else 1) + live_items img (pos + 32) n"
proof -
  have "[0..<Suc n] = 0 # map Suc [0..<n]" by (simp add: map_Suc_upt upt_conv_Cons del: upt_Suc)
  then show ?thesis by (simp add: live_items_def filter_map comp_def algebra_simps del: upt_Suc)
qed

lemma live_items_range: "0 \<le> live_items img pos n" "live_items img pos n \<le> int n"
  using length_filter_le [of _ "[0..<n]"] by (auto simp: live_items_def)

lemma items_end_Suc: "items_end img pos (Suc n) \<Longrightarrow> img pos \<noteq> 0 \<and> items_end img (pos + 32) n"
proof -
  assume a: "items_end img pos (Suc n)"
  have "img (pos + 32 + 32 * int i) \<noteq> 0" if "i < n" for i
    using a that by (auto simp: items_end_def algebra_simps dest: spec [of _ "Suc i"])
  moreover have "img pos \<noteq> 0" using a by (auto simp: items_end_def dest: spec [of _ 0])
  ultimately show ?thesis using a by (simp add: items_end_def algebra_simps)
qed

lemma directory_item_first: "0 < length bs \<Longrightarrow> di_filename (directory_item_of bs) ! 0 = bs ! 0"
  by (cases bs) (simp_all add: directory_item_of_def slice_def)

section \<open>Counting and loading the root directory\<close>

context sector_device
begin

lemma count_items_image:
  "items_end img pos n \<Longrightarrow> good (dev s) \<Longrightarrow> streamers s ds = Some \<lparr>ds_pos = pos, ds_disk = Some Root_disk\<rparr> \<Longrightarrow>
     0 \<le> c \<Longrightarrow> c + int n < 2147483648 \<Longrightarrow>
     \<exists>s'. count_items io ds c s = Some (c + live_items img pos n, s') \<and> io_frame s s' \<and> good (dev s')"
proof (induction n arbitrary: pos c s)
  case 0
  obtain d' where d': "good d'" "disk_streamer_read_bytes io ds 32 s = Some (0, read_bytes img pos 32,
      s\<lparr>dev := d', streamers := (streamers s)(ds \<mapsto> \<lparr>ds_pos = pos + 32, ds_disk = Some Root_disk\<rparr>)\<rparr>)"
    using stream_read [of s ds pos 32] 0 by (auto simp: items_end_def)
  then show ?case
    using 0 by (subst count_items.simps)
      (auto simp: directory_item_first items_end_def live_items_def io_frame_def on_root_def)
next
  case (Suc n)
  note e = items_end_Suc [OF Suc.prems(1)]
  let ?s = "\<lambda>d. s\<lparr>dev := d, streamers := (streamers s)(ds \<mapsto> \<lparr>ds_pos = pos + 32, ds_disk = Some Root_disk\<rparr>)\<rparr>"
  obtain d' where d': "good d'" "disk_streamer_read_bytes io ds 32 s = Some (0, read_bytes img pos 32, ?s d')"
    using stream_read [of s ds pos 32] Suc.prems by (auto simp: items_end_def)
  have "on_root s ds" using Suc.prems(3) by (simp add: on_root_def)
  then have frame: "io_frame s (?s d')" by (rule io_frame_position)
  let ?c = "c + (if img pos = 0xE5 then 0 else 1)"
  have c: "0 \<le> ?c" "?c + int n < 2147483648" using Suc.prems(4,5) by auto
  obtain s' where s': "count_items io ds ?c (?s d') = Some (?c + live_items img (pos + 32) n, s')"
    "io_frame (?s d') s'" "good (dev s')"
    using Suc.IH [OF _ _ _ c, of "pos + 32" "?s d'"] e d'(1) by auto
  have "s32 (c + 1) = c + 1" using Suc.prems by simp
  then have "count_items io ds c s = count_items io ds ?c (?s d')"
    using d'(2) e by (subst count_items.simps) (auto simp: directory_item_first)
  then show ?case
    using s' frame io_frame_trans [OF frame s'(2)] by (simp add: live_items_Suc add.assoc)
qed

lemma total_items_image:
  assumes "items_end img (512 * sector) n" and "good (dev s)" and "on_root s (directory_stream fp)"
    and "sector_size (root_disk s) = 512"
  obtains s' where "fat16_get_total_items_for_directory io (Some Root_disk) fp sector s =
      Some (live_items img (512 * sector) n, s')" "io_frame s s'" "good (dev s')"
proof -
  let ?ds = "directory_stream fp"
  let ?s = "s\<lparr>streamers := (streamers s)(?ds \<mapsto> \<lparr>ds_pos = 512 * sector, ds_disk = Some Root_disk\<rparr>)\<rparr>"
  have pos: "0 \<le> 512 * sector" "512 * sector < 2147483648" "int n < 2147483648"
    using assms(1) by (auto simp: items_end_def)
  have frame: "io_frame s ?s" using assms(3) by (rule io_frame_position)
  obtain s' where s': "count_items io ?ds 0 ?s = Some (0 + live_items img (512 * sector) n, s')"
    "io_frame ?s s'" "good (dev s')"
    using count_items_image [OF assms(1), of ?s ?ds 0] assms(2) pos by auto
  have "fat16_get_total_items_for_directory io (Some Root_disk) fp sector s =
      Some (live_items img (512 * sector) n, s')"
    using assms(3,4) s'(1) pos
    by (auto simp: fat16_get_total_items_for_directory_def disk_ref_def sector_pos_to_bytes_offset_def
        disk_streamer_seek_pos_def on_root_def)
  then show thesis using s'(3) io_frame_trans [OF frame s'(2)] by (intro that)
qed

end

text \<open>Input does not touch the heap.\<close>

lemma inhabitants_io:
  assumes "io_frame s s'"
  shows "inhabitants s' a = inhabitants s a"
proof -
  have "(streamers s' a \<noteq> None) = (streamers s a \<noteq> None)" using assms by (simp add: io_frame_def)
  then show ?thesis by (simp only: inhabitants_def io_frame_fields [OF assms])
qed

lemma heap_ok_io: "heap_ok s \<Longrightarrow> io_frame s s' \<Longrightarrow> heap_ok s'"
  by (simp only: heap_ok_def io_frame_fields inhabitants_io simp_thms)

lemma io_frame_dir_items:
  assumes "io_frame s s'"
  shows "io_frame (s\<lparr>dir_items := x\<rparr>) (s'\<lparr>dir_items := x\<rparr>)"
proof -
  have "s' = s\<lparr>dev := dev s', streamers := streamers s'\<rparr>" using assms by (simp add: io_frame_def)
  then have "s'\<lparr>dir_items := x\<rparr> = s\<lparr>dev := dev s', streamers := streamers s'\<rparr>\<lparr>dir_items := x\<rparr>"
    by (rule arg_cong)
  then have "s'\<lparr>dir_items := x\<rparr> = s\<lparr>dir_items := x\<rparr>\<lparr>dev := dev s', streamers := streamers s'\<rparr>" by simp
  then show ?thesis using assms unfolding io_frame_def on_root_def by simp
qed

lemma fill_items_full: "length bs = 32 * n \<Longrightarrow> fill_items n bs = directory_items_of bs"
  by (simp add: fill_items_def)

context sector_device
begin

lemma get_root_directory:
  assumes image: "fat16_image img n" and good: "good (dev s)" and ok: "heap_ok s"
    and fp: "0 < spare_pages (kmem s)" and ss: "sector_size (root_disk s) = 512"
    and priv: "fat_privates s priv = Some fp" and hd: "header fp = boot_header img"
    and on: "on_root s (directory_stream fp)"
  obtains s1 s2 items m where
    "fat16_get_root_directory io (Some Root_disk) priv s = Some (0, s2\<lparr>fat_privates := (fat_privates s)
       (priv \<mapsto> fp\<lparr>root_directory := \<lparr>dir_item = items, dir_total = live_items img (512 * root_sector img) n,
          sector_pos = root_sector img, ending_sector_pos = root_sector img + root_sectors img\<rparr>\<rparr>)\<rparr>)"
    "io_frame s s1" "io_frame (s1\<lparr>kmem := m, dir_items := (dir_items s)(items \<mapsto> root_items img)\<rparr>) s2"
    "heap_ok (s1\<lparr>kmem := m, dir_items := (dir_items s)(items \<mapsto> root_items img)\<rparr>)"
    "good (dev s2)" "grows (kmem s) m" "spare_pages (kmem s) = Suc (spare_pages m)"
    "0 < items" "inhabitants s items = 0" "\<not> owned kernel_heap (kmem s) items"
proof -
  let ?E = "root_entries img" and ?R = "root_sector img" and ?ds = "directory_stream fp"
  have E: "0 < ?E" "?E \<le> 128" "items_end img (512 * ?R) n" "512 * ?R + 4096 < 2147483648" "0 \<le> ?R"
    using image root_sector_nonneg [of img] by (auto simp: fat16_image_def)
  obtain s1 where s1: "fat16_get_total_items_for_directory io (Some Root_disk) fp ?R s =
      Some (live_items img (512 * ?R) n, s1)" "io_frame s s1" "good (dev s1)"
    by (rule total_items_image [OF E(3) good on ss])
  have ok1: "heap_ok s1" "0 < spare_pages (kmem s1)"
    using heap_ok_io [OF ok s1(2)] fp s1(2) by (simp_all add: io_frame_fields)
  have size: "0 < nat (?E * 32)" "nat (?E * 32) \<le> 4096" using E by auto
  obtain items m where z: "kzalloc (nat (?E * 32)) s1 = (items, s1\<lparr>kmem := m\<rparr>)" "0 < items"
    "heap_ok (s1\<lparr>kmem := m\<rparr>)" "page_start m items" "inhabitants s1 items = 0"
    "\<not> owned kernel_heap (kmem s1) items"
    "spare_pages (kmem s1) = Suc (spare_pages m)" "grows (kmem s1) m"
    by (rule kzalloc_page [OF ok1 size]) blast
  have same: "inhabitants s1 items = inhabitants s items"
    by (rule inhabitants_io [OF s1(2)])
  let ?t = "\<lambda>xs. s1\<lparr>kmem := m, dir_items := (dir_items s)(items \<mapsto> xs)\<rparr>"
  have "on_root (?t xs) ?ds" for xs
    using on s1(2) unfolding io_frame_def by (simp add: on_root_def)
  moreover have "512 * ?R + ?E * 32 < 2147483648" "512 * ?R < 2147483648" using E by auto
  ultimately obtain s2 s3 where s2:
    "disk_streamer_seek_pos ?ds (512 * ?R) (?t (fill_items (nat ?E) [])) = Some (0, s2)"
    "disk_streamer_read_bytes io ?ds (?E * 32) s2 = Some (0, read_bytes img (512 * ?R) (nat (?E * 32)), s3)"
    "io_frame (?t (fill_items (nat ?E) [])) s3" "good (dev s3)"
    using seek_and_read [of "?t (fill_items (nat ?E) [])" ?ds "512 * ?R" "?E * 32"] s1(3) E(5) by auto
  let ?s4 = "s3\<lparr>dir_items := (dir_items s3)(items \<mapsto> fill_items (nat ?E) (read_bytes img (512 * ?R) (nat (?E * 32))))\<rparr>"
  let ?final = "fp\<lparr>root_directory := \<lparr>dir_item = items, dir_total = live_items img (512 * ?R) n,
    sector_pos = ?R, ending_sector_pos = ?R + root_sectors img\<rparr>\<rparr>"
  have bs: "fill_items (nat ?E) (read_bytes img (512 * ?R) (nat (?E * 32))) = root_items img"
    using E(1) by (simp add: fill_items_full root_items_def nat_mult_distrib mult.commute)
  have fields: "dir_items s3 = (dir_items s)(items \<mapsto> fill_items (nat ?E) [])" "fat_privates s3 = fat_privates s"
    "root_disk s1 = root_disk s" "fat_privates s1 = fat_privates s" "dir_items s1 = dir_items s"
    "root_disk s3 = root_disk s"
    using io_frame_fields [OF s1(2)] io_frame_fields [OF s2(3)] by simp_all
  have s4: "?s4 = s3\<lparr>dir_items := (dir_items s)(items \<mapsto> root_items img)\<rparr>" by (simp add: bs fields)
  have frame: "io_frame (?t (root_items img)) ?s4"
    using io_frame_dir_items [OF s2(3), of "(dir_items s)(items \<mapsto> root_items img)"] by (simp add: s4)
  have total: "0 \<le> live_items img (512 * ?R) n" by (rule live_items_range)
  have ok2: "heap_ok (?t (root_items img))"
    using heap_ok_new(6) [of "s1\<lparr>kmem := m\<rparr>" items "root_items img"] z(3-5) fields
    by (simp add: inhabitants_def)
  have run: "fat16_get_root_directory io (Some Root_disk) priv s =
      Some (0, ?s4\<lparr>fat_privates := (fat_privates s)(priv \<mapsto> ?final)\<rparr>)"
  proof -
    let ?h = "primary_header (header fp)"
    have hs: "uint (fat_copies ?h) * uint (sectors_per_fat ?h) + uint (reserved_sectors ?h) = ?R"
      "uint (root_dir_entries ?h) = ?E"
      by (simp_all add: hd root_sector_def root_entries_def Let_def)
    have off: "sector_pos_to_bytes_offset (root_disk s) ?R = 512 * ?R"
      using E ss by (simp add: sector_pos_to_bytes_offset_def)
    have sectors: "(if (?E * 32) smod 512 \<noteq> 0 then (?E * 32) sdiv 512 + 1 else (?E * 32) sdiv 512) = root_sectors img"
      using E(1) by (simp add: root_sectors_def smod_nonneg sdiv_nonneg)
    show ?thesis
      using priv ss hs off sectors s1(1) total z(1,2) s2(1,2) fields
      by (simp add: fat16_get_root_directory_def disk_ref_def Let_def)
  qed
  show thesis
    using run frame ok2 s2(4) z(2,6-8) same z(5) io_frame_fields(3) [OF s1(2)]
    by (intro that [OF run s1(2) frame ok2]) simp_all
qed

end

section \<open>The private data and its streams\<close>

abbreviation fresh_stream :: disk_streamer_t where
  "fresh_stream \<equiv> \<lparr>ds_pos = 0, ds_disk = Some Root_disk\<rparr>"

lemma disk_streamer_new_page:
  assumes ok: "heap_ok s" and fp: "0 < spare_pages (kmem s)"
  obtains p m where
    "disk_streamer_new 0 s = Some (p, s\<lparr>kmem := m, streamers := (streamers s)(p \<mapsto> fresh_stream)\<rparr>)"
    "heap_ok (s\<lparr>kmem := m, streamers := (streamers s)(p \<mapsto> fresh_stream)\<rparr>)"
    "0 < p" "inhabitants s p = 0" "\<not> owned kernel_heap (kmem s) p" "page_start m p"
    "spare_pages (kmem s) = Suc (spare_pages m)" "grows (kmem s) m"
proof (rule kzalloc_page [OF ok fp, of 8])
  fix p m
  assume z: "kzalloc 8 s = (p, s\<lparr>kmem := m\<rparr>)" "0 < p" "heap_ok (s\<lparr>kmem := m\<rparr>)" "page_start m p"
    "inhabitants s p = 0" "\<not> owned kernel_heap (kmem s) p"
    "spare_pages (kmem s) = Suc (spare_pages m)" "grows (kmem s) m"
  have "inhabitants (s\<lparr>kmem := m\<rparr>) p = 0" using z(5) by (simp add: inhabitants_def)
  then have "heap_ok (s\<lparr>kmem := m, streamers := (streamers s)(p \<mapsto> fresh_stream)\<rparr>)"
    using heap_ok_new(1) [OF z(3), of p fresh_stream] z(4) by simp
  moreover have "disk_streamer_new 0 s =
      Some (p, s\<lparr>kmem := m, streamers := (streamers s)(p \<mapsto> fresh_stream)\<rparr>)"
    using z(1,2) by (simp add: disk_streamer_new_def disk_get_def zero_streamer_def Let_def)
  ultimately show thesis using z by (intro that [of p m])
qed simp_all

definition new_private :: "addr \<Rightarrow> addr \<Rightarrow> addr \<Rightarrow> fat_private_t" where
  "new_private c f d = zero_fat_private\<lparr>cluster_read_stream := c, fat_read_stream := f, directory_stream := d\<rparr>"

lemma init_private:
  assumes ok: "heap_ok s" and fp: "3 \<le> spare_pages (kmem s)"
    and priv: "fat_privates s priv = Some p0" and id: "disk_id (root_disk s) = 0"
  obtains c f d m where
    "fat16_init_private priv (Some Root_disk) s = Some (0, s\<lparr>kmem := m,
       streamers := (streamers s)(c \<mapsto> fresh_stream, f \<mapsto> fresh_stream, d \<mapsto> fresh_stream),
       fat_privates := (fat_privates s)(priv \<mapsto> new_private c f d)\<rparr>)"
    "heap_ok (s\<lparr>kmem := m,
       streamers := (streamers s)(c \<mapsto> fresh_stream, f \<mapsto> fresh_stream, d \<mapsto> fresh_stream),
       fat_privates := (fat_privates s)(priv \<mapsto> new_private c f d)\<rparr>)"
    "0 < c" "0 < f" "0 < d" "spare_pages (kmem s) = spare_pages m + 3" "grows (kmem s) m"
proof -
  define s0 where "s0 = s\<lparr>fat_privates := (fat_privates s)(priv \<mapsto> zero_fat_private)\<rparr>"
  have ok0: "heap_ok s0" "0 < spare_pages (kmem s0)"
    using ok fp priv by (simp_all add: s0_def heap_ok_update)
  obtain c m1 where c: "disk_streamer_new 0 s0 = Some (c, s0\<lparr>kmem := m1, streamers := (streamers s0)(c \<mapsto> fresh_stream)\<rparr>)"
    "heap_ok (s0\<lparr>kmem := m1, streamers := (streamers s0)(c \<mapsto> fresh_stream)\<rparr>)"
    "0 < c" "spare_pages (kmem s0) = Suc (spare_pages m1)" "grows (kmem s0) m1"
    by (rule disk_streamer_new_page [OF ok0]) blast
  define s1 where "s1 = s0\<lparr>kmem := m1, streamers := (streamers s0)(c \<mapsto> fresh_stream),
    fat_privates := (fat_privates s)(priv \<mapsto> zero_fat_private\<lparr>cluster_read_stream := c\<rparr>)\<rparr>"
  have ok1: "heap_ok s1" "0 < spare_pages (kmem s1)"
    using c(2,4) fp heap_ok_update(5) [of "s0\<lparr>kmem := m1, streamers := (streamers s0)(c \<mapsto> fresh_stream)\<rparr>" priv
        zero_fat_private "zero_fat_private\<lparr>cluster_read_stream := c\<rparr>"]
    by (simp_all add: s1_def s0_def)
  obtain f m2 where f: "disk_streamer_new 0 s1 = Some (f, s1\<lparr>kmem := m2, streamers := (streamers s1)(f \<mapsto> fresh_stream)\<rparr>)"
    "heap_ok (s1\<lparr>kmem := m2, streamers := (streamers s1)(f \<mapsto> fresh_stream)\<rparr>)"
    "0 < f" "spare_pages (kmem s1) = Suc (spare_pages m2)" "grows (kmem s1) m2"
    by (rule disk_streamer_new_page [OF ok1]) blast
  let ?fp2 = "zero_fat_private\<lparr>cluster_read_stream := c, fat_read_stream := f\<rparr>"
  define s2 where "s2 = s1\<lparr>kmem := m2, streamers := (streamers s1)(f \<mapsto> fresh_stream),
    fat_privates := (fat_privates s)(priv \<mapsto> ?fp2)\<rparr>"
  have ok2: "heap_ok s2" "0 < spare_pages (kmem s2)"
    using f(2,4) c(4) fp heap_ok_update(5) [of "s1\<lparr>kmem := m2, streamers := (streamers s1)(f \<mapsto> fresh_stream)\<rparr>" priv
        "zero_fat_private\<lparr>cluster_read_stream := c\<rparr>" ?fp2]
    by (simp_all add: s2_def s1_def s0_def)
  obtain d m3 where d: "disk_streamer_new 0 s2 = Some (d, s2\<lparr>kmem := m3, streamers := (streamers s2)(d \<mapsto> fresh_stream)\<rparr>)"
    "heap_ok (s2\<lparr>kmem := m3, streamers := (streamers s2)(d \<mapsto> fresh_stream)\<rparr>)"
    "0 < d" "spare_pages (kmem s2) = Suc (spare_pages m3)" "grows (kmem s2) m3"
    by (rule disk_streamer_new_page [OF ok2]) blast
  let ?s' = "s\<lparr>kmem := m3,
       streamers := (streamers s)(c \<mapsto> fresh_stream, f \<mapsto> fresh_stream, d \<mapsto> fresh_stream),
       fat_privates := (fat_privates s)(priv \<mapsto> new_private c f d)\<rparr>"
  have "heap_ok ?s'"
    using d(2) heap_ok_update(5) [of "s2\<lparr>kmem := m3, streamers := (streamers s2)(d \<mapsto> fresh_stream)\<rparr>" priv
        ?fp2 "new_private c f d"]
    by (simp add: s2_def s1_def s0_def)
  moreover have "fat16_init_private priv (Some Root_disk) s = Some (0, ?s')"
    using priv id c(1,3) f(1,3) d(1,3)
    by (simp add: fat16_init_private_def set_private_def disk_ref_def new_private_def s2_def s1_def s0_def)
  moreover have "grows (kmem s) m3"
    using c(5) f(5) d(5) by (auto simp: s2_def s1_def s0_def intro: grows_trans)
  moreover have "spare_pages (kmem s) = spare_pages m3 + 3"
    using c(4) f(4) d(4) by (simp add: s2_def s1_def s0_def)
  ultimately show thesis using c(3) f(3) d(3) by (intro that [of c f d m3])
qed


section \<open>The volume\<close>

text \<open>What mounting leaves alone.\<close>

definition rest_same :: "'d kstate \<Rightarrow> 'd kstate \<Rightarrow> bool" where
  "rest_same s s' \<longleftrightarrow>
     filesystems s' = filesystems s \<and> filedescriptors s' = filedescriptors s \<and>
     path_parts s' = path_parts s \<and> path_roots s' = path_roots s \<and> file_descs s' = file_descs s \<and>
     directories s' = directories s \<and> fat_items s' = fat_items s \<and> fat_descs s' = fat_descs s"

text \<open>What is in memory of a mounted image: the private data \<open>fp\<close> and the root directory's items.\<close>

definition mounted :: "(int \<Rightarrow> byte) \<Rightarrow> nat \<Rightarrow> 'd kstate \<Rightarrow> fat_private_t \<Rightarrow> bool" where
  "mounted img n s fp \<longleftrightarrow>
     fat_volume s fp \<and> header fp = boot_header img \<and>
     dir_total (root_directory fp) = live_items img (512 * root_sector img) n \<and>
     sector_pos (root_directory fp) = root_sector img \<and>
     ending_sector_pos (root_directory fp) = root_sector img + root_sectors img \<and>
     dir_items s (dir_item (root_directory fp)) = Some (root_items img) \<and>
     disk_filesystem (root_disk s) = Some Fat16_fs"

context sector_device
begin

lemma read_boot_header:
  assumes "good (dev s)" and "streamers s ds = Some fresh_stream"
  obtains s1 where "disk_streamer_read_bytes io ds 62 s = Some (0, read_bytes img 0 62, s1)"
    "io_frame s s1" "good (dev s1)"
proof -
  have on: "on_root s ds" using assms(2) by (simp add: on_root_def)
  obtain d where "good d" "disk_streamer_read_bytes io ds 62 s = Some (0, read_bytes img 0 62,
      s\<lparr>dev := d, streamers := (streamers s)(ds \<mapsto> \<lparr>ds_pos = 62, ds_disk = Some Root_disk\<rparr>)\<rparr>)"
    using stream_read [of s ds 0 62] assms by auto
  then show thesis using io_frame_position(1) [OF on] by (intro that) auto
qed

lemma resolve_volume_image:
  assumes image: "fat16_image img n" and good: "good (dev s)" and ok: "heap_ok s"
    and fp: "0 < spare_pages (kmem s)" and ss: "sector_size (root_disk s) = 512"
    and ds: "ds \<noteq> 0" "streamers s ds = Some fresh_stream"
    and priv: "fat_privates s priv = Some (new_private c f d)"
    and on: "on_root s c" "on_root s f" "on_root s d" "f \<noteq> 0"
  obtains s' fp where "resolve_volume io (Some Root_disk) priv ds s = Some (0, s')"
    "mounted img n s' fp" "on_root s' ds" "heap_ok s'" "good (dev s')" "grows (kmem s) (kmem s')" "rest_same s s'"
    "spare_pages (kmem s) = Suc (spare_pages (kmem s'))"
    "{c, f, d} = {cluster_read_stream fp, fat_read_stream fp, directory_stream fp}"
proof -
  obtain s1 where s1: "disk_streamer_read_bytes io ds 62 s = Some (0, read_bytes img 0 62, s1)"
    "io_frame s s1" "good (dev s1)"
    by (rule read_boot_header [OF good ds(2)])
  define p1 where "p1 = new_private c f d\<lparr>header := boot_header img\<rparr>"
  define s2 where "s2 = s1\<lparr>fat_privates := (fat_privates s)(priv \<mapsto> p1)\<rparr>"
  have ok2: "heap_ok s2" "0 < spare_pages (kmem s2)" "good (dev s2)" "sector_size (root_disk s2) = 512"
    using heap_ok_io [OF ok s1(2)] heap_ok_update(5) [of s1 priv "new_private c f d" p1] priv s1(3) fp ss
      io_frame_fields [OF s1(2)]
    by (simp_all add: s2_def)
  have on2: "on_root s2 p" if "on_root s p" for p
    using that s1(2) by (auto simp: s2_def on_root_def io_frame_def)
  have p2: "fat_privates s2 priv = Some p1" "header p1 = boot_header img" "on_root s2 (directory_stream p1)"
    using on2 [OF on(3)] by (simp_all add: s2_def p1_def new_private_def)
  obtain s3 s4 items m where
    root: "fat16_get_root_directory io (Some Root_disk) priv s2 = Some (0, s4\<lparr>fat_privates := (fat_privates s2)
       (priv \<mapsto> p1\<lparr>root_directory := \<lparr>dir_item = items, dir_total = live_items img (512 * root_sector img) n,
          sector_pos = root_sector img, ending_sector_pos = root_sector img + root_sectors img\<rparr>\<rparr>)\<rparr>)"
    and f3: "io_frame s2 s3" and f4: "io_frame (s3\<lparr>kmem := m, dir_items := (dir_items s2)(items \<mapsto> root_items img)\<rparr>) s4"
    and ok3: "heap_ok (s3\<lparr>kmem := m, dir_items := (dir_items s2)(items \<mapsto> root_items img)\<rparr>)"
    and more: "good (dev s4)" "grows (kmem s2) m" "spare_pages (kmem s2) = Suc (spare_pages m)"
    by (rule get_root_directory [OF image ok2(3,1,2,4) p2]) blast
  define fp where "fp = p1\<lparr>root_directory := \<lparr>dir_item = items, dir_total = live_items img (512 * root_sector img) n,
          sector_pos = root_sector img, ending_sector_pos = root_sector img + root_sectors img\<rparr>\<rparr>"
  define s' where "s' = s4\<lparr>fat_privates := (fat_privates s2)(priv \<mapsto> fp),
    root_disk := (root_disk s)\<lparr>fs_private := priv, disk_filesystem := Some Fat16_fs\<rparr>\<rparr>"
  note fields = io_frame_fields [OF s1(2)] io_frame_fields [OF f3] io_frame_fields [OF f4]
  have s2: "root_disk s2 = root_disk s" "fat_privates s2 = (fat_privates s)(priv \<mapsto> p1)" "kmem s2 = kmem s"
    "rest_same s s2"
    using fields by (simp_all add: s2_def rest_same_def)
  have run: "resolve_volume io (Some Root_disk) priv ds s = Some (0, s')"
    using ds(1) s1(1) priv image root fields s2(1)
    by (simp add: resolve_volume_def set_private_def disk_ref_def fat16_image_def boot_header_def [symmetric]
        p1_def [symmetric] s2_def [symmetric] fp_def s'_def)
  show thesis
  proof (rule that [OF run])
    have on': "on_root s' p" if "on_root s p" for p
      using on2 [OF that] f3 f4 by (simp add: s'_def on_root_def io_frame_def)
    then show "on_root s' ds" using ds(2) by (simp add: on_root_def)
    show "mounted img n s' fp"
      using on on'(1) ss fields s2
      by (simp add: mounted_def fat_volume_def private_of_def s'_def fp_def p1_def new_private_def on_root_def)
    have "heap_ok s4" using ok3 f4 by (rule heap_ok_io)
    then show "heap_ok s'"
      using heap_ok_update(5) [of s4 priv p1 fp] fields s2 by (simp add: s'_def)
    show "good (dev s')" using more(1) by (simp add: s'_def)
    show "grows (kmem s) (kmem s')" "spare_pages (kmem s) = Suc (spare_pages (kmem s'))"
      using more(2,3) fields s2 by (simp_all add: s'_def)
    show "rest_same s s'" using fields s2(4) by (simp add: s'_def rest_same_def)
    show "{c, f, d} = {cluster_read_stream fp, fat_read_stream fp, directory_stream fp}"
      by (simp add: fp_def p1_def new_private_def)
  qed
qed

text \<open>A disk without the signature is refused after its first sector has been read.\<close>

lemma resolve_volume_foreign:
  assumes sig: "signature (extended_header (boot_header img)) \<noteq> KERNEL_FAT16_SIGNATURE"
    and good: "good (dev s)" and ok: "heap_ok s"
    and ds: "ds \<noteq> 0" "streamers s ds = Some fresh_stream" and priv: "fat_privates s priv = Some p0"
  obtains s' where "resolve_volume io (Some Root_disk) priv ds s = Some (- EFSNOTUS, s')"
    "on_root s' ds" "heap_ok s'" "good (dev s')" "kmem s' = kmem s" "rest_same s s'"
    "root_disk s' = root_disk s" "fat_privates s' priv \<noteq> None"
proof -
  obtain s1 where s1: "disk_streamer_read_bytes io ds 62 s = Some (0, read_bytes img 0 62, s1)"
    "io_frame s s1" "good (dev s1)"
    by (rule read_boot_header [OF good ds(2)])
  define s' where "s' = s1\<lparr>fat_privates := (fat_privates s)(priv \<mapsto> p0\<lparr>header := boot_header img\<rparr>)\<rparr>"
  note fields = io_frame_fields [OF s1(2)]
  have "resolve_volume io (Some Root_disk) priv ds s = Some (- EFSNOTUS, s')"
    using ds(1) s1(1) priv sig fields
    by (simp add: resolve_volume_def set_private_def boot_header_def [symmetric] s'_def)
  moreover have "on_root s' ds" using s1(2) ds(2) by (simp add: s'_def on_root_def io_frame_def)
  moreover have "heap_ok s'"
    using heap_ok_io [OF ok s1(2)] heap_ok_update(5) [of s1 priv p0] priv fields by (simp add: s'_def)
  moreover have "rest_same s s'" using fields by (simp add: s'_def rest_same_def)
  ultimately show thesis using s1(3) fields by (intro that [of s']) (simp_all add: s'_def)
qed

end

section \<open>The whole of \<open>fat16_resolve\<close>\<close>

lemma rest_same_trans: "rest_same s s' \<Longrightarrow> rest_same s' s'' \<Longrightarrow> rest_same s s''"
  by (simp add: rest_same_def)

text \<open>The state in which \<open>resolve_volume\<close> runs.\<close>

lemma resolve_prepare:
  assumes ok: "heap_ok s" and fp: "5 \<le> spare_pages (kmem s)" and id: "disk_id (root_disk s) = 0"
  obtains priv c f d ds s1 where
    "\<And>io. fat16_resolve io (Some Root_disk) s = do {
        (res, s) \<leftarrow> resolve_volume io (Some Root_disk) priv ds s1;
        resolve_out (Some Root_disk) priv ds res s }"
    "heap_ok s1" "ds \<noteq> 0" "streamers s1 ds = Some fresh_stream"
    "fat_privates s1 priv = Some (new_private c f d)" "on_root s1 c" "on_root s1 f" "on_root s1 d" "0 < f"
    "ds \<notin> {c, f, d}" "\<not> owned kernel_heap (kmem s) ds" "\<not> owned kernel_heap (kmem s) priv"
    "rest_same s s1" "root_disk s1 = root_disk s" "dev s1 = dev s" "grows (kmem s) (kmem s1)"
    "spare_pages (kmem s) = spare_pages (kmem s1) + 5" "0 < priv"
proof -
  have fp0: "0 < spare_pages (kmem s)" using fp by simp
  obtain priv m0 where z: "kzalloc 92 s = (priv, s\<lparr>kmem := m0\<rparr>)" "0 < priv" "heap_ok (s\<lparr>kmem := m0\<rparr>)"
    "page_start m0 priv" "inhabitants s priv = 0" "\<not> owned kernel_heap (kmem s) priv"
    "spare_pages (kmem s) = Suc (spare_pages m0)" "grows (kmem s) m0"
    by (rule kzalloc_page [OF ok fp0, of 92]) auto
  define s0 where "s0 = s\<lparr>kmem := m0, fat_privates := (fat_privates s)(priv \<mapsto> zero_fat_private)\<rparr>"
  have ok0: "heap_ok s0" "3 \<le> spare_pages (kmem s0)" "fat_privates s0 priv = Some zero_fat_private"
    "disk_id (root_disk s0) = 0"
    using heap_ok_new(5) [OF z(3), of priv zero_fat_private] z(4,5,7) fp id
    by (simp_all add: s0_def inhabitants_def)
  obtain c f d m1 where i: "fat16_init_private priv (Some Root_disk) s0 = Some (0, s0\<lparr>kmem := m1,
       streamers := (streamers s0)(c \<mapsto> fresh_stream, f \<mapsto> fresh_stream, d \<mapsto> fresh_stream),
       fat_privates := (fat_privates s0)(priv \<mapsto> new_private c f d)\<rparr>)"
    "heap_ok (s0\<lparr>kmem := m1,
       streamers := (streamers s0)(c \<mapsto> fresh_stream, f \<mapsto> fresh_stream, d \<mapsto> fresh_stream),
       fat_privates := (fat_privates s0)(priv \<mapsto> new_private c f d)\<rparr>)"
    "0 < c" "0 < f" "0 < d" "spare_pages (kmem s0) = spare_pages m1 + 3" "grows (kmem s0) m1"
    by (rule init_private [OF ok0])
  define t where "t = s0\<lparr>kmem := m1,
       streamers := (streamers s0)(c \<mapsto> fresh_stream, f \<mapsto> fresh_stream, d \<mapsto> fresh_stream),
       fat_privates := (fat_privates s0)(priv \<mapsto> new_private c f d)\<rparr>"
  note i = i [folded t_def]
  have t: "0 < spare_pages (kmem t)" "streamers t c = Some fresh_stream"
    "streamers t f = Some fresh_stream" "streamers t d = Some fresh_stream"
    using fp z(7) i(6) by (simp_all add: t_def s0_def)
  obtain ds m2 where ds: "disk_streamer_new 0 t = Some (ds, t\<lparr>kmem := m2, streamers := (streamers t)(ds \<mapsto> fresh_stream)\<rparr>)"
    "heap_ok (t\<lparr>kmem := m2, streamers := (streamers t)(ds \<mapsto> fresh_stream)\<rparr>)"
    "0 < ds" "inhabitants t ds = 0" "\<not> owned kernel_heap (kmem t) ds"
    "spare_pages (kmem t) = Suc (spare_pages m2)" "grows (kmem t) m2"
    by (rule disk_streamer_new_page [OF i(2) t(1)]) blast
  let ?s1 = "t\<lparr>kmem := m2, streamers := (streamers t)(ds \<mapsto> fresh_stream)\<rparr>"
  have "streamers t ds = None" using ds(4) by (simp add: inhabitants_def)
  then have "ds \<notin> {c, f, d}" using t by auto
  have grow: "grows (kmem s) (kmem t)" "grows (kmem s) m2"
    using z(8) i(7) ds(7) by (auto simp: s0_def t_def intro: grows_trans)
  have "\<not> owned kernel_heap (kmem s) ds" using growsD(1) [OF grow(1)] ds(5) by blast
  show thesis
  proof (rule that)
    show "fat16_resolve io (Some Root_disk) s = do {
        (res, s) \<leftarrow> resolve_volume io (Some Root_disk) priv ds ?s1;
        resolve_out (Some Root_disk) priv ds res s }" for io
      using z(1,2) i(1) ds(1) id
      by (simp add: fat16_resolve_def s0_def [symmetric] disk_ref_def) (simp add: t_def s0_def)
  qed (use z ds i t grow \<open>ds \<notin> {c, f, d}\<close> \<open>\<not> owned kernel_heap (kmem s) ds\<close> in
      \<open>auto simp: on_root_def t_def s0_def rest_same_def\<close>)
qed


lemma mounted_close:
  assumes "mounted img n s fp"
    and "ds \<notin> {cluster_read_stream fp, fat_read_stream fp, directory_stream fp}"
  shows "mounted img n (s\<lparr>streamers := (streamers s)(ds := None), kmem := m\<rparr>) fp"
  using assms by (simp add: mounted_def fat_volume_def private_of_def on_root_def)

lemma resolve_mounted:
  assumes "ata_laws io drv" and "idle_drive img (drv (dev s))" and "fat16_image img n"
    and "heap_ok s" and "6 \<le> spare_pages (kmem s)"
    and "disk_id (root_disk s) = 0" and "sector_size (root_disk s) = 512"
  shows "\<exists>s' fp. fat16_resolve io (Some Root_disk) s = Some (0, s') \<and> mounted img n s' fp
    \<and> heap_ok s' \<and> idle_drive img (drv (dev s')) \<and> rest_same s s' \<and> grows (kmem s) (kmem s')
    \<and> spare_pages (kmem s) = spare_pages (kmem s') + 5"
proof -
  note dev = ata_sector_device [OF assms(1), of img]
  have pages: "5 \<le> spare_pages (kmem s)" using assms(5) by simp
  show ?thesis
  proof (rule resolve_prepare [OF assms(4) pages assms(6)])
    fix priv c f d ds s1
    assume run: "\<And>io. fat16_resolve io (Some Root_disk) s = do {
        (res, s) \<leftarrow> resolve_volume io (Some Root_disk) priv ds s1;
        resolve_out (Some Root_disk) priv ds res s }"
      and s1: "heap_ok s1" "ds \<noteq> 0" "streamers s1 ds = Some fresh_stream"
        "fat_privates s1 priv = Some (new_private c f d)" "on_root s1 c" "on_root s1 f" "on_root s1 d" "0 < f"
        "ds \<notin> {c, f, d}" "\<not> owned kernel_heap (kmem s) ds"
        "rest_same s s1" "root_disk s1 = root_disk s" "dev s1 = dev s" "grows (kmem s) (kmem s1)"
        "spare_pages (kmem s) = spare_pages (kmem s1) + 5"
    have s1': "0 < spare_pages (kmem s1)" "sector_size (root_disk s1) = 512"
      "idle_drive img (drv (dev s1))" "f \<noteq> 0"
      using s1 assms(2,5,7) by simp_all
    obtain s2 fp where s2: "resolve_volume io (Some Root_disk) priv ds s1 = Some (0, s2)"
      "mounted img n s2 fp" "on_root s2 ds" "heap_ok s2" "idle_drive img (drv (dev s2))"
      "grows (kmem s1) (kmem s2)" "rest_same s1 s2"
      "spare_pages (kmem s1) = Suc (spare_pages (kmem s2))"
      "{c, f, d} = {cluster_read_stream fp, fat_read_stream fp, directory_stream fp}"
      by (rule sector_device.resolve_volume_image
          [OF dev assms(3) s1'(3) s1(1) s1'(1,2) s1(2-7) s1'(4)])
    obtain x where x: "streamers s2 ds = Some x" using s2(3) by (auto simp: on_root_def)
    obtain m where m: "kfree ds s2 = Some (s2\<lparr>streamers := (streamers s2)(ds := None), kmem := m\<rparr>)"
      "released ds s2 (s2\<lparr>streamers := (streamers s2)(ds := None), kmem := m\<rparr>)"
      by (rule kfree_streamer [OF s2(4) x])
    let ?s' = "s2\<lparr>streamers := (streamers s2)(ds := None), kmem := m\<rparr>"
    have "fat16_resolve io (Some Root_disk) s = Some (0, ?s')"
      using s2(1) m(1) s1(2) by (simp add: run resolve_out_def disk_streamer_close_def)
    moreover have "mounted img n ?s' fp"
      using s2(2) s1(9) s2(9) by (intro mounted_close) auto
    moreover have "grows (kmem s) m"
      using grows_gives_back [OF grows_trans [OF s1(14) s2(6)] _ inhabitant_cases(1) [OF s2(4) x, THEN conjunct1] s1(10), of m] m(2)
      by (simp add: released_def)
    moreover have "rest_same s ?s'" using rest_same_trans [OF s1(11) s2(7)] by (simp add: rest_same_def)
    ultimately show ?thesis
      using m(2) s2(5,8) s1(15) by (intro exI [of _ ?s'] exI [of _ fp]) (simp add: released_def)
  qed
qed

section \<open>Properties\<close>

text \<open>C13: mounting.  On an ATA drive whose image is a FAT16 volume with a root directory of at most one
page, with six pages free before the reserve, \<open>fat16_resolve\<close> returns 0 and leaves the volume mounted: the
header from the first sector, the three streams of its private data, all items of the root
directory, and as their number the count of those before the end mark that are not deleted.  It
keeps five pages (the private data, its streams and the items), and the heap sound.\<close>

theorem fat16_resolve_mounts:
  assumes "ata_laws io drv" and "idle_drive img (drv (dev s))" and "fat16_image img n"
    and "heap_ok s" and "6 \<le> spare_pages (kmem s)"
    and "disk_id (root_disk s) = 0" and "sector_size (root_disk s) = 512"
  shows "\<exists>s' fp. fat16_resolve io (Some Root_disk) s = Some (0, s') \<and> mounted img n s' fp
    \<and> heap_ok s' \<and> idle_drive img (drv (dev s')) \<and> rest_same s s' \<and> grows (kmem s) (kmem s')
    \<and> spare_pages (kmem s) = spare_pages (kmem s') + 5"
  using resolve_mounted [OF assms] .

text \<open>A state right after the heap was set up, with the demonstration image in the drive.\<close>

definition bare_state :: "(int \<Rightarrow> byte) \<Rightarrow> ata kstate" where
  "bare_state img = (initial_state (blank_drive img))
     \<lparr>root_disk := zero_disk\<lparr>sector_size := 512\<rparr>\<rparr>"

lemma bare_state_facts:
  "heap_ok (bare_state img)" "idle_drive img (dev (bare_state img))"
  "disk_id (root_disk (bare_state img)) = 0" "sector_size (root_disk (bare_state img)) = 512"
  "spare_pages (kmem (bare_state img)) = 24576" "kmem (bare_state img) = (\<lambda>_. 0)"
proof -
  have "single_pages (\<lambda>_. 0)" using kheap_init_pool [OF demo_init] by blast
  from single_unchained [OF this] show "heap_ok (bare_state img)"
    by (simp add: heap_ok_def bare_state_def initial_state_def inhabitants_def)
qed (simp_all add: bare_state_def initial_state_def blank_drive_def idle_drive_def zero_disk_def free_pages_empty)

lemma demo_fat16_image: "fat16_image demo_image 1"
  by (simp add: fat16_image_def items_end_def root_sector_def root_entries_def boot_header_def fat_h_of_def
      fat_header_of_def fat_header_extended_of_def word16_at_def demo_image_def demo_bytes_def uint_le16)

theorem fat16_resolve_mounts_witness:
  "\<exists>s' fp. fat16_resolve ata_ports (Some Root_disk) (bare_state demo_image) = Some (0, s')
    \<and> mounted demo_image 1 s' fp \<and> spare_pages (kmem s') = 24571"
  using fat16_resolve_mounts [OF ata_ports_laws bare_state_facts(2) demo_fat16_image bare_state_facts(1)]
  by (simp add: bare_state_facts free_pages_empty) force

text \<open>C30: a disk without the FAT16 signature is refused with \<open>-EFSNOTUS\<close>: nothing is mounted, but of the
five pages taken only two come back, so each attempt leaks the three streams.\<close>

theorem fat16_resolve_foreign_disk:
  assumes "ata_laws io drv" and "idle_drive img (drv (dev s))"
    and "signature (extended_header (boot_header img)) \<noteq> KERNEL_FAT16_SIGNATURE"
    and "heap_ok s" and "5 \<le> spare_pages (kmem s)"
    and "disk_id (root_disk s) = 0" and "sector_size (root_disk s) = 512"
  shows "\<exists>s'. fat16_resolve io (Some Root_disk) s = Some (- EFSNOTUS, s')
    \<and> heap_ok s' \<and> rest_same s s' \<and> root_disk s' = (root_disk s)\<lparr>fs_private := 0\<rparr>
    \<and> spare_pages (kmem s) = spare_pages (kmem s') + 3"
proof -
  note dev = ata_sector_device [OF assms(1), of img]
  show ?thesis
  proof (rule resolve_prepare [OF assms(4,5,6)])
    fix priv c f d ds s1
    assume run: "\<And>io. fat16_resolve io (Some Root_disk) s = do {
        (res, s) \<leftarrow> resolve_volume io (Some Root_disk) priv ds s1;
        resolve_out (Some Root_disk) priv ds res s }"
      and s1: "heap_ok s1" "ds \<noteq> 0" "streamers s1 ds = Some fresh_stream"
        "fat_privates s1 priv = Some (new_private c f d)"
        "rest_same s s1" "root_disk s1 = root_disk s" "dev s1 = dev s"
        "spare_pages (kmem s) = spare_pages (kmem s1) + 5"
    have good: "idle_drive img (drv (dev s1))" using s1(7) assms(2) by simp
    obtain s2 where s2: "resolve_volume io (Some Root_disk) priv ds s1 = Some (- EFSNOTUS, s2)"
      "on_root s2 ds" "heap_ok s2" "kmem s2 = kmem s1" "rest_same s1 s2" "root_disk s2 = root_disk s1"
      "fat_privates s2 priv \<noteq> None"
      by (rule sector_device.resolve_volume_foreign [OF dev assms(3) good s1(1-4)])
    obtain x y where x: "streamers s2 ds = Some x" "fat_privates s2 priv = Some y"
      using s2(2,7) by (auto simp: on_root_def)
    obtain m where m: "kfree ds s2 = Some (s2\<lparr>streamers := (streamers s2)(ds := None), kmem := m\<rparr>)"
      "released ds s2 (s2\<lparr>streamers := (streamers s2)(ds := None), kmem := m\<rparr>)"
      by (rule kfree_streamer [OF s2(3) x(1)])
    define s3 where "s3 = s2\<lparr>streamers := (streamers s2)(ds := None), kmem := m\<rparr>"
    have s3: "heap_ok s3" "fat_privates s3 priv = Some y"
      using m(2) x(2) by (simp_all add: s3_def released_def)
    obtain m' where m': "kfree priv s3 = Some (s3\<lparr>fat_privates := (fat_privates s3)(priv := None), kmem := m'\<rparr>)"
      "released priv s3 (s3\<lparr>fat_privates := (fat_privates s3)(priv := None), kmem := m'\<rparr>)"
      by (rule kfree_private [OF s3])
    let ?s' = "s3\<lparr>fat_privates := (fat_privates s3)(priv := None), kmem := m',
      root_disk := (root_disk s)\<lparr>fs_private := 0\<rparr>\<rparr>"
    have "fat16_resolve io (Some Root_disk) s = Some (- EFSNOTUS, ?s')"
      using s2(1,6) m(1) m'(1) s1(2,6)
      by (simp add: run resolve_out_def disk_streamer_close_def disk_ref_def s3_def)
    moreover have "rest_same s ?s'"
      using rest_same_trans [OF s1(5) s2(5)] by (simp add: rest_same_def s3_def)
    ultimately show ?thesis
      using m(2) m'(2) s2(4) s1(8) by (intro exI [of _ ?s']) (simp add: released_def s3_def)
  qed
qed

theorem fat16_resolve_foreign_disk_witness:
  "\<exists>s'. fat16_resolve ata_ports (Some Root_disk) (bare_state (\<lambda>_. 0)) = Some (- 4, s')
    \<and> spare_pages (kmem s') = 24573"
proof -
  have "signature (extended_header (boot_header (\<lambda>_. 0))) \<noteq> KERNEL_FAT16_SIGNATURE"
    by (simp add: boot_header_def fat_h_of_def fat_header_extended_of_def)
  from fat16_resolve_foreign_disk [OF ata_ports_laws bare_state_facts(2) this bare_state_facts(1)]
  show ?thesis by (simp add: bare_state_facts free_pages_empty) force
qed

end
