(* ===== verification/Lookup.thy ===== *)
theory Lookup
  imports Mount Pparser
begin

text \<open>
  Names in the tree of directories.  \<open>dir_listing\<close> and \<open>lookup\<close> say, on the disk image alone, what the items
  of a directory are and which item a path leads to; the lemmas show that \<open>fat16_load_fat_directory\<close>
  and the walk of \<open>fat16_get_directory_entry\<close> compute just that, and give back every directory they pass.
\<close>

section \<open>The volume of an image\<close>

text \<open>What the FAT16 code reads of the private data of a volume, from the image alone.\<close>

definition image_volume :: "(int \<Rightarrow> byte) \<Rightarrow> fat_private_t" where
  "image_volume img = zero_fat_private
     \<lparr>header := boot_header img,
      root_directory := zero_directory\<lparr>ending_sector_pos := root_sector img + root_sectors img\<rparr>\<rparr>"

lemma fat_chain_cong:
  "fat_entry_of img fp = fat_entry_of img fp' \<Longrightarrow> fat_chain img fp c n = fat_chain img fp' c n"
  by (induction n arbitrary: c) simp_all

lemma mounted_volume:
  assumes "mounted img n s fp"
  shows "bytes_per_cluster (image_volume img) = bytes_per_cluster fp"
    "data_cluster (image_volume img) = data_cluster fp"
    "fat_chain img (image_volume img) = fat_chain img fp" "chain_data img (image_volume img) = chain_data img fp"
    "sector_of (image_volume img) = sector_of fp"
proof -
  have h: "header (image_volume img) = header fp"
    "ending_sector_pos (root_directory (image_volume img)) = ending_sector_pos (root_directory fp)"
    using assms by (simp_all add: mounted_def image_volume_def)
  then show sec: "sector_of (image_volume img) = sector_of fp" by (intro ext) (simp add: sector_of_def)
  show bpc: "bytes_per_cluster (image_volume img) = bytes_per_cluster fp" by (simp add: bytes_per_cluster_def h)
  show "data_cluster (image_volume img) = data_cluster fp" by (intro ext) (simp add: data_cluster_def sec bpc)
  have entry: "fat_entry_of img (image_volume img) = fat_entry_of img fp"
    by (intro ext) (simp add: fat_entry_of_def fat16_get_first_fat_sector_def h)
  show chain: "fat_chain img (image_volume img) = fat_chain img fp"
    by (intro ext) (rule fat_chain_cong [OF entry])
  have "cluster_data img (image_volume img) = cluster_data img fp" by (intro ext) (simp add: cluster_data_def sec bpc)
  then show "chain_data img (image_volume img) = chain_data img fp" by (intro ext) (simp add: chain_data_def chain)
qed

section \<open>Directories of the image\<close>

lemma root_items_nth:
  "i < nat (root_entries img) \<Longrightarrow>
     root_items img ! i = directory_item_of (read_bytes img (512 * root_sector img + 32 * int i) 32)"
  by (simp add: root_items_def directory_items_of_def slice_read_bytes)

lemma length_root_items [simp]: "length (root_items img) = nat (root_entries img)"
  by (simp add: root_items_def directory_items_of_def)

lemma root_items_ok: "\<forall>item \<in> set (root_items img). item_ok item"
  by (auto simp: in_set_conv_nth root_items_nth)

abbreviation subdir :: "fat_directory_item \<Rightarrow> bool" where
  "subdir item \<equiv> attribute item AND FAT_FILE_SUBDIRECTORY \<noteq> 0"

definition dir_pos :: "(int \<Rightarrow> byte) \<Rightarrow> fat_directory_item \<Rightarrow> int" where
  "dir_pos img item = 512 * sector_of (image_volume img) (fat16_get_first_cluster item)"

text \<open>The number of entries before the end mark in a directory of one cluster.\<close>

definition dir_entries :: "(int \<Rightarrow> byte) \<Rightarrow> fat_directory_item \<Rightarrow> nat" where
  "dir_entries img item = length (takeWhile (\<lambda>i. img (dir_pos img item + 32 * int i) \<noteq> 0)
     [0..<nat (bytes_per_cluster (image_volume img) div 32)])"

text \<open>
  The items that the code sees in a directory: as many from its start as it has live ones, if it fits a
  cluster and a page.
\<close>

definition dir_listing :: "(int \<Rightarrow> byte) \<Rightarrow> fat_directory_item \<Rightarrow> fat_directory_item list option" where
  "dir_listing img item =
     (let n = dir_entries img item; live = live_items img (dir_pos img item) n
      in if data_cluster (image_volume img) (fat16_get_first_cluster item) \<and>
            int n < bytes_per_cluster (image_volume img) div 32 \<and> 0 < live \<and> live \<le> 128
         then Some (directory_items_of (read_bytes img (dir_pos img item) (32 * nat live))) else None)"

definition root_listing :: "(int \<Rightarrow> byte) \<Rightarrow> nat \<Rightarrow> fat_directory_item list" where
  "root_listing img n = take (nat (live_items img (512 * root_sector img) n)) (root_items img)"

text \<open>
  What looking for a path comes to.  A name that is not there ends the search, but if it is not the first and more
  names follow, the code goes on with a null pointer; a regular file that is used as a directory ends it too.
\<close>

datatype outcome = Found fat_directory_item | Absent | Blocked | Crash

fun descend :: "(int \<Rightarrow> byte) \<Rightarrow> fat_directory_item \<Rightarrow> byte list list \<Rightarrow> outcome option" where
  "descend img d [] = (if subdir d \<and> dir_listing img d = None then None else Some (Found d))"
| "descend img d (nm # nms) =
     (if \<not> subdir d then Some Blocked
      else do {
        ys \<leftarrow> dir_listing img d;
        case find (named nm) ys of
          None \<Rightarrow> Some (if nms = [] then Absent else Crash)
        | Some e \<Rightarrow> descend img e nms })"

text \<open>There is no outcome if a directory on the way is outside the bounds of \<open>dir_listing\<close>.\<close>

definition path_outcome :: "(int \<Rightarrow> byte) \<Rightarrow> nat \<Rightarrow> byte list list \<Rightarrow> outcome option" where
  "path_outcome img n nms =
     (case nms of
        [] \<Rightarrow> None
      | nm # nms' \<Rightarrow>
          (case find (named nm) (root_listing img n) of
             None \<Rightarrow> Some Absent
           | Some d \<Rightarrow> descend img d nms'))"

lemma items_of_ok: "\<forall>item \<in> set (directory_items_of bs). item_ok item"
  by (auto simp: directory_items_of_def slice_def intro!: directory_item_ok)

lemma dir_listing_ok: "dir_listing img item = Some xs \<Longrightarrow> \<forall>item \<in> set xs. item_ok item"
  using items_of_ok by (auto simp: dir_listing_def Let_def split: if_splits)

lemma root_listing_ok: "\<forall>item \<in> set (root_listing img n). item_ok item"
  using root_items_ok [of img] by (auto simp: root_listing_def dest: in_set_takeD)

lemma takeWhile_upt_end:
  assumes "length (takeWhile P [0..<m]) < m"
  shows "\<not> P (length (takeWhile P [0..<m]))" and "i < length (takeWhile P [0..<m]) \<Longrightarrow> P i"
proof -
  let ?n = "length (takeWhile P [0..<m])"
  show "\<not> P ?n" using nth_length_takeWhile [of P "[0..<m]"] assms by simp
  assume i: "i < ?n"
  then have "takeWhile P [0..<m] ! i \<in> set (takeWhile P [0..<m])" by simp
  then show "P i" using i takeWhile_nth [OF i] assms by (auto dest: set_takeWhileD)
qed

text \<open>What \<open>dir_listing\<close> provides.\<close>

lemma dir_listingE:
  assumes "dir_listing img item = Some xs"
  obtains n live where "data_cluster (image_volume img) (fat16_get_first_cluster item)"
    "items_end img (dir_pos img item) n" "live = live_items img (dir_pos img item) n" "0 < live" "live \<le> 128"
    "live * 32 \<le> bytes_per_cluster (image_volume img)"
    "xs = directory_items_of (read_bytes img (dir_pos img item) (32 * nat live))" "length xs = nat live"
proof -
  define n where "n = dir_entries img item"
  define live where "live = live_items img (dir_pos img item) n"
  let ?b = "bytes_per_cluster (image_volume img)"
  have a: "data_cluster (image_volume img) (fat16_get_first_cluster item)" "int n < ?b div 32" "0 < live" "live \<le> 128"
    "xs = directory_items_of (read_bytes img (dir_pos img item) (32 * nat live))"
    using assms by (auto simp: dir_listing_def n_def live_def Let_def split: if_splits)
  have len: "length (takeWhile (\<lambda>i. img (dir_pos img item + 32 * int i) \<noteq> 0) [0..<nat (?b div 32)]) < nat (?b div 32)"
    using a(2) by (simp add: n_def dir_entries_def)
  have "32 * int n + 32 \<le> ?b" using a(2) by linarith
  then have "items_end img (dir_pos img item) n"
    using takeWhile_upt_end [OF len] a(1)
    by (auto simp: items_end_def n_def dir_entries_def dir_pos_def data_cluster_def)
  moreover have "live \<le> int n" unfolding live_def by (rule live_items_range)
  ultimately show thesis
    using a \<open>32 * int n + 32 \<le> ?b\<close> by (intro that [of n live]) (simp_all add: live_def directory_items_of_def)
qed

section \<open>What the search leaves alone\<close>

text \<open>From \<open>s\<close> to \<open>s'\<close> objects were added and input was read: what was on the heap still is.\<close>

definition kept :: "'d kstate \<Rightarrow> 'd kstate \<Rightarrow> bool" where
  "kept s s' \<longleftrightarrow>
     grows (kmem s) (kmem s') \<and> (\<forall>p. on_root s p \<longrightarrow> on_root s' p) \<and>
     (\<forall>a. owned kernel_heap (kmem s) a \<longrightarrow>
        dir_items s' a = dir_items s a \<and> fat_items s' a = fat_items s a \<and>
        directories s' a = directories s a \<and> fat_descs s' a = fat_descs s a) \<and>
     root_disk s' = root_disk s \<and> filesystems s' = filesystems s \<and> filedescriptors s' = filedescriptors s \<and>
     path_parts s' = path_parts s \<and> path_roots s' = path_roots s \<and> file_descs s' = file_descs s \<and>
     fat_privates s' = fat_privates s"

lemma kept_refl [simp]: "kept s s"
  by (simp add: kept_def)

lemma kept_trans [trans]:
  assumes "kept s s'" and "kept s' s''"
  shows "kept s s''"
  using assms grows_trans [of "kmem s" "kmem s'" "kmem s''"] growsD(1) [of "kmem s" "kmem s'"]
  unfolding kept_def by (intro conjI allI impI) simp_all

lemma kept_fields:
  assumes "kept s s'"
  shows "root_disk s' = root_disk s" "filesystems s' = filesystems s" "filedescriptors s' = filedescriptors s"
    "path_parts s' = path_parts s" "path_roots s' = path_roots s" "file_descs s' = file_descs s"
    "fat_privates s' = fat_privates s" "grows (kmem s) (kmem s')"
  using assms by (simp_all add: kept_def)

lemma kept_objects:
  assumes "kept s s'" and "owned kernel_heap (kmem s) a"
  shows "dir_items s' a = dir_items s a" "fat_items s' a = fat_items s a" "directories s' a = directories s a"
    "fat_descs s' a = fat_descs s a"
  using assms by (simp_all add: kept_def)

lemma kept_io:
  assumes "io_frame s s'"
  shows "kept s s'"
proof -
  have "s' = s\<lparr>dev := dev s', streamers := streamers s'\<rparr>" "\<forall>p. on_root s p \<longrightarrow> on_root s' p"
    using assms by (simp_all add: io_frame_def)
  then show ?thesis
    unfolding kept_def io_frame_fields [OF assms] by simp
qed

lemma kept_mem: "kept s0 s \<Longrightarrow> grows (kmem s0) m \<Longrightarrow> kept s0 (s\<lparr>kmem := m\<rparr>)"
  by (simp add: kept_def on_root_def)

text \<open>Objects may come, change and go in pages taken later.\<close>

lemma kept_upd:
  assumes "kept s0 s" and "\<not> owned kernel_heap (kmem s0) p"
  shows "kept s0 (s\<lparr>dir_items := (dir_items s)(p := x1)\<rparr>)" "kept s0 (s\<lparr>fat_items := (fat_items s)(p := x2)\<rparr>)"
    "kept s0 (s\<lparr>directories := (directories s)(p := x3)\<rparr>)" "kept s0 (s\<lparr>fat_descs := (fat_descs s)(p := x4)\<rparr>)"
  using assms by (auto simp: kept_def on_root_def)

lemma kept_freed:
  assumes "kept s0 s" and "released p s s'" and "page_start (kmem s) p" and "\<not> owned kernel_heap (kmem s0) p"
  shows "grows (kmem s0) (kmem s')"
  using assms grows_gives_back [of "kmem s0" "kmem s" p "kmem s'"] by (simp add: kept_def released_def)

lemma fat_volume_kept: "fat_volume s fp \<Longrightarrow> kept s s' \<Longrightarrow> fat_volume s' fp"
  by (simp add: fat_volume_def private_of_def kept_def)

lemma mounted_root_owned:
  "mounted img n s fp \<Longrightarrow> heap_ok s \<Longrightarrow> owned kernel_heap (kmem s) (dir_item (root_directory fp))"
  using inhabitant_cases(4) [of s "dir_item (root_directory fp)"]
  by (auto simp: mounted_def page_start_def)

lemma mounted_kept:
  assumes "mounted img n s fp" and "heap_ok s" and "kept s s'"
  shows "mounted img n s' fp"
  using assms(1) fat_volume_kept [OF _ assms(3)] kept_objects(1) [OF assms(3) mounted_root_owned [OF assms(1,2)]]
    kept_fields(1) [OF assms(3)]
  by (simp add: mounted_def)

lemma path_list_kept:
  assumes "path_list s p nodes names" and kept: "kept s s'"
  shows "path_list s' p nodes names"
proof (rule path_list_cong [OF assms(1)])
  show "path_parts s' q = path_parts s q" for q using kept_fields [OF kept] by simp
  show "settled (kmem s) a \<Longrightarrow> settled (kmem s') a \<and> kmem s' a = kmem s a" for a
    using growsD(2,3) [OF kept_fields(8) [OF kept], of a] by blast
qed

section \<open>Objects of items\<close>

abbreviation fresh_pages :: "'d kstate \<Rightarrow> addr list \<Rightarrow> bool" where
  "fresh_pages s ps \<equiv> \<forall>p \<in> set ps. \<not> owned kernel_heap (kmem s) p"

lemma fresh_pages_grows: "grows (kmem s) (kmem s') \<Longrightarrow> fresh_pages s' ps \<Longrightarrow> fresh_pages s ps"
  using growsD(1) by blast

definition file_object :: "'d kstate \<Rightarrow> addr \<Rightarrow> fat_directory_item \<Rightarrow> bool" where
  "file_object s it item \<longleftrightarrow>
     (\<exists>cp. fat_items s it = Some \<lparr>item_ptr = cp, item_type = FAT_ITEM_TYPE_FILE\<rparr> \<and> dir_items s cp = Some [item])"

definition dir_object :: "'d kstate \<Rightarrow> addr \<Rightarrow> fat_directory_item list \<Rightarrow> bool" where
  "dir_object s it xs \<longleftrightarrow>
     (\<exists>dp d. fat_items s it = Some \<lparr>item_ptr = dp, item_type = FAT_ITEM_TYPE_DIRECTORY\<rparr> \<and> dp \<noteq> 0 \<and>
        directories s dp = Some d \<and> dir_item d \<noteq> 0 \<and> dir_items s (dir_item d) = Some xs \<and>
        dir_total d = int (length xs))"

text \<open>The pages of the object of an item.\<close>

definition item_pages :: "'d kstate \<Rightarrow> addr \<Rightarrow> addr list" where
  "item_pages s it =
     (let obj = the (fat_items s it); ptr = item_ptr obj
      in if item_type obj = FAT_ITEM_TYPE_DIRECTORY then [it, ptr, dir_item (the (directories s ptr))] else [it, ptr])"

definition same_at :: "addr set \<Rightarrow> 'd kstate \<Rightarrow> 'd kstate \<Rightarrow> bool" where
  "same_at A s s' \<longleftrightarrow>
     (\<forall>a \<in> A. dir_items s' a = dir_items s a \<and> fat_items s' a = fat_items s a \<and> directories s' a = directories s a)"

lemma object_cong:
  assumes "same_at (set (item_pages s it)) s s'"
  shows "file_object s it item \<Longrightarrow> file_object s' it item \<and> item_pages s' it = item_pages s it"
    and "dir_object s it xs \<Longrightarrow> dir_object s' it xs \<and> item_pages s' it = item_pages s it"
  using assms by (auto simp: file_object_def dir_object_def item_pages_def same_at_def Let_def)

lemma object_owned:
  assumes "heap_ok s" and "file_object s it item \<or> dir_object s it xs" and "a \<in> set (item_pages s it)"
  shows "page_start (kmem s) a"
proof -
  note p = inhabitant_cases(4,5,9) [OF assms(1), THEN conjunct1]
  show ?thesis
    using assms(2,3) by (auto simp: file_object_def dir_object_def item_pages_def Let_def intro: p)
qed

section \<open>Loading a directory\<close>

context sector_device
begin

lemma load_directory:
  assumes vol: "mounted img n s fp" and good: "good (dev s)" and ok: "heap_ok s"
    and free: "2 \<le> spare_pages (kmem s)"
    and dir: "subdir item" "dir_listing img item = Some xs"
  obtains dp d s' where "fat16_load_fat_directory io (Some Root_disk) item s = Some (dp, s')"
    "0 < dp" "directories s' dp = Some d" "dir_item d \<noteq> 0" "dir_items s' (dir_item d) = Some xs"
    "dir_total d = int (length xs)" "kept s s'" "heap_ok s'" "good (dev s')" "fresh_pages s [dp, dir_item d]"
    "fat_items s' = fat_items s" "spare_pages (kmem s) = spare_pages (kmem s') + 2"
proof -
  let ?c = "fat16_get_first_cluster item" and ?ds = "directory_stream fp"
  note v = mounted_volume [OF vol]
  have fv: "fat_volume s fp" using vol by (simp add: mounted_def)
  obtain k live where l: "data_cluster fp ?c" "items_end img (512 * sector_of fp ?c) k"
    "live = live_items img (512 * sector_of fp ?c) k" "0 < live" "live \<le> 128" "live * 32 \<le> bytes_per_cluster fp"
    "xs = directory_items_of (read_bytes img (512 * sector_of fp ?c) (32 * nat live))" "length xs = nat live"
    using dir_listingE [OF dir(2)] by (metis v(1,2,5) dir_pos_def)
  have sec: "fat16_cluster_to_sector fp ?c = sector_of fp ?c" by (rule cluster_to_sector [OF l(1)])
  have fp0: "0 < spare_pages (kmem s)" using free by simp
  obtain dp m1 where z: "kzalloc 16 s = (dp, s\<lparr>kmem := m1\<rparr>)" "0 < dp" "heap_ok (s\<lparr>kmem := m1\<rparr>)"
    "page_start m1 dp" "inhabitants s dp = 0" "\<not> owned kernel_heap (kmem s) dp"
    "spare_pages (kmem s) = Suc (spare_pages m1)" "grows (kmem s) m1"
    by (rule kzalloc_page [OF ok fp0, of 16]) auto
  define s1 where "s1 = s\<lparr>kmem := m1, directories := (directories s)(dp \<mapsto> zero_directory)\<rparr>"
  have s1: "heap_ok s1" "0 < spare_pages (kmem s1)" "fat_volume s1 fp" "good (dev s1)"
    "directories s1 dp = Some zero_directory" "kept s s1"
    using heap_ok_new(7) [OF z(3), of dp zero_directory] z(4,5,7) free fv good
      kept_upd(3) [OF kept_mem [OF kept_refl z(8)] z(6), of "Some zero_directory"]
    by (simp_all add: s1_def inhabitants_def fat_volume_def private_of_def on_root_def)
  have on: "on_root s1 ?ds" "sector_size (root_disk s1) = 512" using s1(3) by (simp_all add: fat_volume_def)
  obtain s2 where s2: "fat16_get_total_items_for_directory io (Some Root_disk) fp (sector_of fp ?c) s1 = Some (live, s2)"
    "io_frame s1 s2" "good (dev s2)"
    using total_items_image [OF l(2) s1(4) on] unfolding l(3) by blast
  have ok2: "heap_ok s2" "0 < spare_pages (kmem s2)"
    using heap_ok_io [OF s1(1) s2(2)] s1(2) io_frame_fields(3) [OF s2(2)] by simp_all
  have size: "0 < nat (live * 32)" "nat (live * 32) \<le> 4096" using l(4,5) by auto
  obtain ip m2 where y: "kzalloc (nat (live * 32)) s2 = (ip, s2\<lparr>kmem := m2\<rparr>)" "0 < ip" "heap_ok (s2\<lparr>kmem := m2\<rparr>)"
    "page_start m2 ip" "inhabitants s2 ip = 0" "\<not> owned kernel_heap (kmem s2) ip"
    "spare_pages (kmem s2) = Suc (spare_pages m2)" "grows (kmem s2) m2"
    by (rule kzalloc_page [OF ok2 size]) blast
  let ?d1 = "zero_directory\<lparr>dir_total := live, dir_item := ip\<rparr>"
  define s3 where "s3 = s2\<lparr>kmem := m2, directories := (directories s2)(dp \<mapsto> ?d1)\<rparr>"
  have dp2: "directories s2 dp = Some zero_directory" using s1(5) io_frame_fields [OF s2(2)] by simp
  then have "ip \<noteq> dp" using y(5) by (auto simp: inhabitants_def)
  have k3: "kept s s3"
  proof -
    have "kept s s2" by (rule kept_trans [OF s1(6) kept_io [OF s2(2)]])
    moreover from this have "grows (kmem s) m2" using grows_trans [OF kept_fields(8) y(8)] by blast
    ultimately show ?thesis
      using kept_upd(3) [OF kept_mem z(6), of s2 m2 "Some ?d1"] by (simp add: s3_def)
  qed
  have s3: "heap_ok s3" "good (dev s3)" "inhabitants s3 ip = 0"
    using y(3,5) s2(3) heap_ok_update(7) [of "s2\<lparr>kmem := m2\<rparr>" dp zero_directory ?d1] dp2 \<open>ip \<noteq> dp\<close>
    by (simp_all add: s3_def inhabitants_def)
  have fv3: "fat_volume s3 fp" by (rule fat_volume_kept [OF fv k3])
  obtain s4 where s4: "fat16_read_internal_v2 io (Some Root_disk) ?c 0 (live * 32) s3 =
      Some (0, take (nat (live * 32)) (drop (nat 0) (chain_data img fp ?c 1)), s4)" "io_frame s3 s4" "good (dev s4)"
    using read_internal_v2_data [OF fv3 s3(2), of ?c 1 0 "live * 32"] l(1,4,6) by auto
  have bs: "take (nat (live * 32)) (drop (nat 0) (chain_data img fp ?c 1)) = read_bytes img (512 * sector_of fp ?c) (32 * nat live)"
    using cluster_slice [of 0 "live * 32" fp ?c] l(4,6)
    by (simp add: chain_data_def nat_mult_distrib mult.commute)
  have fill: "fill_items (nat live) (read_bytes img (512 * sector_of fp ?c) (32 * nat live)) = xs"
    by (simp add: fill_items_full l(7))
  define s5 where "s5 = s4\<lparr>dir_items := (dir_items s4)(ip \<mapsto> xs)\<rparr>"
  have "kmem s4 = m2" "inhabitants s4 ip = 0" using io_frame_fields [OF s4(2)] inhabitants_io [OF s4(2), of ip] s3(3)
    by (simp_all add: s3_def)
  then have ok5: "heap_ok s5" using heap_ok_new(6) [OF heap_ok_io [OF s3(1) s4(2)], of ip xs] y(4) by (simp add: s5_def)
  have dp5: "directories s5 dp = Some ?d1" using io_frame_fields [OF s4(2)] by (simp add: s5_def s3_def)
  let ?stop = "sector_of fp ?c + (if live * 32 mod 512 = 0 then live * 32 div 512 else live * 32 div 512 + 1)"
  let ?d2 = "?d1\<lparr>sector_pos := sector_of fp ?c, ending_sector_pos := s32 ?stop\<rparr>"
  let ?s' = "s5\<lparr>directories := (directories s5)(dp \<mapsto> ?d2)\<rparr>"
  have fresh: "\<not> owned kernel_heap (kmem s) ip"
    using growsD(1) [OF kept_fields(8) [OF kept_trans [OF s1(6) kept_io [OF s2(2)]]], of ip] y(6) by blast
  have kept': "kept s ?s'"
    using kept_upd(3) [OF kept_upd(1) [OF kept_trans [OF k3 kept_io [OF s4(2)]] fresh] z(6)] by (simp add: s5_def)
  have arith: "s32 (live * 32) = live * 32" "u32 (live * 32) = live * 32" "live * 32 smod 512 = live * 32 mod 512"
    "live * 32 sdiv 512 = live * 32 div 512"
    using l(4,5) by (simp_all add: smod_nonneg sdiv_nonneg)
  have priv: "private_of (root_disk s) s = Some fp" "sector_size (root_disk s) = 512" using fv by (simp_all add: fat_volume_def)
  have rest: "directories s4 dp = Some ?d1" "fat_items s4 = fat_items s"
    using io_frame_fields [OF s4(2)] io_frame_fields [OF s2(2)] by (simp_all add: s3_def s1_def)
  have run: "fat16_load_fat_directory io (Some Root_disk) item s = Some (dp, ?s')"
    using dir(1) z(1,2) s2(1) dp2 y(1,2) s4(1) [unfolded bs] priv l(4)
    unfolding fat16_load_fat_directory_def
    by (simp add: disk_ref_def private_of_def s1_def [symmetric] sec Let_def arith bs fill s3_def [symmetric] s5_def [symmetric])
       (auto simp: s1_def s3_def s5_def rest fill arith)
  show thesis
  proof (rule that [OF run z(2), of ?d2, OF _ _ _ _ kept'])
    show "heap_ok ?s'" using ok5 heap_ok_update(7) [of s5 dp ?d1 ?d2] dp5 by simp
  qed (use y(2) l(4,8) s4(3) z(6,7) fresh rest y(7) io_frame_fields [OF s2(2)] io_frame_fields [OF s4(2)] in
      \<open>simp_all add: s5_def s3_def s1_def\<close>)
qed

end

lemma new_fat_item_file:
  assumes ok: "heap_ok s" and fp: "2 \<le> spare_pages (kmem s)"
    and plain: "attribute item AND FAT_FILE_SUBDIRECTORY = 0"
  obtains it cp m s' where "fat16_new_fat_item_for_directory_item io disk_p item s = Some (it, s')"
    "s' = s\<lparr>kmem := m, dir_items := (dir_items s)(cp \<mapsto> [item]),
       fat_items := (fat_items s)(it \<mapsto> \<lparr>item_ptr = cp, item_type = FAT_ITEM_TYPE_FILE\<rparr>)\<rparr>"
    "heap_ok s'" "0 < it" "inhabitants s it = 0" "inhabitants s cp = 0"
    "spare_pages (kmem s) = spare_pages m + 2" "grows (kmem s) m"
    "\<not> owned kernel_heap (kmem s) it" "\<not> owned kernel_heap (kmem s) cp"
proof -
  have fp0: "0 < spare_pages (kmem s)" using fp by simp
  obtain it m1 where it: "kzalloc 8 s = (it, s\<lparr>kmem := m1\<rparr>)" "0 < it" "heap_ok (s\<lparr>kmem := m1\<rparr>)"
    "page_start m1 it" "inhabitants s it = 0" "\<not> owned kernel_heap (kmem s) it"
    "spare_pages (kmem s) = Suc (spare_pages m1)" "grows (kmem s) m1"
    by (rule kzalloc_page [OF ok fp0, of 8]) auto
  define s1 where "s1 = s\<lparr>kmem := m1, fat_items := (fat_items s)(it \<mapsto> zero_fat_item)\<rparr>"
  have ok1: "heap_ok s1" "0 < spare_pages (kmem s1)"
    using heap_ok_new(8) [OF it(3), of it zero_fat_item] it(4,5,7) fp by (simp_all add: s1_def)
  obtain cp m2 where cp: "kzalloc 32 s1 = (cp, s1\<lparr>kmem := m2\<rparr>)" "0 < cp" "heap_ok (s1\<lparr>kmem := m2\<rparr>)"
    "page_start m2 cp" "inhabitants s1 cp = 0" "\<not> owned kernel_heap (kmem s1) cp"
    "spare_pages (kmem s1) = Suc (spare_pages m2)" "grows (kmem s1) m2"
    by (rule kzalloc_page [OF ok1, of 32]) auto
  define s2 where "s2 = s1\<lparr>kmem := m2, dir_items := (dir_items s1)(cp \<mapsto> [item])\<rparr>"
  have ok2: "heap_ok s2" using heap_ok_new(6) [OF cp(3), of cp "[item]"] cp(4,5) by (simp add: s2_def)
  let ?s' = "s\<lparr>kmem := m2, dir_items := (dir_items s)(cp \<mapsto> [item]),
       fat_items := (fat_items s)(it \<mapsto> \<lparr>item_ptr = cp, item_type = FAT_ITEM_TYPE_FILE\<rparr>)\<rparr>"
  have "?s' = s2\<lparr>fat_items := (fat_items s2)(it \<mapsto> \<lparr>item_ptr = cp, item_type = FAT_ITEM_TYPE_FILE\<rparr>)\<rparr>"
    by (simp add: s2_def s1_def)
  moreover have "fat_items s2 it = Some zero_fat_item" by (simp add: s2_def s1_def)
  ultimately have "heap_ok ?s'" using ok2 heap_ok_update(8) [of s2 it] by simp
  moreover have "fat16_new_fat_item_for_directory_item io disk_p item s = Some (it, ?s')"
    using it(1,2) cp(1,2) plain
    by (simp add: fat16_new_fat_item_for_directory_item_def fat16_clone_directory_item_def s1_def [symmetric] Let_def)
      (simp add: s1_def zero_fat_item_def)
  moreover have "inhabitants s cp = 0" using cp(5) by (auto simp: inhabitants_def s1_def split: if_splits)
  moreover have "\<not> owned kernel_heap (kmem s) cp"
    using cp(6) growsD(1) [OF it(8), of cp] by (auto simp: s1_def)
  moreover have "grows (kmem s) m2" using grows_trans [OF it(8)] cp(8) by (simp add: s1_def)
  ultimately show thesis
    using it cp(7) by (intro that [OF _ refl, of it cp m2]) (simp_all add: s1_def)
qed

definition item_object :: "(int \<Rightarrow> byte) \<Rightarrow> 'd kstate \<Rightarrow> addr \<Rightarrow> fat_directory_item \<Rightarrow> bool" where
  "item_object img s it item \<longleftrightarrow>
     (if subdir item then \<exists>xs. dir_listing img item = Some xs \<and> dir_object s it xs else file_object s it item)"

abbreviation item_size :: "fat_directory_item \<Rightarrow> nat" where
  "item_size item \<equiv> if subdir item then 3 else 2"

lemma item_object_cong:
  assumes "item_object img s it item" and "same_at (set (item_pages s it)) s s'"
  shows "item_object img s' it item" "item_pages s' it = item_pages s it"
  using assms object_cong [OF assms(2)] by (auto simp: item_object_def split: if_splits)

lemma item_object_owned:
  "heap_ok s \<Longrightarrow> item_object img s it item \<Longrightarrow> a \<in> set (item_pages s it) \<Longrightarrow> page_start (kmem s) a"
  using object_owned by (fastforce simp: item_object_def split: if_splits)

context sector_device
begin

lemma new_item:
  assumes vol: "mounted img n s fp" and good: "good (dev s)" and ok: "heap_ok s"
    and free: "3 \<le> spare_pages (kmem s)" and dir: "subdir item \<Longrightarrow> dir_listing img item \<noteq> None"
  obtains it s' where "fat16_new_fat_item_for_directory_item io (Some Root_disk) item s = Some (it, s')" "0 < it"
    "item_object img s' it item" "kept s s'" "heap_ok s'" "good (dev s')" "fresh_pages s (item_pages s' it)"
    "spare_pages (kmem s) = spare_pages (kmem s') + item_size item"
proof (cases "subdir item")
  case False
  have plain: "attribute item AND FAT_FILE_SUBDIRECTORY = 0" and two: "2 \<le> spare_pages (kmem s)"
    using False free by simp_all
  obtain it cp m s' where f: "fat16_new_fat_item_for_directory_item io (Some Root_disk) item s = Some (it, s')"
    and s': "s' = s\<lparr>kmem := m, dir_items := (dir_items s)(cp \<mapsto> [item]),
       fat_items := (fat_items s)(it \<mapsto> \<lparr>item_ptr = cp, item_type = FAT_ITEM_TYPE_FILE\<rparr>)\<rparr>"
    and g: "heap_ok s'" "0 < it" "spare_pages (kmem s) = spare_pages m + 2" "grows (kmem s) m"
      "\<not> owned kernel_heap (kmem s) it" "\<not> owned kernel_heap (kmem s) cp"
    by (rule new_fat_item_file [OF ok two plain]) blast
  have "kept s s'"
    using kept_upd(2) [OF kept_upd(1) [OF kept_mem [OF kept_refl g(4)] g(6)] g(5)] by (simp add: s')
  then show thesis
    using False good g by (intro that [OF f]) (auto simp: s' item_object_def file_object_def item_pages_def)
next
  case True
  then obtain xs where xs: "dir_listing img item = Some xs" using dir by blast
  have fp0: "0 < spare_pages (kmem s)" using free by simp
  obtain it m1 where z: "kzalloc 8 s = (it, s\<lparr>kmem := m1\<rparr>)" "0 < it" "heap_ok (s\<lparr>kmem := m1\<rparr>)"
    "page_start m1 it" "inhabitants s it = 0" "\<not> owned kernel_heap (kmem s) it"
    "spare_pages (kmem s) = Suc (spare_pages m1)" "grows (kmem s) m1"
    by (rule kzalloc_page [OF ok fp0, of 8]) auto
  define s1 where "s1 = s\<lparr>kmem := m1, fat_items := (fat_items s)(it \<mapsto> zero_fat_item)\<rparr>"
  have k1: "kept s s1"
    using kept_upd(2) [OF kept_mem [OF kept_refl z(8)] z(6), of "Some zero_fat_item"] by (simp add: s1_def)
  have s1: "heap_ok s1" "2 \<le> spare_pages (kmem s1)" "good (dev s1)" "mounted img n s1 fp"
    using heap_ok_new(8) [OF z(3), of it zero_fat_item] z(4,5,7) free good mounted_kept [OF vol ok k1]
    by (simp_all add: s1_def inhabitants_def)
  obtain dp d s2 where l: "fat16_load_fat_directory io (Some Root_disk) item s1 = Some (dp, s2)"
    "0 < dp" "directories s2 dp = Some d" "dir_item d \<noteq> 0" "dir_items s2 (dir_item d) = Some xs"
    "dir_total d = int (length xs)" "kept s1 s2" "heap_ok s2" "good (dev s2)" "fresh_pages s1 [dp, dir_item d]"
    "fat_items s2 = fat_items s1" "spare_pages (kmem s1) = spare_pages (kmem s2) + 2"
    by (rule load_directory [OF s1(4,3,1,2) True xs])
  let ?obj = "\<lparr>item_ptr = dp, item_type = FAT_ITEM_TYPE_DIRECTORY\<rparr>"
  let ?s' = "s2\<lparr>fat_items := (fat_items s2)(it \<mapsto> ?obj)\<rparr>"
  have it: "fat_items s2 it = Some zero_fat_item" using l(11) by (simp add: s1_def)
  have run: "fat16_new_fat_item_for_directory_item io (Some Root_disk) item s = Some (it, ?s')"
    using z(1,2) True l(1) it
    by (simp add: fat16_new_fat_item_for_directory_item_def s1_def [symmetric] Let_def)
      (simp add: zero_fat_item_def)
  have "heap_ok ?s'" using l(8) heap_ok_update(8) [OF it] by simp
  moreover have "kept s ?s'" by (rule kept_upd(2) [OF kept_trans [OF k1 l(7)] z(6)])
  moreover have "fresh_pages s [dp, dir_item d]" by (rule fresh_pages_grows [OF kept_fields(8) [OF k1] l(10)])
  moreover have "dir_object ?s' it xs" using l(2-6) by (simp add: dir_object_def)
  ultimately show thesis
    using z(2,6,7) l(3,9,12) xs True
    by (intro that [OF run]) (simp_all add: item_object_def item_pages_def Let_def s1_def)
qed

end

text \<open>Freeing the object of a directory.\<close>

lemma free_directory_item:
  assumes ok: "heap_ok s" and obj: "dir_object s it xs" and kept: "kept s0 s" and fresh: "fresh_pages s0 (item_pages s it)"
  obtains s' where "fat16_fat_item_free it s = Some s'" "heap_ok s'" "kept s0 s'" "dev s' = dev s"
    "spare_pages (kmem s') = spare_pages (kmem s) + 3"
    "same_at (- set (item_pages s it)) s s'"
proof -
  obtain dp d where o: "fat_items s it = Some \<lparr>item_ptr = dp, item_type = FAT_ITEM_TYPE_DIRECTORY\<rparr>" "dp \<noteq> 0"
    "directories s dp = Some d" "dir_item d \<noteq> 0" "dir_items s (dir_item d) = Some xs"
    using obj by (auto simp: dir_object_def)
  have pages: "item_pages s it = [it, dp, dir_item d]" using o(1,3) by (simp add: item_pages_def)
  then have fr: "\<not> owned kernel_heap (kmem s0) it" "\<not> owned kernel_heap (kmem s0) dp" "\<not> owned kernel_heap (kmem s0) (dir_item d)"
    using fresh by simp_all
  obtain m1 where a: "kfree (dir_item d) s = Some (s\<lparr>dir_items := (dir_items s)(dir_item d := None), kmem := m1\<rparr>)"
    "released (dir_item d) s (s\<lparr>dir_items := (dir_items s)(dir_item d := None), kmem := m1\<rparr>)"
    by (rule kfree_dir_items [OF ok o(5)])
  define s1 where "s1 = s\<lparr>dir_items := (dir_items s)(dir_item d := None), kmem := m1\<rparr>"
  have s1: "heap_ok s1" "directories s1 dp = Some d" using a(2) o(3) by (simp_all add: s1_def released_def)
  have "grows (kmem s0) m1"
    using kept_freed [OF kept a(2) inhabitant_cases(4) [OF ok o(5), THEN conjunct1] fr(3)] by simp
  then have k1: "kept s0 s1"
    using kept_mem [OF kept_upd(1) [OF kept fr(3)]] by (simp add: s1_def)
  obtain m2 where b: "kfree dp s1 = Some (s1\<lparr>directories := (directories s1)(dp := None), kmem := m2\<rparr>)"
    "released dp s1 (s1\<lparr>directories := (directories s1)(dp := None), kmem := m2\<rparr>)"
    by (rule kfree_directory [OF s1])
  define s2 where "s2 = s1\<lparr>directories := (directories s1)(dp := None), kmem := m2\<rparr>"
  have s2: "heap_ok s2" "fat_items s2 it = Some \<lparr>item_ptr = dp, item_type = FAT_ITEM_TYPE_DIRECTORY\<rparr>"
    using b(2) o(1) by (simp_all add: s1_def s2_def released_def)
  have "grows (kmem s0) m2"
    using kept_freed [OF k1 b(2) inhabitant_cases(9) [OF s1, THEN conjunct1] fr(2)] by simp
  then have k2: "kept s0 s2"
    using kept_mem [OF kept_upd(3) [OF k1 fr(2)]] by (simp add: s2_def)
  obtain m3 where c: "kfree it s2 = Some (s2\<lparr>fat_items := (fat_items s2)(it := None), kmem := m3\<rparr>)"
    "released it s2 (s2\<lparr>fat_items := (fat_items s2)(it := None), kmem := m3\<rparr>)"
    by (rule kfree_fat_item [OF s2])
  let ?s' = "s2\<lparr>fat_items := (fat_items s2)(it := None), kmem := m3\<rparr>"
  have "grows (kmem s0) m3"
    using kept_freed [OF k2 c(2) inhabitant_cases(5) [OF s2, THEN conjunct1] fr(1)] by simp
  then have k3: "kept s0 ?s'"
    using kept_mem [OF kept_upd(2) [OF k2 fr(1)]] by simp
  have run: "fat16_fat_item_free it s = Some ?s'"
    using o a(1) b(1) c(1)
    by (simp add: fat16_fat_item_free_def fat16_directory_free_def s1_def [symmetric]) (simp add: s2_def)
  show thesis
    by (rule that [OF run _ k3])
      (use a(2) b(2) c(2) in \<open>simp_all add: released_def pages s1_def s2_def same_at_def\<close>)
qed

section \<open>The walk along a path\<close>

lemma path_list_Cons:
  assumes "path_list s p nodes (nm # nms)"
  obtains pt nodes' where "p \<noteq> 0" "path_parts s p = Some pt" "is_cstring (at (kmem s) (part_name pt)) nm"
    "path_list s (part_next pt) nodes' nms"
  using assms by (cases nodes) (auto split: option.splits)

context sector_device
begin

text \<open>One component: the search finds the first match and makes its object.\<close>

lemma find_item:
  assumes vol: "mounted img n s fp" and good: "good (dev s)" and ok: "heap_ok s"
    and free: "3 \<le> spare_pages (kmem s)"
    and items: "dir_items s (dir_item d) = Some ys" "\<forall>item \<in> set ys. item_ok item" "dir_total d \<le> int (length ys)"
    and str: "is_cstring (at (kmem s) path) nm"
    and found: "find (named nm) (take (nat (dir_total d)) ys) = Some item"
    and dir: "subdir item \<Longrightarrow> dir_listing img item \<noteq> None"
  obtains it s' where "fat16_get_item_in_directory io (Some Root_disk) d path s = Some (it, s')" "0 < it"
    "item_object img s' it item" "kept s s'" "heap_ok s'" "good (dev s')" "fresh_pages s (item_pages s' it)"
    "spare_pages (kmem s) = spare_pages (kmem s') + item_size item"
proof -
  have "fat16_get_item_in_directory io (Some Root_disk) d path s =
      fat16_new_fat_item_for_directory_item io (Some Root_disk) item s"
    using search_directory_find [OF items str, of 0 io "Some Root_disk"] found
    by (simp add: fat16_get_item_in_directory_def)
  then show thesis
    using new_item [OF vol good ok free dir] that by metis
qed

end

text \<open>
  The result of a search that started in \<open>s0\<close> with \<open>k\<close> free pages: an object of the item found, in pages
  that were free in \<open>s0\<close>, or nothing.  The object of a file in the place of a directory is not released.
\<close>

definition searched :: "(int \<Rightarrow> byte) \<Rightarrow> ('d \<Rightarrow> bool) \<Rightarrow> 'd kstate \<Rightarrow> nat \<Rightarrow> outcome \<Rightarrow> (addr \<times> 'd kstate) option \<Rightarrow> bool" where
  "searched img Q s0 k out r \<longleftrightarrow>
     (if out = Crash then r = None
      else \<exists>it s'. r = Some (it, s') \<and> kept s0 s' \<and> heap_ok s' \<and> Q (dev s') \<and>
        (case out of
           Found item \<Rightarrow> 0 < it \<and> item_object img s' it item \<and> fresh_pages s0 (item_pages s' it) \<and>
             k = spare_pages (kmem s') + item_size item
         | Blocked \<Rightarrow> it = 0 \<and> k = spare_pages (kmem s') + 2
         | _ \<Rightarrow> it = 0 \<and> k = spare_pages (kmem s')))"

lemma null_object:
  assumes "heap_ok s"
  shows "fat_items s 0 = None"
proof (rule ccontr)
  assume "fat_items s 0 \<noteq> None"
  then have "owned kernel_heap (kmem s) 0" using inhabitant_cases(5) [OF assms, of 0] by (auto simp: page_start_def)
  then show False using owned_pool by fastforce
qed

context sector_device
begin

text \<open>A step of the walk, from the directory object \<open>cur\<close>.\<close>

lemma walk_step:
  assumes vol: "mounted img n s0 fp" and ok0: "heap_ok s0" and kept: "kept s0 s" and ok: "heap_ok s" and good: "good (dev s)"
    and free: "3 \<le> spare_pages (kmem s)"
    and list: "path_list s0 p nodes (nm # nms)"
    and cur: "dir_object s cur xs" and xs: "\<forall>item \<in> set xs. item_ok item" and fresh: "fresh_pages s0 (item_pages s cur)"
    and listed: "\<forall>d. find (named nm) xs = Some d \<longrightarrow> subdir d \<longrightarrow> dir_listing img d \<noteq> None"
  obtains nodes' next_p it s2 where "path_list s0 next_p nodes' nms"
    "walk_path io (Some Root_disk) cur p s = walk_path io (Some Root_disk) it next_p s2"
    "kept s0 s2" "heap_ok s2" "good (dev s2)"
    "find (named nm) xs = None \<longrightarrow> it = 0 \<and> spare_pages (kmem s2) = spare_pages (kmem s) + 3"
    "\<forall>d. find (named nm) xs = Some d \<longrightarrow> 0 < it \<and> item_object img s2 it d \<and>
       fresh_pages s0 (item_pages s2 it) \<and> spare_pages (kmem s) + 3 = spare_pages (kmem s2) + item_size d"
proof -
  note vol1 = mounted_kept [OF vol ok0 kept]
  obtain pt where pt: "p \<noteq> 0" "path_parts s p = Some pt" "is_cstring (at (kmem s) (part_name pt)) nm"
    by (rule path_list_Cons [OF path_list_kept [OF list kept]])
  obtain nodes' where rest: "path_list s0 (part_next pt) nodes' nms"
    using path_list_Cons [OF list] pt(2) kept_fields(4) [OF kept] by (metis option.inject)
  obtain dp dir where o: "fat_items s cur = Some \<lparr>item_ptr = dp, item_type = FAT_ITEM_TYPE_DIRECTORY\<rparr>"
    "directories s dp = Some dir" "dir_items s (dir_item dir) = Some xs" "dir_total dir = int (length xs)"
    using cur by (auto simp: dir_object_def)
  have total: "dir_total dir \<le> int (length xs)" "take (nat (dir_total dir)) xs = xs" using o(4) by simp_all
  show thesis
  proof (cases "find (named nm) xs")
    case None
    have f: "fat16_get_item_in_directory io (Some Root_disk) dir (part_name pt) s = Some (0, s)"
      using search_directory_find [OF o(3) xs total(1) pt(3), of 0 io "Some Root_disk"] None total(2)
      by (simp add: fat16_get_item_in_directory_def)
    obtain s2 where r: "fat16_fat_item_free cur s = Some s2" "heap_ok s2" "kept s0 s2" "dev s2 = dev s"
      "spare_pages (kmem s2) = spare_pages (kmem s) + 3"
      by (rule free_directory_item [OF ok cur kept fresh])
    have "path_parts s2 p = Some pt" using kept_fields(4) [OF kept] kept_fields(4) [OF r(3)] pt(2) by simp
    then have "walk_path io (Some Root_disk) cur p s = walk_path io (Some Root_disk) 0 (part_next pt) s2"
      using pt(1,2) o(1,2) f r(1) by (subst walk_path.simps) simp
    then show thesis by (rule that [OF rest _ r(3,2)]) (use good r(4,5) None in simp_all)
  next
    case (Some d)
    have found: "find (named nm) (take (nat (dir_total dir)) xs) = Some d" using Some total(2) by simp
    obtain it s1 where f: "fat16_get_item_in_directory io (Some Root_disk) dir (part_name pt) s = Some (it, s1)" "0 < it"
      "item_object img s1 it d" "kept s s1" "heap_ok s1" "good (dev s1)" "fresh_pages s (item_pages s1 it)"
      "spare_pages (kmem s) = spare_pages (kmem s1) + item_size d"
      by (rule find_item [OF vol1 good ok free o(3) xs total(1) pt(3) found listed [rule_format, OF Some]])
    have cur: "same_at (set (item_pages s cur)) s s1"
      using kept_objects [OF f(4)] object_owned [OF ok disjI2 [OF cur]]
      by (simp add: same_at_def page_start_def)
    note cur1 = object_cong(2) [OF cur assms(8)]
    have k1: "kept s0 s1" using kept_trans [OF kept f(4)] .
    have fresh1: "fresh_pages s0 (item_pages s1 cur)" using cur1 fresh by simp
    obtain s2 where r: "fat16_fat_item_free cur s1 = Some s2" "heap_ok s2" "kept s0 s2" "dev s2 = dev s1"
      "spare_pages (kmem s2) = spare_pages (kmem s1) + 3" "same_at (- set (item_pages s1 cur)) s1 s2"
      by (rule free_directory_item [OF f(5) conjunct1 [OF cur1] k1 fresh1])
    have apart: "set (item_pages s1 it) \<inter> set (item_pages s1 cur) = {}"
      using f(7) cur1 object_owned [OF ok disjI2 [OF assms(8)]] by (auto simp: page_start_def)
    then have "same_at (set (item_pages s1 it)) s1 s2" using r(6) by (auto simp: same_at_def)
    note it2 = item_object_cong [OF f(3) this]
    have fresh2: "fresh_pages s0 (item_pages s2 it)"
      using fresh_pages_grows [OF kept_fields(8) [OF kept] f(7)] it2(2) by simp
    have fields: "path_parts s1 p = Some pt" "path_parts s2 p = Some pt"
      using kept_fields(4) [OF kept] kept_fields(4) [OF f(4)] kept_fields(4) [OF r(3)] pt(2) by simp_all
    have "walk_path io (Some Root_disk) cur p s = walk_path io (Some Root_disk) it (part_next pt) s2"
      using pt(1,2) o(1,2) f(1) r(1) fields by (subst walk_path.simps) simp
    then show thesis
      by (rule that [OF rest _ r(3,2)]) (use f(2,6,8) it2(1) r(4,5) fresh2 Some in simp_all)
  qed
qed

lemma walk_searched:
  assumes "descend img d nms = Some out" and "item_object img s cur d" and "0 < cur"
    and "path_list s0 p nodes nms" and "heap_ok s" and "good (dev s)"
    and "subdir d \<longrightarrow> 3 \<le> spare_pages (kmem s)"
    and "kept s0 s" and "fresh_pages s0 (item_pages s cur)" and base: "heap_ok s0" "mounted img n s0 fp"
  shows "searched img good s0 (spare_pages (kmem s) + item_size d) out (walk_path io (Some Root_disk) cur p s)"
  using assms(1-9)
proof (induction nms arbitrary: d s p nodes cur)
  case Nil
  then have "p = 0" "out = Found d" by (cases nodes; simp split: if_splits)+
  then show ?case using Nil.prems by (simp add: searched_def walk_path.simps [of _ _ _ 0])
next
  case (Cons nm nms)
  show ?case
  proof (cases "subdir d")
    case False
    then have out: "out = Blocked" using Cons.prems(1) by simp
    obtain cp where "fat_items s cur = Some \<lparr>item_ptr = cp, item_type = FAT_ITEM_TYPE_FILE\<rparr>"
      using Cons.prems(2) False by (auto simp: item_object_def file_object_def)
    moreover have "p \<noteq> 0" by (rule path_list_Cons [OF Cons.prems(4)])
    ultimately have "walk_path io (Some Root_disk) cur p s = Some (0, s)" by (subst walk_path.simps) simp
    then show ?thesis using Cons.prems False out by (simp add: searched_def)
  next
    case True
    then obtain xs where xs: "dir_listing img d = Some xs" "dir_object s cur xs"
      using Cons.prems(2) by (auto simp: item_object_def)
    have "3 \<le> spare_pages (kmem s)" using Cons.prems(7) True by simp
    moreover have listed: "\<forall>e. find (named nm) xs = Some e \<longrightarrow> subdir e \<longrightarrow> dir_listing img e \<noteq> None"
      using Cons.prems(1) True xs(1) by (cases nms) (auto simp: bind_eq_Some_conv split: if_splits)
    ultimately obtain nodes' next_p it s2 where w: "path_list s0 next_p nodes' nms"
      "walk_path io (Some Root_disk) cur p s = walk_path io (Some Root_disk) it next_p s2"
      "kept s0 s2" "heap_ok s2" "good (dev s2)"
      "find (named nm) xs = None \<longrightarrow> it = 0 \<and> spare_pages (kmem s2) = spare_pages (kmem s) + 3"
      "\<forall>d. find (named nm) xs = Some d \<longrightarrow> 0 < it \<and> item_object img s2 it d \<and>
         fresh_pages s0 (item_pages s2 it) \<and> spare_pages (kmem s) + 3 = spare_pages (kmem s2) + item_size d"
      by (rule walk_step [OF base(2,1) Cons.prems(8,5,6) _ Cons.prems(4) xs(2) dir_listing_ok [OF xs(1)] Cons.prems(9)])
    show ?thesis
    proof (cases "find (named nm) xs")
      case None
      then have it: "it = 0" "spare_pages (kmem s2) = spare_pages (kmem s) + 3" using w(6) by simp_all
      have out: "out = (if nms = [] then Absent else Crash)" using Cons.prems(1) True xs(1) None by simp
      show ?thesis
      proof (cases "nms = []")
        case True
        then have "next_p = 0" using w(1) by (cases nodes') simp_all
        then show ?thesis using w(2-5) it out True \<open>subdir d\<close> by (simp add: searched_def walk_path.simps [of _ _ _ 0])
      next
        case False
        then have "next_p \<noteq> 0" using w(1) by (cases nms; cases nodes') (auto split: option.splits)
        then have "walk_path io (Some Root_disk) it next_p s2 = None"
          using null_object [OF w(4)] it(1) by (subst walk_path.simps) simp
        then show ?thesis using w(2) out False by (simp add: searched_def)
      qed
    next
      case (Some e)
      then have d: "descend img e nms = Some out" using Cons.prems(1) True xs(1) by simp
      have e: "0 < it" "item_object img s2 it e" "fresh_pages s0 (item_pages s2 it)"
        "spare_pages (kmem s) + 3 = spare_pages (kmem s2) + item_size e"
        using w(7) Some by blast+
      have "subdir e \<longrightarrow> 3 \<le> spare_pages (kmem s2)" using e(4) Cons.prems(7) True by auto
      then show ?thesis
        using Cons.IH [OF d e(2,1) w(1,4,5) _ w(3) e(3)] w(2) e(4) True by simp
    qed
  qed
qed

text \<open>The whole search.\<close>

lemma directory_entry_searched:
  assumes vol: "mounted img n s fp" and good: "good (dev s)" and ok: "heap_ok s"
    and free: "6 \<le> spare_pages (kmem s)" and n: "int n \<le> root_entries img"
    and list: "path_list s p nodes nms" and out: "path_outcome img n nms = Some out"
  shows "searched img good s (spare_pages (kmem s)) out (fat16_get_directory_entry io (Some Root_disk) p s)"
proof -
  let ?root = "root_directory fp"
  obtain nm nms' where nms: "nms = nm # nms'" using out by (cases nms) (simp_all add: path_outcome_def)
  obtain pt where pt: "p \<noteq> 0" "path_parts s p = Some pt" "is_cstring (at (kmem s) (part_name pt)) nm"
    by (rule path_list_Cons [OF list [unfolded nms]])
  obtain nodes' where rest: "path_list s (part_next pt) nodes' nms'"
    using path_list_Cons [OF list [unfolded nms]] pt(2) by (metis option.inject)
  have items: "dir_items s (dir_item ?root) = Some (root_items img)"
    "dir_total ?root \<le> int (length (root_items img))"
    "take (nat (dir_total ?root)) (root_items img) = root_listing img n"
    using vol live_items_range(2) [of img "512 * root_sector img" n] n by (simp_all add: mounted_def root_listing_def)
  have priv: "private_of (root_disk s) s = Some fp" using vol by (simp add: mounted_def fat_volume_def)
  show ?thesis
  proof (cases "find (named nm) (root_listing img n)")
    case None
    then have "fat16_get_item_in_directory io (Some Root_disk) ?root (part_name pt) s = Some (0, s)"
      using search_directory_find [OF items(1) root_items_ok items(2) pt(3), of 0 io "Some Root_disk"] items(3)
      by (simp add: fat16_get_item_in_directory_def)
    then have "fat16_get_directory_entry io (Some Root_disk) p s = Some (0, s)"
      using priv pt(2) by (simp add: fat16_get_directory_entry_def disk_ref_def)
    then show ?thesis using out None ok good by (simp add: searched_def path_outcome_def nms)
  next
    case (Some d)
    then have d: "descend img d nms' = Some out" using out by (simp add: path_outcome_def nms)
    then have dir: "subdir d \<Longrightarrow> dir_listing img d \<noteq> None" by (cases nms') (auto simp: bind_eq_Some_conv split: if_splits)
    have three: "3 \<le> spare_pages (kmem s)" using free by simp
    have found: "find (named nm) (take (nat (dir_total ?root)) (root_items img)) = Some d" using Some items(3) by simp
    obtain it s1 where f: "fat16_get_item_in_directory io (Some Root_disk) ?root (part_name pt) s = Some (it, s1)" "0 < it"
      "item_object img s1 it d" "kept s s1" "heap_ok s1" "good (dev s1)" "fresh_pages s (item_pages s1 it)"
      "spare_pages (kmem s) = spare_pages (kmem s1) + item_size d"
      by (rule find_item [OF vol good ok three items(1) root_items_ok items(2) pt(3) found dir])
    have "path_parts s1 p = Some pt" using kept_fields(4) [OF f(4)] pt(2) by simp
    then have "fat16_get_directory_entry io (Some Root_disk) p s = walk_path io (Some Root_disk) it (part_next pt) s1"
      using priv pt(2) f(1,2) by (simp add: fat16_get_directory_entry_def disk_ref_def)
    moreover have "subdir d \<longrightarrow> 3 \<le> spare_pages (kmem s1)" using f(8) free by auto
    ultimately show ?thesis
      using walk_searched [OF d f(3,2) rest f(5,6) _ f(4,7) ok vol] f(8) by simp
  qed
qed

end

end
