(* ===== verification/Opening.thy ===== *)
theory Opening
  imports File Lookup
begin

text \<open>
  From a name to an open file, across \<open>pparser.c\<close>, \<open>fat16.c\<close> and \<open>file.c\<close>: what \<open>fopen\<close> does for a
  file of a mounted volume.  A file of the root directory is found in memory; any other is looked for on
  the disk.
\<close>

section \<open>What a path names\<close>

text \<open>The regular file that the path after \<open>0:/\<close> names.\<close>

definition file_at :: "(int \<Rightarrow> byte) \<Rightarrow> nat \<Rightarrow> byte list \<Rightarrow> fat_directory_item option" where
  "file_at img n cs =
     (case path_outcome img n (split_slash cs) of
        Some (Found item) \<Rightarrow> if subdir item then None else Some item
      | _ \<Rightarrow> None)"

lemma file_at_Some:
  "file_at img n cs = Some item \<longleftrightarrow> path_outcome img n (split_slash cs) = Some (Found item) \<and> \<not> subdir item"
  by (auto simp: file_at_def split: option.splits outcome.splits if_splits)

text \<open>What mounting provides survives changes elsewhere.\<close>

lemma mounted_cong:
  assumes "mounted img n s fp" and "root_disk s' = root_disk s" and "fat_privates s' = fat_privates s"
    and "streamers s' = streamers s"
    and "dir_items s' (dir_item (root_directory fp)) = dir_items s (dir_item (root_directory fp))"
  shows "mounted img n s' fp"
  using assms by (simp add: mounted_def fat_volume_def private_of_def on_root_def)

section \<open>\<open>fat16_open\<close>\<close>

text \<open>The pages of an open file: those of its private data, and with those the descriptor itself.\<close>

definition desc_pages :: "'d kstate \<Rightarrow> addr \<Rightarrow> addr list" where
  "desc_pages s priv =
     (let it = ffd_item (the (fat_descs s priv)) in [priv, it, item_ptr (the (fat_items s it))])"

definition fd_pages :: "'d kstate \<Rightarrow> int \<Rightarrow> addr list" where
  "fd_pages s fd =
     (let desc_p = filedescriptors s ! nat (fd - 1)
      in desc_p # desc_pages s (fd_private (the (file_descs s desc_p))))"

text \<open>The objects of the file layer on the pages \<open>A\<close> are the same.\<close>

definition agree_on :: "addr set \<Rightarrow> 'd kstate \<Rightarrow> 'd kstate \<Rightarrow> bool" where
  "agree_on A s s' \<longleftrightarrow>
     (\<forall>a \<in> A. dir_items s' a = dir_items s a \<and> fat_items s' a = fat_items s a \<and> fat_descs s' a = fat_descs s a \<and>
       file_descs s' a = file_descs s a)"

abbreviation owned_pages :: "'d kstate \<Rightarrow> addr set" where
  "owned_pages s \<equiv> {a. owned kernel_heap (kmem s) a}"

lemma agree_kept: "kept s s' \<Longrightarrow> agree_on (owned_pages s) s s'"
  by (simp add: kept_def agree_on_def)

lemma agree_grows:
  assumes "agree_on (owned_pages s) s s'" and "agree_on (owned_pages s') s' s''" and "grows (kmem s) (kmem s')"
  shows "agree_on (owned_pages s) s s''"
proof -
  have "owned_pages s \<subseteq> owned_pages s'" using growsD(1) [OF assms(3)] by blast
  then show ?thesis using assms(1,2) by (auto simp: agree_on_def)
qed

lemma open_fd_agree:
  assumes fd: "open_fd s fd item pos" and agree: "agree_on (set (fd_pages s fd)) s s'"
    and slots: "length (filedescriptors s') = 512" "filedescriptors s' ! nat (fd - 1) = filedescriptors s ! nat (fd - 1)"
  shows "open_fd s' fd item pos" "fd_pages s' fd = fd_pages s fd"
  using fd agree slots by (auto simp: open_fd_def open_file_def fd_pages_def desc_pages_def agree_on_def Let_def)

lemma fd_pages_start:
  assumes ok: "heap_ok s" and fd: "open_fd s fd item pos"
  shows "\<forall>p \<in> set (fd_pages s fd). page_start (kmem s) p" "set (fd_pages s fd) \<subseteq> owned_pages s"
proof -
  show start: "\<forall>p \<in> set (fd_pages s fd). page_start (kmem s) p"
    using fd inhabitant_cases(2,4,5,6) [OF ok, THEN conjunct1]
    by (auto simp: open_fd_def open_file_def fd_pages_def desc_pages_def Let_def)
  show "set (fd_pages s fd) \<subseteq> owned_pages s" using start by (auto simp: page_start_def)
qed

text \<open>What opening comes to, after a search with the outcome \<open>out\<close>; the descriptor of a failed attempt is lost.\<close>

definition opens :: "'d ports \<Rightarrow> addr \<Rightarrow> outcome \<Rightarrow> ('d \<Rightarrow> bool) \<Rightarrow> 'd kstate \<Rightarrow> bool" where
  "opens io path out Q s \<longleftrightarrow>
     (let r = fat16_open io (Some Root_disk) path FILE_MODE_READ s in
      if out = Crash then r = None
      else \<exists>desc s'. r = Some (desc, s') \<and> kept s s' \<and> heap_ok s' \<and> Q (dev s') \<and>
        (case out of
           Found item \<Rightarrow> 0 < desc \<and> open_file s' desc item 0 \<and> fresh_pages s (desc_pages s' desc) \<and>
             spare_pages (kmem s) = spare_pages (kmem s') + 3
         | Blocked \<Rightarrow> desc = - EIO \<and> spare_pages (kmem s) = spare_pages (kmem s') + 3
         | _ \<Rightarrow> desc = - EIO \<and> spare_pages (kmem s) = spare_pages (kmem s') + 1))"

lemma opens_searched:
  assumes ok: "heap_ok s" and free: "0 < spare_pages (kmem s)"
    and plain: "\<And>item. out = Found item \<Longrightarrow> \<not> subdir item"
    and found: "\<And>s1. heap_ok s1 \<Longrightarrow> kept s s1 \<Longrightarrow> dev s1 = dev s \<Longrightarrow>
      spare_pages (kmem s) = Suc (spare_pages (kmem s1)) \<Longrightarrow>
      searched img Q s1 (spare_pages (kmem s1)) out (fat16_get_directory_entry io (Some Root_disk) path s1)"
  shows "opens io path out Q s"
proof (rule kzalloc_page [OF ok free, of 8])
  fix d m1
  assume d: "kzalloc 8 s = (d, s\<lparr>kmem := m1\<rparr>)" "0 < d" "heap_ok (s\<lparr>kmem := m1\<rparr>)"
    "page_start m1 d" "inhabitants s d = 0" "\<not> owned kernel_heap (kmem s) d"
    "spare_pages (kmem s) = Suc (spare_pages m1)" "grows (kmem s) m1"
  define s1 where "s1 = s\<lparr>kmem := m1, fat_descs := (fat_descs s)(d \<mapsto> zero_fat_descriptor)\<rparr>"
  have ok1: "heap_ok s1" using heap_ok_new(9) [OF d(3), of d zero_fat_descriptor] d(4,5) by (simp add: s1_def inhabitants_def)
  have k1: "kept s s1"
    using kept_upd(4) [OF kept_mem [OF kept_refl d(8)] d(6), of "Some zero_fat_descriptor"] by (simp add: s1_def)
  have fp: "spare_pages (kmem s) = Suc (spare_pages (kmem s1))" using d(7) by (simp add: s1_def)
  have "dev s1 = dev s" by (simp add: s1_def)
  note result = found [OF ok1 k1 this fp, unfolded searched_def]
  have run: "fat16_open io (Some Root_disk) path FILE_MODE_READ s = do {
      (entry, s2) \<leftarrow> fat16_get_directory_entry io (Some Root_disk) path s1;
      if entry = 0 then Some (- EIO, s2)
      else do {
        desc \<leftarrow> fat_descs s2 d;
        Some (d, s2\<lparr>fat_descs := (fat_descs s2)(d \<mapsto> desc\<lparr>ffd_item := entry, ffd_pos := 0\<rparr>)\<rparr>) } }"
    using d(1,2) by (simp add: fat16_open_def s1_def Let_def)
  show ?thesis
  proof (cases "out = Crash")
    case True
    then show ?thesis using result unfolding opens_def run by simp
  next
    case False
    then obtain it s2 where f: "fat16_get_directory_entry io (Some Root_disk) path s1 = Some (it, s2)"
      "kept s1 s2" "heap_ok s2" "Q (dev s2)"
      and by_case: "case out of
          Found item \<Rightarrow> 0 < it \<and> item_object img s2 it item \<and> fresh_pages s1 (item_pages s2 it) \<and>
            spare_pages (kmem s1) = spare_pages (kmem s2) + item_size item
        | Blocked \<Rightarrow> it = 0 \<and> spare_pages (kmem s1) = spare_pages (kmem s2) + 2
        | _ \<Rightarrow> it = 0 \<and> spare_pages (kmem s1) = spare_pages (kmem s2)"
      using result by auto
    have kept: "kept s s2" by (rule kept_trans [OF k1 f(2)])
    show ?thesis
    proof (cases out)
      case (Found item)
      have obj: "0 < it" "file_object s2 it item" "fresh_pages s1 (item_pages s2 it)"
        "spare_pages (kmem s1) = spare_pages (kmem s2) + 2"
        using by_case Found plain [OF Found] by (simp_all add: item_object_def)
      have "owned kernel_heap (kmem s1) d" using d(4) by (simp add: s1_def page_start_def)
      then have desc: "fat_descs s2 d = Some zero_fat_descriptor"
        using kept_objects(4) [OF f(2)] by (simp add: s1_def)
      let ?s' = "s2\<lparr>fat_descs := (fat_descs s2)(d \<mapsto> \<lparr>ffd_item = it, ffd_pos = 0\<rparr>)\<rparr>"
      have "fat16_open io (Some Root_disk) path FILE_MODE_READ s = Some (d, ?s')"
        using f(1) obj(1) desc unfolding run by simp (simp add: zero_fat_descriptor_def)
      moreover have "kept s ?s'" by (rule kept_upd(4) [OF kept d(6)])
      moreover have "open_file ?s' d item 0" using obj(2) by (auto simp: open_file_def file_object_def)
      moreover have "fresh_pages s (item_pages s2 it)" by (rule fresh_pages_grows [OF kept_fields(8) [OF k1] obj(3)])
      then have "fresh_pages s (desc_pages ?s' d)"
        using d(6) obj(2) by (auto simp: desc_pages_def item_pages_def file_object_def Let_def)
      moreover have "heap_ok ?s'" using f(3) heap_ok_update(9) [OF desc] by simp
      ultimately show ?thesis
        using d(2) f(4) obj(4) fp Found
        by (intro opens_def [THEN iffD2]) (simp add: Let_def)
    qed (unfold opens_def run, use f kept by_case fp False in simp_all)
  qed
qed simp_all

text \<open>A single name is found in the root directory, in memory since mounting: the disk is not accessed.\<close>

lemma searched_in_root:
  assumes vol: "mounted img n s fp" and ok: "heap_ok s" and free: "2 \<le> spare_pages (kmem s)"
    and list: "path_list s path nodes [cs]" and look: "path_outcome img n [cs] = Some (Found item)"
    and plain: "\<not> subdir item" and n: "int n \<le> root_entries img"
  shows "searched img (\<lambda>d. d = dev s) s (spare_pages (kmem s)) (Found item)
    (fat16_get_directory_entry io (Some Root_disk) path s)"
proof -
  let ?root = "root_directory fp"
  have "find (named cs) (root_listing img n) = Some item"
    using look plain by (auto simp: path_outcome_def split: option.splits if_splits)
  then have items: "dir_items s (dir_item ?root) = Some (root_items img)" "dir_total ?root \<le> int (length (root_items img))"
    "find (named cs) (take (nat (dir_total ?root)) (root_items img)) = Some item"
    using vol live_items_range(2) [of img "512 * root_sector img" n] n by (simp_all add: mounted_def root_listing_def)
  obtain pt nodes' where pt: "path \<noteq> 0" "path_parts s path = Some pt" "is_cstring (at (kmem s) (part_name pt)) cs"
    "path_list s (part_next pt) nodes' []"
    by (rule path_list_Cons [OF list])
  have last: "part_next pt = 0" using pt(4) by (cases nodes') simp_all
  have found: "fat16_get_item_in_directory io (Some Root_disk) ?root (part_name pt) s =
      fat16_new_fat_item_for_directory_item io (Some Root_disk) item s"
    using search_directory_find [OF items(1) root_items_ok items(2) pt(3), of 0 io "Some Root_disk"] items(3)
    by (simp add: fat16_get_item_in_directory_def)
  have plain': "attribute item AND FAT_FILE_SUBDIRECTORY = 0" using plain by simp
  obtain it cp m s2 where new: "fat16_new_fat_item_for_directory_item io (Some Root_disk) item s = Some (it, s2)"
    and s2: "s2 = s\<lparr>kmem := m, dir_items := (dir_items s)(cp \<mapsto> [item]),
       fat_items := (fat_items s)(it \<mapsto> \<lparr>item_ptr = cp, item_type = FAT_ITEM_TYPE_FILE\<rparr>)\<rparr>"
    and f2: "heap_ok s2" "0 < it" "spare_pages (kmem s) = spare_pages m + 2" "grows (kmem s) m"
      "\<not> owned kernel_heap (kmem s) it" "\<not> owned kernel_heap (kmem s) cp"
    by (rule new_fat_item_file [OF ok free plain', of io]) blast
  have priv: "private_of (root_disk s) s = Some fp"
    using vol by (simp add: mounted_def fat_volume_def)
  have parts: "path_parts s2 = path_parts s" by (simp add: s2)
  have entry: "fat16_get_directory_entry io (Some Root_disk) path s = Some (it, s2)"
    using found new pt(2) last f2(2) priv parts
    by (simp add: fat16_get_directory_entry_def disk_ref_def walk_path.simps [of _ _ _ 0])
  have "kept s s2"
    using kept_upd(2) [OF kept_upd(1) [OF kept_mem [OF kept_refl f2(4)] f2(6)] f2(5)] by (simp add: s2)
  then show ?thesis
    unfolding searched_def using entry f2 plain'
    by (simp add: s2 file_object_def item_pages_def item_object_def)
qed

section \<open>Opening by name\<close>

lemma parse_frame_fields:
  assumes "parse_frame s s'"
  shows "file_descs s' = file_descs s" "filedescriptors s' = filedescriptors s" "root_disk s' = root_disk s"
    "dev s' = dev s" "dir_items s' = dir_items s" "path_roots s' = path_roots s" "streamers s' = streamers s"
    "filesystems s' = filesystems s" "fat_privates s' = fat_privates s" "directories s' = directories s"
    "fat_items s' = fat_items s" "fat_descs s' = fat_descs s"
  using assms unfolding parse_frame_def by - (erule conjE, erule ssubst, simp)+

lemma split_slash_single:
  assumes "0x2F \<notin> set cs"
  shows "split_slash cs = [cs]"
proof -
  have "takeWhile (\<lambda>c. c \<noteq> 0x2F) cs = cs" using assms by (auto simp: takeWhile_eq_all_conv)
  moreover have "dropWhile (\<lambda>c. c \<noteq> 0x2F) cs = []" using assms by (auto simp: dropWhile_eq_Nil_conv)
  ultimately show ?thesis by (subst split_slash.simps) simp
qed

lemma split_slash_length: "length (split_slash cs) \<le> Suc (length cs)"
proof (induction cs rule: split_slash.induct)
  case (1 cs)
  let ?n = "takeWhile (\<lambda>c. c \<noteq> 0x2F) cs" and ?rest = "dropWhile (\<lambda>c. c \<noteq> 0x2F) cs"
  have split: "split_slash cs = (if ?rest = [] then [?n] else ?n # split_slash (tl ?rest))"
    by (subst split_slash.simps) (simp only: Let_def)
  show ?case
  proof (cases "?rest = []")
    case False
    then have "length (split_slash (tl ?rest)) \<le> Suc (length (tl ?rest))" by (rule 1 [OF refl refl])
    moreover have "0 < length ?rest" "length ?rest \<le> length cs" using False length_dropWhile_le by blast+
    ultimately show ?thesis using False by (simp add: split)
  qed (simp add: split)
qed

text \<open>A new descriptor in the first free slot.\<close>

lemma new_descriptor:
  assumes ok: "heap_ok s" and free: "0 < spare_pages (kmem s)"
    and slot: "i < length (filedescriptors s)" "filedescriptors s ! i = 0" "\<And>j. j < i \<Longrightarrow> filedescriptors s ! j \<noteq> 0"
  obtains desc m s' where "file_new_descriptor s = Some (0, desc, s')"
    "s' = s\<lparr>kmem := m, file_descs := (file_descs s)(desc \<mapsto> zero_file_descriptor\<lparr>fd_index := int i + 1\<rparr>),
       filedescriptors := (filedescriptors s)[i := desc]\<rparr>"
    "0 < desc" "heap_ok s'" "grows (kmem s) m" "spare_pages (kmem s) = Suc (spare_pages m)"
    "\<not> owned kernel_heap (kmem s) desc" "inhabitants s desc = 0"
proof (rule kzalloc_page [OF ok free, of 16])
  fix p m
  assume z: "kzalloc 16 s = (p, s\<lparr>kmem := m\<rparr>)" "0 < p" "heap_ok (s\<lparr>kmem := m\<rparr>)" "page_start m p"
    "inhabitants s p = 0" "\<not> owned kernel_heap (kmem s) p"
    "spare_pages (kmem s) = Suc (spare_pages m)" "grows (kmem s) m"
  have "(LEAST j. j < length (filedescriptors s) \<and> filedescriptors s ! j = 0) = i"
    using slot by (intro Least_equality) (auto intro: leI)
  then have "first_zero (filedescriptors s) 0 = Some i"
    using slot(1,2) by (auto simp: first_zero_spec)
  then have run: "file_new_descriptor s = Some (0, p, s\<lparr>kmem := m,
       file_descs := (file_descs s)(p \<mapsto> zero_file_descriptor\<lparr>fd_index := int i + 1\<rparr>),
       filedescriptors := (filedescriptors s)[i := p]\<rparr>)"
    using z(1,2) by (simp add: file_new_descriptor_def)
  have "heap_ok (s\<lparr>kmem := m, file_descs := (file_descs s)(p \<mapsto> zero_file_descriptor\<lparr>fd_index := int i + 1\<rparr>)\<rparr>)"
    using heap_ok_new(4) [OF z(3), of p "zero_file_descriptor\<lparr>fd_index := int i + 1\<rparr>"] z(4,5) by simp
  then have "heap_ok (s\<lparr>kmem := m, file_descs := (file_descs s)(p \<mapsto> zero_file_descriptor\<lparr>fd_index := int i + 1\<rparr>),
       filedescriptors := (filedescriptors s)[i := p]\<rparr>)"
    using heap_ok_other(4) by fastforce
  then show thesis using z by (intro that [OF run refl]) simp_all
qed simp_all

text \<open>What the caller has to provide: a mounted volume, a path and pages; and to open a file, a free slot too.\<close>

definition searchable :: "(int \<Rightarrow> byte) \<Rightarrow> nat \<Rightarrow> 'd kstate \<Rightarrow> fat_private_t \<Rightarrow> addr \<Rightarrow> byte list \<Rightarrow> bool" where
  "searchable img n s fp filename cs \<longleftrightarrow>
     mounted img n s fp \<and> int n \<le> root_entries img \<and> heap_ok s \<and>
     2 * length (split_slash cs) + 9 \<le> spare_pages (kmem s) \<and>
     is_cstring (at (kmem s) filename) (0x30 # 0x3A # 0x2F # cs) \<and> length cs \<le> 253 \<and>
     (\<forall>k \<le> length cs + 3. settled (kmem s) (filename + int k))"

definition first_free :: "'d kstate \<Rightarrow> nat \<Rightarrow> bool" where
  "first_free s i \<longleftrightarrow>
     length (filedescriptors s) = 512 \<and> i < 511 \<and> filedescriptors s ! i = 0 \<and> (\<forall>j < i. filedescriptors s ! j \<noteq> 0)"

definition can_open :: "(int \<Rightarrow> byte) \<Rightarrow> nat \<Rightarrow> 'd kstate \<Rightarrow> fat_private_t \<Rightarrow> addr \<Rightarrow> byte list \<Rightarrow> fat_directory_item \<Rightarrow> nat \<Rightarrow> bool" where
  "can_open img n s fp filename cs item i \<longleftrightarrow>
     searchable img n s fp filename cs \<and> file_at img n cs = Some item \<and> first_free s i"

text \<open>\<open>fopen\<close> first parses the path.  The rest of it stores a new descriptor for what \<open>fat16_open\<close> returned.\<close>

definition install :: "addr \<Rightarrow> 'd kstate \<Rightarrow> (int \<times> 'd kstate) option" where
  "install d s =
     (if d = 0 then Some (- EIO, s) else if d < 0 then Some (d, s)
      else do {
        (res, desc_p, s) \<leftarrow> file_new_descriptor s;
        if res < 0 then Some (res, s)
        else do {
          disk \<leftarrow> disk_ref (Some Root_disk) s;
          desc \<leftarrow> file_descs s desc_p;
          let desc = desc\<lparr>fd_fs := disk_filesystem disk, fd_private := d, fd_disk := Some Root_disk\<rparr>;
          Some (fd_index desc, s\<lparr>file_descs := (file_descs s)(desc_p \<mapsto> desc)\<rparr>) } })"

lemma fopen_parsed:
  assumes ready: "searchable img n s fp filename cs" and mode: "mode_str 0 = 0x72"
  obtains s3 nd nodes where "mounted img n s3 fp" "heap_ok s3" "path_list s3 nd nodes (split_slash cs)"
    "dev s3 = dev s" "filedescriptors s3 = filedescriptors s" "agree_on UNIV s s3" "grows (kmem s) (kmem s3)"
    "spare_pages (kmem s) = spare_pages (kmem s3) + 2 * length (split_slash cs) + 1"
    "fopen io filename mode_str s = do {
       (d, s4) \<leftarrow> fat16_open io (Some Root_disk) nd FILE_MODE_READ s3;
       (r, s5) \<leftarrow> install d s4;
       Some (if r < 0 then 0 else r, s5) }"
proof -
  note c = ready [unfolded searchable_def]
  have ok: "heap_ok s" and fp0: "0 < spare_pages (kmem s)" using c by simp_all
  obtain root m0 where r: "kzalloc 8 s = (root, s\<lparr>kmem := m0\<rparr>)" "0 < root" "heap_ok (s\<lparr>kmem := m0\<rparr>)"
    "page_start m0 root" "inhabitants s root = 0"
    "spare_pages (kmem s) = Suc (spare_pages m0)" "grows (kmem s) m0"
    by (rule kzalloc_page [OF ok fp0, of 8]) auto
  define s0 where "s0 = s\<lparr>kmem := m0, path_roots := (path_roots s)(root \<mapsto> zero_path_root)\<rparr>"
  have keep0: "settled (kmem s0) a \<and> kmem s0 a = kmem s a" if "settled (kmem s) a" for a
    using growsD(2,3) [OF r(7) that] by (simp add: s0_def)
  have ok0: "heap_ok s0" "path_roots s0 root = Some zero_path_root"
    using heap_ok_new(3) [OF r(3), of root zero_path_root] r(4,5) by (simp_all add: s0_def)
  have str0: "is_cstring (at (kmem s0) filename) (0x30 # 0x3A # 0x2F # cs)"
    by (rule is_cstring_cong [of _ _ _ "kmem s"]) (use c keep0 in \<open>auto simp: eval_nat_numeral\<close>)
  have settled0: "\<forall>k \<le> length cs + 3. settled (kmem s0) (filename + int k)" using c keep0 by blast
  have len: "length cs \<le> 253" and digit: "is_digit 0x30" using c by (simp_all add: is_digit_def)
  have fp1: "2 * length (split_slash cs) \<le> spare_pages (kmem s0)"
    using c r(6) by (simp add: s0_def)
  obtain s1 s2 nd nodes where
    parse: "pparser_parse_path_root filename root s0 =
       Some (0, s2\<lparr>path_roots := (path_roots s0)(root \<mapsto> \<lparr>drive_no = uint (0x30 :: byte) - 48, parts = nd\<rparr>)\<rparr>)"
    and f1: "parse_frame s0 s1" and s1: "s1 = s0\<lparr>kmem := kmem s1, path_parts := (path_parts s0)(nd \<mapsto> zero_path_part)\<rparr>"
    and p2: "parsed s1 s2 nd nodes (split_slash cs)"
    and fp2: "spare_pages (kmem s0) = Suc (spare_pages (kmem s1))"
    by (rule parse_path_root [OF ok0 str0 digit len settled0 fp1]) blast
  define s3 where "s3 = s2\<lparr>path_roots := (path_roots s0)(root \<mapsto> \<lparr>drive_no = 0, parts = nd\<rparr>)\<rparr>"
  have p2': "path_list s2 nd (nd # nodes) (split_slash cs)" "parse_frame s1 s2" "heap_ok s2"
    "Suc (spare_pages (kmem s1)) = spare_pages (kmem s2) + 2 * length (split_slash cs)"
    using p2 by (simp_all only: parsed_def)
  have f2: "parse_frame s0 s2" using parse_frame_trans [OF f1 p2'(2)] .
  note fields = parse_frame_fields [OF f2]
  have nd: "nd \<noteq> 0" using p2'(1) by (cases "split_slash cs") simp_all
  have list3: "path_list s3 nd (nd # nodes) (split_slash cs)"
    by (rule path_list_cong [OF p2'(1)]) (simp_all add: s3_def)
  have ok3: "heap_ok s3"
    using p2'(3) heap_ok_update(3) [of s2 root zero_path_root] ok0(2) fields by (simp add: s3_def)
  have vol3: "mounted img n s3 fp"
    by (rule mounted_cong [of img n s]) (use c fields in \<open>simp_all add: s3_def s0_def\<close>)
  have fp3: "spare_pages (kmem s) = spare_pages (kmem s3) + 2 * length (split_slash cs) + 1"
    using r(6) fp2 p2'(4) by (simp add: s3_def s0_def)
  have same3: "dev s3 = dev s" "filedescriptors s3 = filedescriptors s" "agree_on UNIV s s3"
    using fields by (simp_all add: agree_on_def s3_def s0_def)
  have g3: "grows (kmem s) (kmem s3)"
    using grows_trans [OF r(7), of "kmem s2"] f2 by (simp add: parse_frame_def s0_def s3_def)
  have fs: "disk_filesystem (root_disk s3) = Some Fat16_fs" using vol3 by (simp add: mounted_def)
  have "fopen_disk io \<lparr>drive_no = 0, parts = nd\<rparr> mode_str s3 = do {
      (d, s4) \<leftarrow> fat16_open io (Some Root_disk) nd FILE_MODE_READ s3; install d s4 }"
    using nd fs mode
    by (simp add: fopen_disk_def disk_get_def disk_ref_def get_file_mode_first_char vfs_open_def install_def Let_def)
  then have "fopen io filename mode_str s = do {
       (d, s4) \<leftarrow> fat16_open io (Some Root_disk) nd FILE_MODE_READ s3;
       (r, s5) \<leftarrow> install d s4;
       Some (if r < 0 then 0 else r, s5) }"
    using r(1,2) parse by (simp add: fopen_def s0_def [symmetric] s3_def Let_def case_prod_unfold)
  then show thesis by (rule that [OF vol3 ok3 list3 same3 g3 fp3])
qed

text \<open>A descriptor for an open file.\<close>

lemma install_opened:
  assumes vol: "mounted img n s fp" and ok: "heap_ok s" and opn: "open_file s d item 0" "0 < d"
    and free: "0 < spare_pages (kmem s)" and slot: "first_free s i"
  obtains desc s' where "install d s = Some (int i + 1, s')" "open_fd s' (int i + 1) item 0" "mounted img n s' fp"
    "heap_ok s'" "grows (kmem s) (kmem s')" "dev s' = dev s"
    "spare_pages (kmem s) = Suc (spare_pages (kmem s'))"
    "fd_pages s' (int i + 1) = desc # desc_pages s d" "\<not> owned kernel_heap (kmem s) desc"
    "(filedescriptors s')[i := 0] = filedescriptors s" "agree_on (owned_pages s) s s'"
proof -
  note c = slot [unfolded first_free_def]
  obtain desc m s5 where new: "file_new_descriptor s = Some (0, desc, s5)"
    and s5: "s5 = s\<lparr>kmem := m, file_descs := (file_descs s)(desc \<mapsto> zero_file_descriptor\<lparr>fd_index := int i + 1\<rparr>),
       filedescriptors := (filedescriptors s)[i := desc]\<rparr>"
    and f5: "0 < desc" "heap_ok s5" "grows (kmem s) m" "spare_pages (kmem s) = Suc (spare_pages m)"
      "\<not> owned kernel_heap (kmem s) desc"
    by (rule new_descriptor [OF ok free, of i]) (use c in simp_all)
  let ?fd = "\<lparr>fd_index = int i + 1, fd_fs = Some Fat16_fs, fd_private = d, fd_disk = Some Root_disk\<rparr>"
  define s6 where "s6 = s5\<lparr>file_descs := (file_descs s5)(desc \<mapsto> ?fd)\<rparr>"
  have fs: "disk_filesystem (root_disk s) = Some Fat16_fs" using vol by (simp add: mounted_def)
  have run: "install d s = Some (int i + 1, s6)"
    using fs new opn(2) by (simp add: install_def disk_ref_def s6_def s5 zero_file_descriptor_def Let_def)
  have "file_descs s5 desc = Some (zero_file_descriptor\<lparr>fd_index := int i + 1\<rparr>)" by (simp add: s5)
  then have ok6: "heap_ok s6" using f5(2) by (simp add: s6_def heap_ok_update)
  have vol6: "mounted img n s6 fp" by (intro mounted_cong [OF vol]) (simp_all add: s6_def s5)
  have fd6: "open_fd s6 (int i + 1) item 0"
    using opn(1) f5(1) c by (simp add: open_fd_def open_file_def s6_def s5)
  have pages: "fd_pages s6 (int i + 1) = desc # desc_pages s d"
    using c by (simp add: fd_pages_def desc_pages_def s6_def s5)
  have "(filedescriptors s6)[i := 0] = filedescriptors s"
    using c list_update_id [of "filedescriptors s" i] by (simp add: s6_def s5)
  moreover have "agree_on (owned_pages s) s s6" using f5(5) by (auto simp: agree_on_def s6_def s5)
  ultimately show thesis using f5(3-5) by (intro that [OF run fd6 vol6 ok6 _ _ _ pages]) (simp_all add: s6_def s5)
qed

text \<open>What \<open>fopen\<close> does for a file that is found.\<close>

definition opened :: "(int \<Rightarrow> byte) \<Rightarrow> nat \<Rightarrow> 'd kstate \<Rightarrow> fat_private_t \<Rightarrow> byte list \<Rightarrow> fat_directory_item \<Rightarrow> nat \<Rightarrow> 'd kstate \<Rightarrow> bool" where
  "opened img n s fp cs item i s' \<longleftrightarrow>
     open_fd s' (int i + 1) item 0 \<and> mounted img n s' fp \<and> heap_ok s' \<and> grows (kmem s) (kmem s') \<and>
     spare_pages (kmem s) = spare_pages (kmem s') + 2 * length (split_slash cs) + 5 \<and>
     fresh_pages s (fd_pages s' (int i + 1)) \<and> (filedescriptors s')[i := 0] = filedescriptors s \<and>
     agree_on (owned_pages s) s s'"

lemma fopen_opens:
  assumes can: "can_open img n s fp filename cs item i" and mode: "mode_str 0 = 0x72"
    and opens: "\<And>s3 nd nodes. mounted img n s3 fp \<Longrightarrow> heap_ok s3 \<Longrightarrow> path_list s3 nd nodes (split_slash cs) \<Longrightarrow>
      8 \<le> spare_pages (kmem s3) \<Longrightarrow> dev s3 = dev s \<Longrightarrow> opens io nd (Found item) Q s3"
  obtains s' where "fopen io filename mode_str s = Some (int i + 1, s')" "opened img n s fp cs item i s'" "Q (dev s')"
proof -
  have ready: "searchable img n s fp filename cs" and slot: "first_free s i" using can by (simp_all add: can_open_def)
  obtain s3 nd nodes where s3: "mounted img n s3 fp" "heap_ok s3" "path_list s3 nd nodes (split_slash cs)"
    "dev s3 = dev s" "filedescriptors s3 = filedescriptors s" "agree_on UNIV s s3" "grows (kmem s) (kmem s3)"
    "spare_pages (kmem s) = spare_pages (kmem s3) + 2 * length (split_slash cs) + 1"
    and run: "fopen io filename mode_str s = do {
       (d, s4) \<leftarrow> fat16_open io (Some Root_disk) nd FILE_MODE_READ s3;
       (r, s5) \<leftarrow> install d s4;
       Some (if r < 0 then 0 else r, s5) }"
    by (rule fopen_parsed [OF ready, of mode_str io]) (use mode in blast)+
  have room: "8 \<le> spare_pages (kmem s3)" using ready s3(8) by (simp add: searchable_def)
  obtain d s4 where open4: "fat16_open io (Some Root_disk) nd FILE_MODE_READ s3 = Some (d, s4)"
    and f4: "0 < d" "open_file s4 d item 0" "kept s3 s4" "heap_ok s4" "Q (dev s4)" "fresh_pages s3 (desc_pages s4 d)"
      "spare_pages (kmem s3) = spare_pages (kmem s4) + 3"
    using opens [OF s3(1,2,3) room s3(4), unfolded opens_def] by auto
  have fds: "filedescriptors s4 = filedescriptors s" using s3(5) kept_fields(3) [OF f4(3)] by simp
  have fp4: "0 < spare_pages (kmem s4)" using room f4(7) by simp
  have slot4: "first_free s4 i" using slot fds by (simp add: first_free_def)
  obtain desc s6 where i: "install d s4 = Some (int i + 1, s6)" "open_fd s6 (int i + 1) item 0" "mounted img n s6 fp"
    "heap_ok s6" "grows (kmem s4) (kmem s6)" "dev s6 = dev s4"
    "spare_pages (kmem s4) = Suc (spare_pages (kmem s6))"
    "fd_pages s6 (int i + 1) = desc # desc_pages s4 d" "\<not> owned kernel_heap (kmem s4) desc"
    "(filedescriptors s6)[i := 0] = filedescriptors s4" "agree_on (owned_pages s4) s4 s6"
    by (rule install_opened [OF mounted_kept [OF s3(1,2) f4(3)] f4(4,2,1) fp4 slot4])
  have g4: "grows (kmem s) (kmem s4)" by (rule grows_trans [OF s3(7) kept_fields(8) [OF f4(3)]])
  have "fresh_pages s (fd_pages s6 (int i + 1))"
    using growsD(1) [OF g4] i(9) fresh_pages_grows [OF s3(7) f4(6)] by (auto simp: i(8))
  moreover have "spare_pages (kmem s) = spare_pages (kmem s6) + 2 * length (split_slash cs) + 5"
    using s3(8) f4(7) i(7) by simp
  moreover have "agree_on (owned_pages s) s s6"
    using agree_grows [OF agree_grows [OF _ agree_kept [OF f4(3)] s3(7)] i(11) g4] s3(6) by (simp add: agree_on_def)
  ultimately have "opened img n s fp cs item i s6"
    using i(2-4,10) fds grows_trans [OF g4 i(5)] by (simp add: opened_def)
  moreover have "fopen io filename mode_str s = Some (int i + 1, s6)" using run open4 i(1) by simp
  moreover have "Q (dev s6)" using f4(5) i(6) by simp
  ultimately show thesis by (intro that)
qed

text \<open>A search that fails makes \<open>fopen\<close> fail, one that crashes makes it crash.\<close>

lemma fopen_fails:
  assumes ready: "searchable img n s fp filename cs" and mode: "mode_str 0 = 0x72" and out: "out = Absent \<or> out = Blocked"
    and opens: "\<And>s3 nd nodes. mounted img n s3 fp \<Longrightarrow> heap_ok s3 \<Longrightarrow> path_list s3 nd nodes (split_slash cs) \<Longrightarrow>
      8 \<le> spare_pages (kmem s3) \<Longrightarrow> dev s3 = dev s \<Longrightarrow> opens io nd out Q s3"
  obtains s' where "fopen io filename mode_str s = Some (0, s')" "mounted img n s' fp" "heap_ok s'"
    "grows (kmem s) (kmem s')" "filedescriptors s' = filedescriptors s" "Q (dev s')" "agree_on (owned_pages s) s s'"
    "spare_pages (kmem s) = spare_pages (kmem s') + 2 * length (split_slash cs) + (if out = Absent then 2 else 4)"
proof -
  obtain s3 nd nodes where s3: "mounted img n s3 fp" "heap_ok s3" "path_list s3 nd nodes (split_slash cs)"
    "dev s3 = dev s" "filedescriptors s3 = filedescriptors s" "agree_on UNIV s s3" "grows (kmem s) (kmem s3)"
    "spare_pages (kmem s) = spare_pages (kmem s3) + 2 * length (split_slash cs) + 1"
    and run: "fopen io filename mode_str s = do {
       (d, s4) \<leftarrow> fat16_open io (Some Root_disk) nd FILE_MODE_READ s3;
       (r, s5) \<leftarrow> install d s4;
       Some (if r < 0 then 0 else r, s5) }"
    by (rule fopen_parsed [OF ready, of mode_str io]) (use mode in blast)+
  have room: "8 \<le> spare_pages (kmem s3)" using ready s3(8) by (simp add: searchable_def)
  obtain s4 where open4: "fat16_open io (Some Root_disk) nd FILE_MODE_READ s3 = Some (- EIO, s4)"
    and f4: "kept s3 s4" "heap_ok s4" "Q (dev s4)"
      "spare_pages (kmem s3) = spare_pages (kmem s4) + (if out = Absent then 1 else 3)"
    using opens [OF s3(1,2,3) room s3(4), unfolded opens_def] out by auto
  have "install (- EIO) s4 = Some (- EIO, s4)" by (simp add: install_def)
  then have "fopen io filename mode_str s = Some (0, s4)" using run open4 by simp
  moreover have "grows (kmem s) (kmem s4)" by (rule grows_trans [OF s3(7) kept_fields(8) [OF f4(1)]])
  moreover have "filedescriptors s4 = filedescriptors s" using s3(5) kept_fields(3) [OF f4(1)] by simp
  moreover have "agree_on (owned_pages s) s s4"
    using agree_grows [OF _ agree_kept [OF f4(1)] s3(7)] s3(6) by (simp add: agree_on_def)
  moreover have "spare_pages (kmem s) =
      spare_pages (kmem s4) + 2 * length (split_slash cs) + (if out = Absent then 2 else 4)"
    using s3(8) f4(4) by simp
  ultimately show thesis using mounted_kept [OF s3(1,2) f4(1)] f4(2,3) by (intro that)
qed

lemma fopen_crashes:
  assumes ready: "searchable img n s fp filename cs" and mode: "mode_str 0 = 0x72"
    and opens: "\<And>s3 nd nodes. mounted img n s3 fp \<Longrightarrow> heap_ok s3 \<Longrightarrow> path_list s3 nd nodes (split_slash cs) \<Longrightarrow>
      8 \<le> spare_pages (kmem s3) \<Longrightarrow> dev s3 = dev s \<Longrightarrow> opens io nd Crash Q s3"
  shows "fopen io filename mode_str s = None"
proof (rule fopen_parsed [OF ready, of mode_str io])
  fix s3 nd nodes
  assume s3: "mounted img n s3 fp" "heap_ok s3" "path_list s3 nd nodes (split_slash cs)" "dev s3 = dev s"
    "spare_pages (kmem s) = spare_pages (kmem s3) + 2 * length (split_slash cs) + 1"
    and run: "fopen io filename mode_str s = do {
       (d, s4) \<leftarrow> fat16_open io (Some Root_disk) nd FILE_MODE_READ s3;
       (r, s5) \<leftarrow> install d s4;
       Some (if r < 0 then 0 else r, s5) }"
  have "8 \<le> spare_pages (kmem s3)" using ready s3(5) by (simp add: searchable_def)
  then have "fat16_open io (Some Root_disk) nd FILE_MODE_READ s3 = None"
    using opens [OF s3(1-3) _ s3(4), unfolded opens_def Let_def] by simp
  then show ?thesis using run by simp
qed (rule mode)

text \<open>A file of the root directory, without access to the disk.\<close>

lemma fopen_root_file:
  assumes can: "can_open img n s fp filename cs item i" and single: "0x2F \<notin> set cs" and mode: "mode_str 0 = 0x72"
  obtains s' where "fopen io filename mode_str s = Some (int i + 1, s')" "opened img n s fp cs item i s'" "dev s' = dev s"
proof (rule fopen_opens [OF can, of mode_str io "\<lambda>d. d = dev s"])
  have look: "path_outcome img n [cs] = Some (Found item)" "\<not> subdir item" "int n \<le> root_entries img"
    using can single by (simp_all add: can_open_def searchable_def file_at_Some split_slash_single)
  fix s3 nd nodes
  assume s3: "mounted img n s3 fp" "heap_ok s3" "path_list s3 nd nodes (split_slash cs)"
    "8 \<le> spare_pages (kmem s3)" "dev s3 = dev s"
  show "opens io nd (Found item) (\<lambda>d. d = dev s) s3"
  proof (rule opens_searched [OF s3(2)])
    fix s4
    assume s4: "heap_ok s4" "kept s3 s4" "dev s4 = dev s3"
      "spare_pages (kmem s3) = Suc (spare_pages (kmem s4))"
    have list: "path_list s4 nd nodes [cs]"
      using path_list_kept [OF s3(3) s4(2)] single by (simp add: split_slash_single)
    have "2 \<le> spare_pages (kmem s4)" using s3(4) s4(4) by simp
    from searched_in_root [OF mounted_kept [OF s3(1,2) s4(2)] s4(1) this list look, of io]
    show "searched img (\<lambda>d. d = dev s) s4 (spare_pages (kmem s4)) (Found item)
        (fat16_get_directory_entry io (Some Root_disk) nd s4)"
      using s3(5) s4(3) by simp
  qed (use s3(4) look(2) in simp_all)
qed (use mode that in blast)+

text \<open>Any path.\<close>

lemma opens_path:
  assumes ata: "ata_laws io drv" and dev: "idle_drive img (drv (dev s))" and vol: "mounted img n s fp" and ok: "heap_ok s"
    and list: "path_list s nd nodes nms" and free: "8 \<le> spare_pages (kmem s)" and n: "int n \<le> root_entries img"
    and out: "path_outcome img n nms = Some out" and plain: "\<And>item. out = Found item \<Longrightarrow> \<not> subdir item"
  shows "opens io nd out (\<lambda>d. idle_drive img (drv d)) s"
proof (rule opens_searched [OF ok])
  fix s1
  assume s1: "heap_ok s1" "kept s s1" "dev s1 = dev s"
    "spare_pages (kmem s) = Suc (spare_pages (kmem s1))"
  have "idle_drive img (drv (dev s1))" "6 \<le> spare_pages (kmem s1)" using s1(3,4) dev free by simp_all
  then show "searched img (\<lambda>d. idle_drive img (drv d)) s1 (spare_pages (kmem s1)) out
      (fat16_get_directory_entry io (Some Root_disk) nd s1)"
    by (intro sector_device.directory_entry_searched [OF ata_sector_device [OF ata] mounted_kept [OF vol ok s1(2)] _ s1(1) _ n
        path_list_kept [OF list s1(2)] out])
qed (use free plain in simp_all)

lemma fopen_ata:
  assumes ata: "ata_laws io drv" and dev: "idle_drive img (drv (dev s))"
    and can: "can_open img n s fp filename cs item i" and mode: "mode_str 0 = 0x72"
  obtains s' where "fopen io filename mode_str s = Some (int i + 1, s')" "opened img n s fp cs item i s'"
    "idle_drive img (drv (dev s'))"
proof (rule fopen_opens [OF can, of mode_str io "\<lambda>d. idle_drive img (drv d)"])
  fix s3 nd nodes
  assume s3: "mounted img n s3 fp" "heap_ok s3" "path_list s3 nd nodes (split_slash cs)"
    "8 \<le> spare_pages (kmem s3)" "dev s3 = dev s"
  have "idle_drive img (drv (dev s3))" using dev s3(5) by simp
  from opens_path [OF ata this s3(1-4), of "Found item"] can
  show "opens io nd (Found item) (\<lambda>d. idle_drive img (drv d)) s3"
    by (simp add: can_open_def searchable_def file_at_Some)
qed (use mode that in blast)+

lemma fopen_fails_ata:
  assumes ata: "ata_laws io drv" and dev: "idle_drive img (drv (dev s))"
    and ready: "searchable img n s fp filename cs" and mode: "mode_str 0 = 0x72"
    and out: "out = Absent \<or> out = Blocked" "path_outcome img n (split_slash cs) = Some out"
  obtains s' where "fopen io filename mode_str s = Some (0, s')" "mounted img n s' fp" "heap_ok s'"
    "grows (kmem s) (kmem s')" "filedescriptors s' = filedescriptors s" "idle_drive img (drv (dev s'))"
    "agree_on (owned_pages s) s s'"
    "spare_pages (kmem s) = spare_pages (kmem s') + 2 * length (split_slash cs) + (if out = Absent then 2 else 4)"
proof (rule fopen_fails [OF ready, of mode_str out io "\<lambda>d. idle_drive img (drv d)"])
  fix s3 nd nodes
  assume s3: "mounted img n s3 fp" "heap_ok s3" "path_list s3 nd nodes (split_slash cs)"
    "8 \<le> spare_pages (kmem s3)" "dev s3 = dev s"
  have "idle_drive img (drv (dev s3))" using dev s3(5) by simp
  then show "opens io nd out (\<lambda>d. idle_drive img (drv d)) s3"
    by (rule opens_path [OF ata _ s3(1-4) _ out(2)]) (use ready out(1) in \<open>auto simp: searchable_def\<close>)
qed (use mode out(1) that in blast)+

end
