(* ===== verification/Closing.thy ===== *)
theory Closing
  imports Opening
begin

text \<open>
  \<open>fclose\<close> on a descriptor that \<open>fopen\<close> returned, and what opening, reading and closing amount to
  together.
\<close>

section \<open>Closing\<close>

text \<open>Closing changes only the objects of the file and its slot.\<close>

definition close_frame :: "int \<Rightarrow> 'd kstate \<Rightarrow> 'd kstate \<Rightarrow> bool" where
  "close_frame fd s s' \<longleftrightarrow>
     s' = s\<lparr>kmem := kmem s', dir_items := dir_items s', fat_items := fat_items s', fat_descs := fat_descs s',
       file_descs := file_descs s', filedescriptors := (filedescriptors s)[nat (fd - 1) := 0]\<rparr> \<and>
     agree_on (- set (fd_pages s fd)) s s'"

lemma close_frame_fields:
  assumes "close_frame fd s s'"
  shows "filedescriptors s' = (filedescriptors s)[nat (fd - 1) := 0]" "root_disk s' = root_disk s"
    "dev s' = dev s" "path_parts s' = path_parts s" "path_roots s' = path_roots s" "streamers s' = streamers s"
    "filesystems s' = filesystems s" "fat_privates s' = fat_privates s" "directories s' = directories s"
  using assms unfolding close_frame_def by - (erule conjE, erule ssubst, simp)+

lemma fat16_close_open_file:
  assumes ok: "heap_ok s" and opened: "open_file s priv item pos"
  obtains s' it cp m where "fat16_close priv s = Some (0, s')" "desc_pages s priv = [priv, it, cp]"
    "s' = s\<lparr>kmem := m, dir_items := (dir_items s)(cp := None), fat_items := (fat_items s)(it := None),
       fat_descs := (fat_descs s)(priv := None)\<rparr>"
    "heap_ok s'" "spare_pages m = spare_pages (kmem s) + 3"
    "gives_back_all {priv, it, cp} (kmem s) m" "\<forall>p \<in> {priv, it, cp}. page_start (kmem s) p"
proof -
  obtain it cp where f: "fat_descs s priv = Some \<lparr>ffd_item = it, ffd_pos = pos\<rparr>"
    "fat_items s it = Some \<lparr>item_ptr = cp, item_type = FAT_ITEM_TYPE_FILE\<rparr>" "dir_items s cp = Some [item]"
    using opened by (auto simp: open_file_def)
  obtain m1 where k1: "kfree cp s = Some (s\<lparr>dir_items := (dir_items s)(cp := None), kmem := m1\<rparr>)"
    "released cp s (s\<lparr>dir_items := (dir_items s)(cp := None), kmem := m1\<rparr>)"
    by (rule kfree_dir_items [OF ok f(3)])
  define s1 where "s1 = s\<lparr>dir_items := (dir_items s)(cp := None), kmem := m1\<rparr>"
  have s1: "heap_ok s1" "fat_items s1 it = Some \<lparr>item_ptr = cp, item_type = FAT_ITEM_TYPE_FILE\<rparr>"
    using k1(2) f(2) by (simp_all add: s1_def released_def)
  obtain m2 where k2: "kfree it s1 = Some (s1\<lparr>fat_items := (fat_items s1)(it := None), kmem := m2\<rparr>)"
    "released it s1 (s1\<lparr>fat_items := (fat_items s1)(it := None), kmem := m2\<rparr>)"
    by (rule kfree_fat_item [OF s1])
  define s2 where "s2 = s1\<lparr>fat_items := (fat_items s1)(it := None), kmem := m2,
      fat_descs := (fat_descs s1)(priv \<mapsto> \<lparr>ffd_item = it, ffd_pos = 0\<rparr>)\<rparr>"
  have s2: "heap_ok s2" "fat_descs s2 priv = Some \<lparr>ffd_item = it, ffd_pos = 0\<rparr>"
    using k2(2) f(1) heap_ok_update(9) [of "s1\<lparr>fat_items := (fat_items s1)(it := None), kmem := m2\<rparr>" priv]
    by (simp_all add: s1_def s2_def released_def)
  obtain m3 where k3: "kfree priv s2 = Some (s2\<lparr>fat_descs := (fat_descs s2)(priv := None), kmem := m3\<rparr>)"
    "released priv s2 (s2\<lparr>fat_descs := (fat_descs s2)(priv := None), kmem := m3\<rparr>)"
    by (rule kfree_fat_desc [OF s2])
  let ?s' = "s\<lparr>kmem := m3, dir_items := (dir_items s)(cp := None), fat_items := (fat_items s)(it := None),
       fat_descs := (fat_descs s)(priv := None)\<rparr>"
  have same: "?s' = s2\<lparr>fat_descs := (fat_descs s2)(priv := None), kmem := m3\<rparr>"
    by (simp add: s2_def s1_def)
  have "fat16_fat_item_free it s = Some (s1\<lparr>fat_items := (fat_items s1)(it := None), kmem := m2\<rparr>)"
    using f(2) k1(1) k2(1) by (simp add: fat16_fat_item_free_def s1_def [symmetric])
  then have run: "fat16_close priv s = Some (0, ?s')"
    using f(1) k3(1) by (simp add: fat16_close_def same s2_def s1_def Let_def)
  have "gives_back_all ({cp} \<union> ({it} \<union> {priv})) (kmem s) m3"
    using released_all [OF k1(2)] released_all [OF k2(2)] released_all [OF k3(2)]
    by (intro gives_back_all_trans) (simp_all add: s2_def s1_def)
  then have given: "gives_back_all {priv, it, cp} (kmem s) m3" by (simp add: insert_commute)
  have "desc_pages s priv = [priv, it, cp]" using f by (simp add: desc_pages_def)
  moreover have "\<forall>p \<in> {priv, it, cp}. page_start (kmem s) p"
    using inhabitant_cases(4) [OF ok f(3)] inhabitant_cases(5) [OF ok f(2)] inhabitant_cases(6) [OF ok f(1)] by simp
  ultimately show thesis
    using k1(2) k2(2) k3(2) given unfolding same
    by (intro that [OF run _ refl]) (simp_all add: released_def s1_def s2_def same)
qed

lemma fclose_open_fd:
  assumes ok: "heap_ok s" and fd: "open_fd s fd item pos"
  obtains s' where "fclose fd s = Some (0, s')" "heap_ok s'" "close_frame fd s s'"
    "spare_pages (kmem s') = spare_pages (kmem s) + 4"
    "gives_back_all (set (fd_pages s fd)) (kmem s) (kmem s')"
    "\<forall>p \<in> set (fd_pages s fd). page_start (kmem s) p"
proof -
  obtain desc_p priv where d: "1 \<le> fd" "fd < 512" "filedescriptors s ! nat (fd - 1) = desc_p" "desc_p \<noteq> 0"
    "file_descs s desc_p = Some \<lparr>fd_index = fd, fd_fs = Some Fat16_fs, fd_private = priv, fd_disk = Some Root_disk\<rparr>"
    "open_file s priv item pos" "length (filedescriptors s) = 512"
    using fd by (auto simp: open_fd_def)
  obtain s1 it cp m where c: "fat16_close priv s = Some (0, s1)" "desc_pages s priv = [priv, it, cp]"
    and s1: "s1 = s\<lparr>kmem := m, dir_items := (dir_items s)(cp := None), fat_items := (fat_items s)(it := None),
       fat_descs := (fat_descs s)(priv := None)\<rparr>"
    and f1: "heap_ok s1" "spare_pages m = spare_pages (kmem s) + 3"
      "gives_back_all {priv, it, cp} (kmem s) m" "\<forall>p \<in> {priv, it, cp}. page_start (kmem s) p"
    by (rule fat16_close_open_file [OF ok d(6)]) blast
  let ?t = "s1\<lparr>filedescriptors := (filedescriptors s1)[nat (fd - 1) := 0]\<rparr>"
  have t: "heap_ok ?t" "file_descs ?t desc_p =
      Some \<lparr>fd_index = fd, fd_fs = Some Fat16_fs, fd_private = priv, fd_disk = Some Root_disk\<rparr>"
    using f1(1) d(5) by (simp_all add: s1)
  obtain m' where k: "kfree desc_p ?t = Some (?t\<lparr>file_descs := (file_descs ?t)(desc_p := None), kmem := m'\<rparr>)"
    "released desc_p ?t (?t\<lparr>file_descs := (file_descs ?t)(desc_p := None), kmem := m'\<rparr>)"
    by (rule kfree_file_desc [OF t])
  let ?s' = "?t\<lparr>file_descs := (file_descs ?t)(desc_p := None), kmem := m'\<rparr>"
  have pages: "fd_pages s fd = [desc_p, priv, it, cp]" using c(2) d(3,5) by (simp add: fd_pages_def)
  have "file_get_descriptor fd s = Some desc_p"
    using d(1-3,7) by (simp add: file_get_descriptor_def Let_def)
  moreover have "file_descs s1 desc_p =
      Some \<lparr>fd_index = fd, fd_fs = Some Fat16_fs, fd_private = priv, fd_disk = Some Root_disk\<rparr>"
    using d(5) by (simp add: s1)
  moreover have "length (filedescriptors s1) = 512" using d(7) by (simp add: s1)
  ultimately have run: "fclose fd s = Some (0, ?s')"
    using d(1,2,4,5) c(1) k(1) by (simp add: fclose_def vfs_close_def file_descriptor_free_def)
  have frame: "close_frame fd s ?s'" by (simp add: close_frame_def agree_on_def pages s1)
  have given: "gives_back_all (set (fd_pages s fd)) (kmem s) (kmem ?s')"
    using gives_back_all_trans [OF f1(3), of "{desc_p}" m'] released_all [OF k(2)]
    by (simp add: pages s1 insert_commute)
  have "page_start (kmem s) desc_p" using inhabitant_cases(2) [OF ok d(5)] by simp
  then show thesis
    using k(2) f1(2,4) by (intro that [OF run _ frame _ given]) (simp_all add: released_def pages s1)
qed

text \<open>Opening and closing again leaves the volume mounted, but not the heap as it was.\<close>

lemma mounted_closed:
  assumes "mounted img n s fp" and "close_frame fd s s'" and "dir_item (root_directory fp) \<notin> set (fd_pages s fd)"
  shows "mounted img n s' fp"
  by (rule mounted_cong [OF assms(1)])
    (use assms(2,3) close_frame_fields [OF assms(2)] in \<open>simp_all add: close_frame_def agree_on_def\<close>)

lemma can_open_grows:
  assumes "can_open img n s fp filename cs item i" and "mounted img n s' fp" and "heap_ok s'"
    and "grows (kmem s) (kmem s')" and "filedescriptors s' = filedescriptors s"
    and "2 * length (split_slash cs) + 9 \<le> spare_pages (kmem s')"
  shows "can_open img n s' fp filename cs item i"
proof -
  note c = assms(1) [unfolded can_open_def searchable_def]
  have keep: "settled (kmem s') (filename + int k) \<and> kmem s' (filename + int k) = kmem s (filename + int k)"
    if "k \<le> length cs + 3" for k
    using c growsD(2,3) [OF assms(4), of "filename + int k"] that by blast
  have "is_cstring (at (kmem s') filename) (0x30 # 0x3A # 0x2F # cs)"
    by (rule is_cstring_cong [of _ _ _ "kmem s"]) (use c keep in \<open>auto simp: eval_nat_numeral\<close>)
  then show ?thesis using c assms(2,3,5,6) keep by (simp add: can_open_def searchable_def first_free_def)
qed

lemma fclose_opened:
  assumes can: "can_open img n s fp filename cs item i" and opened: "opened img n s fp cs item i s1"
  obtains s2 where "fclose (int i + 1) s1 = Some (0, s2)"
    "mounted img n s2 fp" "heap_ok s2" "grows (kmem s) (kmem s2)" "filedescriptors s2 = filedescriptors s"
    "dev s2 = dev s1" "spare_pages (kmem s) = spare_pages (kmem s2) + 2 * length (split_slash cs) + 1"
proof -
  note c = can [unfolded can_open_def searchable_def] and f1 = opened [unfolded opened_def]
  obtain s2 where c2: "fclose (int i + 1) s1 = Some (0, s2)"
    and f2: "heap_ok s2" "close_frame (int i + 1) s1 s2"
      "spare_pages (kmem s2) = spare_pages (kmem s1) + 4"
      "gives_back_all (set (fd_pages s1 (int i + 1))) (kmem s1) (kmem s2)"
      "\<forall>p \<in> set (fd_pages s1 (int i + 1)). page_start (kmem s1) p"
    by (rule fclose_open_fd [of s1 "int i + 1" item 0]) (use f1 in blast)+
  have root: "dir_item (root_directory fp) \<notin> set (fd_pages s1 (int i + 1))"
    using mounted_root_owned [of img n s fp] c f1 by blast
  note fields = close_frame_fields [OF f2(2)]
  have "filedescriptors s2 = filedescriptors s" using fields f1 by simp
  moreover have "grows (kmem s) (kmem s2)"
    by (rule grows_gives_back_all [OF _ f2(4)]) (use f1 f2(5) in blast)+
  moreover have "mounted img n s2 fp" by (rule mounted_closed [OF _ f2(2) root]) (use f1 in blast)
  moreover have "spare_pages (kmem s) = spare_pages (kmem s2) + 2 * length (split_slash cs) + 1"
    using f1 f2(3) by simp
  ultimately show thesis using f2(1) fields by (intro that [OF c2]) simp_all
qed

section \<open>The bytes of a file\<close>

definition file_clusters :: "(int \<Rightarrow> byte) \<Rightarrow> fat_directory_item \<Rightarrow> nat \<Rightarrow> int list" where
  "file_clusters img item k = fat_chain img (image_volume img) (fat16_get_first_cluster item) k"

definition file_bytes :: "(int \<Rightarrow> byte) \<Rightarrow> fat_directory_item \<Rightarrow> nat \<Rightarrow> byte list" where
  "file_bytes img item k = chain_data img (image_volume img) (fat16_get_first_cluster item) k"

text \<open>The first \<open>k\<close> clusters of a file hold data and cover \<open>len\<close> bytes.\<close>

definition file_covers :: "(int \<Rightarrow> byte) \<Rightarrow> fat_directory_item \<Rightarrow> nat \<Rightarrow> int \<Rightarrow> bool" where
  "file_covers img item k len \<longleftrightarrow>
     (\<forall>x \<in> set (file_clusters img item k). data_cluster (image_volume img) x) \<and>
     len \<le> int k * bytes_per_cluster (image_volume img) \<and> len < 2147483648"

lemma fread_new_file:
  assumes "ata_laws io drv" and "idle_drive img (drv (dev s))" and vol: "mounted img n s fp"
    and "open_fd s fd item 0" and "0 < sz" and "0 < nmemb" and cover: "file_covers img item k (sz * nmemb)"
  obtains s' where "fread io out sz nmemb fd s = Some (0, s')"
    "read_bytes (kmem s') out (nat (sz * nmemb)) = take (nat (sz * nmemb)) (file_bytes img item k)"
    "\<And>a. a < out \<or> out + sz * nmemb \<le> a \<Longrightarrow> kmem s' a = kmem s a"
    "open_fd s' fd item 0" "io_frame s (s'\<lparr>kmem := kmem s\<rparr>)"
proof -
  note v = mounted_volume [OF vol]
  have fv: "fat_volume s fp" using vol by (simp add: mounted_def)
  have c: "\<forall>x \<in> set (fat_chain img fp (fat16_get_first_cluster item) k). data_cluster fp x"
    "0 + sz * nmemb \<le> int k * bytes_per_cluster fp" "0 + sz * nmemb < 2147483648"
    using cover by (simp_all add: file_covers_def file_clusters_def v)
  obtain s' where s': "fread io out sz nmemb fd s = Some (0, s')"
    "kmem s' = write_bytes (kmem s) out (take (nat (sz * nmemb)) (drop (nat 0)
      (chain_data img fp (fat16_get_first_cluster item) k)))" "open_fd s' fd item 0" "io_frame s (s'\<lparr>kmem := kmem s\<rparr>)"
    using sector_device.fread_data [OF ata_sector_device [OF assms(1)] fv assms(2,4) refl c(1) order_refl assms(5,6) c(2,3)]
    by metis
  have "length (take (nat (sz * nmemb)) (drop (nat 0) (chain_data img fp (fat16_get_first_cluster item) k))) = nat (sz * nmemb)"
    by (rule length_chain_slice) (use c assms(5,6) in simp_all)
  moreover have "0 \<le> sz * nmemb" using assms(5,6) by simp
  ultimately show thesis using s' by (intro that [of s']) (auto simp: file_bytes_def v write_bytes_out)
qed

lemma open_and_read:
  assumes "ata_laws io drv" and "idle_drive img (drv (dev s))"
    and "can_open img n s fp filename cs item i" and "mode_str 0 = 0x72"
    and "0 < sz" and "0 < nmemb" and "file_covers img item k (sz * nmemb)"
  obtains s1 s2 where "fopen io filename mode_str s = Some (int i + 1, s1)" "opened img n s fp cs item i s1"
    "fread io out sz nmemb (int i + 1) s1 = Some (0, s2)"
    "read_bytes (kmem s2) out (nat (sz * nmemb)) = take (nat (sz * nmemb)) (file_bytes img item k)"
    "\<forall>a. a < out \<or> out + sz * nmemb \<le> a \<longrightarrow> kmem s2 a = kmem s1 a"
    "open_fd s2 (int i + 1) item 0" "io_frame s1 (s2\<lparr>kmem := kmem s1\<rparr>)"
proof -
  obtain s1 where s1: "fopen io filename mode_str s = Some (int i + 1, s1)" "opened img n s fp cs item i s1"
    and dev: "idle_drive img (drv (dev s1))"
    by (rule fopen_ata [OF assms(1-3), of mode_str]) (use assms(4) in blast)+
  have f: "mounted img n s1 fp" "open_fd s1 (int i + 1) item 0" using s1(2) by (simp_all add: opened_def)
  show thesis
    by (rule fread_new_file [OF assms(1) dev f assms(5-7), of out]) (rule that [OF s1], blast+)
qed

text \<open>Opening and closing again and again.\<close>

fun open_close :: "'d ports \<Rightarrow> addr \<Rightarrow> (int \<Rightarrow> byte) \<Rightarrow> nat \<Rightarrow> 'd kstate \<Rightarrow> 'd kstate option" where
  "open_close io filename mode_str 0 s = Some s"
| "open_close io filename mode_str (Suc k) s =
     do { (fd, s) \<leftarrow> fopen io filename mode_str s;
          (res, s) \<leftarrow> fclose fd s;
          if fd = 0 \<or> res \<noteq> 0 then None else open_close io filename mode_str k s }"

lemma open_close_run:
  assumes ata: "ata_laws io drv" and "idle_drive img (drv (dev s))"
    and "can_open img n s fp filename cs item i" and mode: "mode_str 0 = 0x72"
    and "k * (2 * length (split_slash cs) + 1) + 8 \<le> spare_pages (kmem s)"
  shows "\<exists>s'. open_close io filename mode_str k s = Some s' \<and> mounted img n s' fp \<and> heap_ok s'
    \<and> filedescriptors s' = filedescriptors s
    \<and> spare_pages (kmem s) = spare_pages (kmem s') + k * (2 * length (split_slash cs) + 1)"
  using assms(2,3,5)
proof (induction k arbitrary: s)
  case 0
  then show ?case by (simp add: can_open_def searchable_def)
next
  case (Suc k)
  let ?w = "2 * length (split_slash cs) + 1"
  obtain s1 where s1: "fopen io filename mode_str s = Some (int i + 1, s1)" "opened img n s fp cs item i s1"
    "idle_drive img (drv (dev s1))"
    by (rule fopen_ata [OF ata Suc.prems(1,2), of mode_str]) (use mode in blast)+
  obtain s2 where s2: "fclose (int i + 1) s1 = Some (0, s2)"
    and f: "mounted img n s2 fp" "heap_ok s2" "grows (kmem s) (kmem s2)" "filedescriptors s2 = filedescriptors s"
      "dev s2 = dev s1" "spare_pages (kmem s) = spare_pages (kmem s2) + 2 * length (split_slash cs) + 1"
    by (rule fclose_opened [OF Suc.prems(2) s1(2)])
  show ?case
  proof (cases k)
    case 0
    then show ?thesis using s1(1) s2 f by simp
  next
    case (Suc j)
    have left: "k * ?w + 8 \<le> spare_pages (kmem s2)" using Suc.prems(3) f(6) by simp
    then have "2 * length (split_slash cs) + 9 \<le> spare_pages (kmem s2)" using Suc by simp
    then have "can_open img n s2 fp filename cs item i" by (rule can_open_grows [OF Suc.prems(2) f(1-4)])
    moreover have "idle_drive img (drv (dev s2))" using s1(3) f(5) by simp
    ultimately obtain s' where "open_close io filename mode_str k s2 = Some s'" "mounted img n s' fp" "heap_ok s'"
      "filedescriptors s' = filedescriptors s2"
      "spare_pages (kmem s2) = spare_pages (kmem s') + k * ?w"
      using Suc.IH [of s2] left by blast
    then show ?thesis using s1(1) s2 f by simp
  qed
qed

end
