(* ===== verification/Demo.thy ===== *)
theory Demo
  imports Closing
begin

text \<open>
  Two volumes on which the properties are applied: the small volume with its file in the root directory, and
  one with the tree of directories that the demonstrations of \<open>kernel.c\<close> expect.
\<close>

section \<open>States before mounting\<close>

text \<open>A path \<open>0:/...\<close> at address \<open>0x100000\<close>, an empty heap, and an image in the drive.\<close>

definition named_state :: "(int \<Rightarrow> byte) \<Rightarrow> byte list \<Rightarrow> ata kstate" where
  "named_state img cs = (bare_state img)
     \<lparr>kmem := write_bytes (\<lambda>_. 0) 0x100000 (0x30 # 0x3A # 0x2F # cs)\<rparr>"

lemma named_state_facts:
  "heap_ok (named_state img cs)" "idle_drive img (dev (named_state img cs))"
  "disk_id (root_disk (named_state img cs)) = 0" "sector_size (root_disk (named_state img cs)) = 512"
  "spare_pages (kmem (named_state img cs)) = 24576"
  "filedescriptors (named_state img cs) = replicate 512 0"
proof -
  let ?s = "named_state img cs"
  have same: "kmem ?s a = kmem (bare_state img) a" if "a < 57857" for a
    using that by (simp add: named_state_def write_bytes_def bare_state_facts)
  show "heap_ok ?s"
    using heap_ok_above(1) [OF bare_state_facts(1), of "kmem ?s" img] same by (simp add: named_state_def)
  have "spare_pages (kmem ?s) = spare_pages (kmem (bare_state img))"
    using above_table_frame(3) [of kernel_heap "kmem ?s" "kmem (bare_state img)"] same by simp
  then show "spare_pages (kmem ?s) = 24576" by (simp add: bare_state_facts free_pages_empty)
  show "filedescriptors ?s = replicate 512 0"
    by (simp add: named_state_def bare_state_def initial_state_def)
qed (use bare_state_facts in \<open>simp_all add: named_state_def\<close>)

lemma named_state_path:
  assumes "0 \<notin> set cs" and "length cs \<le> 253"
  shows "is_cstring (at (kmem (named_state img cs)) 0x100000) (0x30 # 0x3A # 0x2F # cs)"
proof -
  let ?bs = "0x30 # 0x3A # 0x2F # cs"
  have bytes: "at (kmem (named_state img cs)) 0x100000 (int i) = (if i < length ?bs then ?bs ! i else 0)" for i
    by (simp add: named_state_def at_def write_bytes_def)
  have "0 \<notin> set ?bs" using assms(1) by simp
  moreover have "at (kmem (named_state img cs)) 0x100000 (int (length ?bs)) = 0" using bytes [of "length ?bs"] by (simp only: less_irrefl if_False)
  ultimately show ?thesis
    unfolding is_cstring_def by (intro conjI allI impI) (simp_all only: bytes if_True not_False_eq_True)
qed

text \<open>Mounted, the path can be looked for, and with all the slots of the descriptor table free.\<close>

lemma demo_searchable:
  assumes img: "fat16_image img n" and cs: "0 \<notin> set cs" "length cs \<le> 253" and n: "int n \<le> root_entries img"
  obtains s fp where "fat16_resolve ata_ports (Some Root_disk) (named_state img cs) = Some (0, s)"
    "searchable img n s fp 0x100000 cs" "filedescriptors s = replicate 512 0" "idle_drive img (dev s)"
    "spare_pages (kmem s) = 24571"
proof -
  let ?s = "named_state img cs"
  have pages: "6 \<le> spare_pages (kmem ?s)" by (simp add: named_state_facts)
  obtain s fp where s: "fat16_resolve ata_ports (Some Root_disk) ?s = Some (0, s)"
    "mounted img n s fp" "heap_ok s" "idle_drive img (dev s)" "rest_same ?s s" "grows (kmem ?s) (kmem s)"
    "spare_pages (kmem ?s) = spare_pages (kmem s) + 5"
    using resolve_mounted [OF ata_ports_laws named_state_facts(2) img named_state_facts(1) pages
        named_state_facts(3,4)] by blast
  have settled: "settled (kmem ?s) (0x100000 + int k)" if "k \<le> length cs + 3" for k
    using that cs(2) by (simp add: settled_def)
  have keep: "settled (kmem s) (0x100000 + int k) \<and> kmem s (0x100000 + int k) = kmem ?s (0x100000 + int k)"
    if "k \<le> length cs + 3" for k
    using growsD(2,3) [OF s(6) settled [OF that]] by blast
  have "is_cstring (at (kmem s) 0x100000) (0x30 # 0x3A # 0x2F # cs)"
    by (rule is_cstring_cong [OF _ named_state_path [OF cs, of img]]) (use keep in \<open>auto simp: eval_nat_numeral\<close>)
  moreover have fds: "filedescriptors s = replicate 512 0" using s(5) by (simp add: rest_same_def named_state_facts)
  moreover have "2 * length (split_slash cs) + 9 \<le> spare_pages (kmem s)"
    using split_slash_length [of cs] cs(2) s(7) by (simp add: named_state_facts)
  ultimately have "searchable img n s fp 0x100000 cs"
    using s(2,3) n keep cs(2) by (simp add: searchable_def)
  then show thesis using fds s(1,4,7) by (intro that) (simp_all add: named_state_facts)
qed

lemma demo_mounts:
  assumes "fat16_image img n" and "0 \<notin> set cs" "length cs \<le> 253" and "int n \<le> root_entries img"
    and "file_at img n cs = Some item"
  obtains s fp where "fat16_resolve ata_ports (Some Root_disk) (named_state img cs) = Some (0, s)"
    "can_open img n s fp 0x100000 cs item 0" "idle_drive img (dev s)" "spare_pages (kmem s) = 24571"
  by (rule demo_searchable [OF assms(1-4)]) (use assms(5) that in \<open>auto simp: can_open_def first_free_def\<close>)

section \<open>A file of the root directory\<close>

definition hello :: "byte list" where
  "hello = [0x68, 0x65, 0x6C, 0x6C, 0x6F, 0x2E, 0x74, 0x78, 0x74]"

lemma demo_item_name: "dos_name demo_item = [0x48, 0x45, 0x4C, 0x4C, 0x4F, 0x2E, 0x54, 0x58, 0x54]"
proof -
  have "read_bytes demo_image 1024 32 =
      [0x48, 0x45, 0x4C, 0x4C, 0x4F, 0x20, 0x20, 0x20, 0x54, 0x58, 0x54, 0x20] @ replicate 14 0 @ [2, 0, 0x58, 2, 0, 0]"
    by (simp add: read_bytes_def upt_rec numeral_eq_Suc demo_image_def demo_bytes_def)
  then show ?thesis
    by (simp add: demo_item_def dos_name_def directory_item_of_def slice_def name_chars_def)
qed

lemma demo_item_plain: "\<not> subdir demo_item" "named hello demo_item"
proof -
  show "\<not> subdir demo_item" by (simp add: demo_item_def directory_item_of_def demo_image_def demo_bytes_def)
  show "named hello demo_item" by (simp add: named_def demo_item_name hello_def tolower_def)
qed

lemma demo_root: "root_sector demo_image = 2" "root_entries demo_image = 16"
  by (simp_all add: root_sector_def root_entries_def boot_header_def fat_h_of_def
      fat_header_of_def word16_at_def demo_image_def demo_bytes_def uint_le16)

lemma hello_file: "file_at demo_image 1 hello = Some demo_item"
proof -
  have "live_items demo_image 1024 1 = 1"
    by (simp add: live_items_def demo_image_def demo_bytes_def)
  moreover have "root_items demo_image ! 0 = demo_item"
    using root_items_nth [of 0 demo_image] by (simp add: demo_root demo_item_def)
  then have "take 1 (root_items demo_image) = [demo_item]"
    by (simp add: take_Suc_conv_app_nth demo_root)
  ultimately have "root_listing demo_image 1 = [demo_item]" by (simp add: root_listing_def demo_root)
  moreover have "split_slash hello = [hello]" by (rule split_slash_single) (simp add: hello_def)
  ultimately show ?thesis using demo_item_plain by (simp add: file_at_Some path_outcome_def)
qed

lemma hello_mounts:
  obtains s fp where "fat16_resolve ata_ports (Some Root_disk) (named_state demo_image hello) = Some (0, s)"
    "can_open demo_image 1 s fp 0x100000 hello demo_item 0" "idle_drive demo_image (dev s)"
    "spare_pages (kmem s) = 24571"
  by (rule demo_mounts [OF demo_fat16_image _ _ _ hello_file]) (simp_all add: hello_def demo_root)

section \<open>A tree of directories\<close>

text \<open>
  The image of \<open>/aaa/bbb/hello.txt\<close>: the root directory has a second entry, \<open>AAA\<close>, whose cluster 4 holds
  \<open>BBB\<close>, whose cluster 5 holds the entry of the file.  Both begin with the entries \<open>.\<close> and \<open>..\<close>.
\<close>

definition dir_entry :: "byte list \<Rightarrow> byte \<Rightarrow> byte list" where
  "dir_entry nm c = nm @ replicate (11 - length nm) 0x20 @ 0x10 # replicate 14 0 @ [c] @ replicate 5 0"

definition tree_image :: "int \<Rightarrow> byte" where
  "tree_image a =
     (if 1056 \<le> a \<and> a < 1088 then dir_entry [0x41, 0x41, 0x41] 4 ! nat (a - 1056)
      else if 2560 \<le> a \<and> a < 2656 then (dir_entry [0x2E] 4 @ dir_entry [0x2E, 0x2E] 0 @ dir_entry [0x42, 0x42, 0x42] 5) ! nat (a - 2560)
      else if 2656 \<le> a \<and> a < 3072 then 0
      else if 3072 \<le> a \<and> a < 3136 then (dir_entry [0x2E] 5 @ dir_entry [0x2E, 0x2E] 4) ! nat (a - 3072)
      else if 3136 \<le> a \<and> a < 3168 then demo_image (a - 2112)
      else if 3168 \<le> a \<and> a < 3584 then 0
      else demo_image a)"

definition tree_path :: "byte list" where
  "tree_path = [0x61, 0x61, 0x61, 0x2F, 0x62, 0x62, 0x62, 0x2F] @ hello"

abbreviation dir_item_of :: "byte list \<Rightarrow> byte \<Rightarrow> fat_directory_item" where
  "dir_item_of nm c \<equiv> directory_item_of (dir_entry nm c)"

lemma length_dir_entry [simp]: "length nm \<le> 11 \<Longrightarrow> length (dir_entry nm c) = 32"
  by (simp add: dir_entry_def)

lemma read_bytes_eq: "length bs = n \<Longrightarrow> (\<And>i. i < n \<Longrightarrow> img (a + int i) = bs ! i) \<Longrightarrow> read_bytes img a n = bs"
  by (simp add: read_bytes_def list_eq_iff_nth_eq)

lemma tree_entries:
  "read_bytes tree_image 1024 32 = read_bytes demo_image 1024 32"
  "read_bytes tree_image 1056 32 = dir_entry [0x41, 0x41, 0x41] 4"
  "read_bytes tree_image 2560 32 = dir_entry [0x2E] 4"
  "read_bytes tree_image 2592 32 = dir_entry [0x2E, 0x2E] 0"
  "read_bytes tree_image 2624 32 = dir_entry [0x42, 0x42, 0x42] 5"
  "read_bytes tree_image 3072 32 = dir_entry [0x2E] 5"
  "read_bytes tree_image 3104 32 = dir_entry [0x2E, 0x2E] 4"
  "read_bytes tree_image 3136 32 = read_bytes demo_image 1024 32"
  by (simp_all add: read_bytes_def [of _ 1024] read_bytes_def [of _ 3136] tree_image_def)
    (rule read_bytes_eq, simp, simp add: tree_image_def nth_append nat_add_distrib)+

lemma tree_header: "boot_header tree_image = boot_header demo_image"
proof -
  have "read_bytes tree_image 0 62 = read_bytes demo_image 0 62" by (simp add: read_bytes_def tree_image_def)
  then show ?thesis by (simp add: boot_header_def)
qed

lemma tree_root: "root_sector tree_image = 2" "root_entries tree_image = 16" "root_sectors tree_image = 1"
  by (simp_all add: root_sector_def root_sectors_def root_entries_def tree_header)
    (simp_all add: boot_header_def fat_h_of_def fat_header_of_def word16_at_def demo_image_def demo_bytes_def uint_le16)

lemma tree_fat16_image: "fat16_image tree_image 2"
  using demo_fat16_image
  by (simp add: fat16_image_def tree_root tree_header items_end_def All_less_Suc2 numeral_2_eq_2)
    (simp add: tree_image_def demo_image_def demo_bytes_def dir_entry_def)

lemma tree_volume:
  "bytes_per_cluster (image_volume tree_image) = 512" "sector_of (image_volume tree_image) c = c + 1"
  "data_cluster (image_volume tree_image) 2" "data_cluster (image_volume tree_image) 3"
  "data_cluster (image_volume tree_image) 4" "data_cluster (image_volume tree_image) 5"
  "fat_entry_of tree_image (image_volume tree_image) 2 = 3"
proof -
  have h: "sectors_per_cluster (primary_header (header (image_volume tree_image))) = 1"
    "reserved_sectors (primary_header (header (image_volume tree_image))) = 1"
    "ending_sector_pos (root_directory (image_volume tree_image)) = 3"
    by (simp_all add: image_volume_def tree_root tree_header)
      (simp_all add: boot_header_def fat_h_of_def fat_header_of_def word16_at_def demo_image_def demo_bytes_def le16_def)
  then show s: "sector_of (image_volume tree_image) c = c + 1" for c by (simp add: sector_of_def)
  show "bytes_per_cluster (image_volume tree_image) = 512" by (simp add: bytes_per_cluster_def h)
  then show "data_cluster (image_volume tree_image) 2" "data_cluster (image_volume tree_image) 3"
    "data_cluster (image_volume tree_image) 4" "data_cluster (image_volume tree_image) 5"
    by (simp_all add: data_cluster_def is_readable_cluster_def s)
  show "fat_entry_of tree_image (image_volume tree_image) 2 = 3"
    by (simp add: fat_entry_of_def Let_def fat16_get_first_fat_sector_def h tree_image_def demo_image_def demo_bytes_def uint_le16)
qed

lemma dir_entry_first_cluster:
  "fat16_get_first_cluster (dir_item_of [0x41, 0x41, 0x41] 4) = 4" "fat16_get_first_cluster (dir_item_of [0x42, 0x42, 0x42] 5) = 5"
  by (simp_all add: fat16_get_first_cluster_def dir_entry_def directory_item_of_def word16_at_def uint_le16 nth_append)

lemma dir_entry_names:
  "dos_name (dir_item_of [0x41, 0x41, 0x41] 4) = [0x41, 0x41, 0x41]" "dos_name (dir_item_of [0x42, 0x42, 0x42] 5) = [0x42, 0x42, 0x42]"
  "dos_name (dir_item_of [0x2E] c) = [0x2E]" "dos_name (dir_item_of [0x2E, 0x2E] c) = [0x2E, 0x2E]"
  by (simp_all add: dir_entry_def dos_name_def directory_item_of_def slice_def name_chars_def)

lemma dir_entry_subdir: "length nm \<le> 11 \<Longrightarrow> subdir (dir_item_of nm c)"
  by (simp add: dir_entry_def directory_item_of_def nth_append)

lemma tree_root_listing: "root_listing tree_image 2 = [demo_item, dir_item_of [0x41, 0x41, 0x41] 4]"
proof -
  have "tree_image 1024 \<noteq> 0xE5" "tree_image 1056 \<noteq> 0xE5"
    by (simp_all add: tree_image_def demo_image_def demo_bytes_def dir_entry_def)
  then have "live_items tree_image 1024 2 = 2" by (simp add: live_items_def upt_rec)
  moreover have "take 2 (root_items tree_image) = [root_items tree_image ! 0, root_items tree_image ! 1]"
    by (simp add: take_Suc_conv_app_nth tree_root numeral_2_eq_2)
  moreover have "root_items tree_image ! 0 = demo_item" "root_items tree_image ! 1 = dir_item_of [0x41, 0x41, 0x41] 4"
    using root_items_nth [of 0 tree_image] root_items_nth [of 1 tree_image]
    by (simp_all add: tree_root tree_entries demo_item_def)
  ultimately show ?thesis by (simp add: root_listing_def tree_root)
qed

text \<open>A directory of three entries in the cluster at \<open>pos\<close>, on a volume with one sector per cluster.\<close>

lemma three_entries:
  assumes pos: "dir_pos img item = pos" and size: "bytes_per_cluster (image_volume img) = 512"
    and cluster: "data_cluster (image_volume img) (fat16_get_first_cluster item)"
    and live: "img pos \<notin> {0, 0xE5}" "img (pos + 32) \<notin> {0, 0xE5}" "img (pos + 64) \<notin> {0, 0xE5}"
    and stop: "img (pos + 96) = 0"
  shows "dir_listing img item =
     Some (map directory_item_of [read_bytes img pos 32, read_bytes img (pos + 32) 32, read_bytes img (pos + 64) 32])"
proof -
  have "dir_entries img item = 3"
    using live stop by (simp add: dir_entries_def pos size upt_rec [of _ 16])
  moreover have "live_items img pos 3 = 3" using live by (simp add: live_items_def numeral_3_eq_3)
  moreover have "directory_items_of (read_bytes img pos 96) =
      map directory_item_of [read_bytes img pos 32, read_bytes img (pos + 32) 32, read_bytes img (pos + 64) 32]"
    by (simp add: directory_items_of_def numeral_3_eq_3 slice_read_bytes)
  ultimately show ?thesis using cluster by (simp add: dir_listing_def pos size Let_def)
qed

lemma tree_listings:
  "dir_listing tree_image (dir_item_of [0x41, 0x41, 0x41] 4) =
     Some [dir_item_of [0x2E] 4, dir_item_of [0x2E, 0x2E] 0, dir_item_of [0x42, 0x42, 0x42] 5]"
  "dir_listing tree_image (dir_item_of [0x42, 0x42, 0x42] 5) =
     Some [dir_item_of [0x2E] 5, dir_item_of [0x2E, 0x2E] 4, demo_item]"
proof -
  have "tree_image 2560 \<notin> {0, 0xE5}" "tree_image 2592 \<notin> {0, 0xE5}" "tree_image 2624 \<notin> {0, 0xE5}" "tree_image 2656 = 0"
    "tree_image 3072 \<notin> {0, 0xE5}" "tree_image 3104 \<notin> {0, 0xE5}" "tree_image 3136 \<notin> {0, 0xE5}" "tree_image 3168 = 0"
    by (simp_all add: tree_image_def dir_entry_def nth_append demo_image_def demo_bytes_def)
  then show "dir_listing tree_image (dir_item_of [0x41, 0x41, 0x41] 4) =
     Some [dir_item_of [0x2E] 4, dir_item_of [0x2E, 0x2E] 0, dir_item_of [0x42, 0x42, 0x42] 5]"
    and "dir_listing tree_image (dir_item_of [0x42, 0x42, 0x42] 5) =
     Some [dir_item_of [0x2E] 5, dir_item_of [0x2E, 0x2E] 4, demo_item]"
    using three_entries [of tree_image "dir_item_of [0x41, 0x41, 0x41] 4" 2560]
      three_entries [of tree_image "dir_item_of [0x42, 0x42, 0x42] 5" 3072]
    by (simp_all add: dir_pos_def tree_volume dir_entry_first_cluster tree_entries demo_item_def)
qed

lemma tree_file: "file_at tree_image 2 tree_path = Some demo_item"
proof -
  have split: "split_slash tree_path = [[0x61, 0x61, 0x61], [0x62, 0x62, 0x62], hello]"
    by (simp add: tree_path_def split_slash.simps [of "_ # _"] hello_def)
  have names: "\<not> named [0x61, 0x61, 0x61] demo_item" "named [0x61, 0x61, 0x61] (dir_item_of [0x41, 0x41, 0x41] 4)"
    "\<not> named [0x62, 0x62, 0x62] (dir_item_of [0x2E] 4)" "\<not> named [0x62, 0x62, 0x62] (dir_item_of [0x2E, 0x2E] 0)"
    "named [0x62, 0x62, 0x62] (dir_item_of [0x42, 0x42, 0x42] 5)"
    "\<not> named hello (dir_item_of [0x2E] 5)" "\<not> named hello (dir_item_of [0x2E, 0x2E] 4)" "named hello demo_item"
    by (simp_all add: named_def demo_item_name dir_entry_names hello_def tolower_def)
  have sub: "subdir (dir_item_of [0x41, 0x41, 0x41] 4)" "subdir (dir_item_of [0x42, 0x42, 0x42] 5)"
    by (rule dir_entry_subdir, simp)+
  show ?thesis
    using sub demo_item_plain(1) by (simp add: file_at_Some path_outcome_def split tree_root_listing names tree_listings)
qed

text \<open>Paths that lead to no file: to a name that is not there, through a file, and through a directory that is not there.\<close>

definition absent_path :: "byte list" where
  "absent_path = [0x61, 0x61, 0x61, 0x2F, 0x78]"

definition blocked_path :: "byte list" where
  "blocked_path = hello @ [0x2F, 0x78]"

definition crash_path :: "byte list" where
  "crash_path = [0x61, 0x61, 0x61, 0x2F, 0x78, 0x2F, 0x79]"

lemma tree_splits:
  "split_slash absent_path = [[0x61, 0x61, 0x61], [0x78]]" "split_slash blocked_path = [hello, [0x78]]"
  "split_slash crash_path = [[0x61, 0x61, 0x61], [0x78], [0x79]]"
  by (simp_all add: absent_path_def blocked_path_def crash_path_def split_slash.simps [of "_ # _"] hello_def)

lemma tree_outcomes:
  "path_outcome tree_image 2 (split_slash absent_path) = Some Absent"
  "path_outcome tree_image 2 (split_slash blocked_path) = Some Blocked"
  "path_outcome tree_image 2 (split_slash crash_path) = Some Crash"
proof -
  have names: "\<not> named [0x61, 0x61, 0x61] demo_item" "named [0x61, 0x61, 0x61] (dir_item_of [0x41, 0x41, 0x41] 4)"
    "\<not> named [0x78] (dir_item_of [0x2E] 4)" "\<not> named [0x78] (dir_item_of [0x2E, 0x2E] 0)"
    "\<not> named [0x78] (dir_item_of [0x42, 0x42, 0x42] 5)" "named hello demo_item"
    by (simp_all add: named_def demo_item_name dir_entry_names hello_def tolower_def)
  have sub: "subdir (dir_item_of [0x41, 0x41, 0x41] 4)"
    by (rule dir_entry_subdir, simp)
  show "path_outcome tree_image 2 (split_slash absent_path) = Some Absent"
    "path_outcome tree_image 2 (split_slash blocked_path) = Some Blocked"
    "path_outcome tree_image 2 (split_slash crash_path) = Some Crash"
    using sub demo_item_plain(1)
    by (simp_all add: path_outcome_def tree_splits tree_root_listing names tree_listings)
qed

lemma tree_searchable:
  assumes "cs \<in> {absent_path, blocked_path, crash_path}"
  obtains s fp where "fat16_resolve ata_ports (Some Root_disk) (named_state tree_image cs) = Some (0, s)"
    "searchable tree_image 2 s fp 0x100000 cs" "idle_drive tree_image (dev s)" "spare_pages (kmem s) = 24571"
  by (rule demo_searchable [OF tree_fat16_image, of cs])
    (use assms that in \<open>auto simp: absent_path_def blocked_path_def crash_path_def hello_def tree_root\<close>)

lemma tree_covers: "file_covers tree_image demo_item 2 600"
  by (simp add: file_covers_def file_clusters_def demo_open_facts numeral_2_eq_2 tree_volume)

lemma tree_mounts:
  obtains s fp where "fat16_resolve ata_ports (Some Root_disk) (named_state tree_image tree_path) = Some (0, s)"
    "can_open tree_image 2 s fp 0x100000 tree_path demo_item 0" "idle_drive tree_image (dev s)"
    "spare_pages (kmem s) = 24571"
  by (rule demo_mounts [OF tree_fat16_image _ _ _ tree_file]) (simp_all add: tree_path_def hello_def tree_root)

end
