(* ===== verification/Open_Files.thy ===== *)
theory Open_Files
  imports Demo
begin

text \<open>
  The properties of opening and closing files, which span the path parser, FAT16, the file layer
  and the heap.
\<close>

section \<open>Finding and opening\<close>

text \<open>C12: opening by name, in any directory.  On a mounted volume, for a path \<open>0:/...\<close> that leads to a regular
file through subdirectories of one cluster each, \<open>fopen\<close> for reading returns the number of the first free
slot plus one.  That number is then an open descriptor of the file at position 0, the volume is still
mounted, the drive idle and the heap sound; the call has cost five pages and two for each name of the path, which
shows that every directory on the way has been released again.\<close>

theorem fopen_opens_file:
  assumes "ata_laws io drv" and "idle_drive img (drv (dev s))"
    and "can_open img n s fp filename cs item i" and "mode_str 0 = 0x72"
  shows "\<exists>s'. fopen io filename mode_str s = Some (int i + 1, s') \<and> open_fd s' (int i + 1) item 0
    \<and> mounted img n s' fp \<and> heap_ok s' \<and> grows (kmem s) (kmem s') \<and> idle_drive img (drv (dev s'))
    \<and> (filedescriptors s')[i := 0] = filedescriptors s
    \<and> spare_pages (kmem s) = spare_pages (kmem s') + 2 * length (split_slash cs) + 5"
  by (rule fopen_ata [OF assms(1-3), of mode_str]) (use assms(4) in \<open>auto simp: opened_def\<close>)

theorem fopen_opens_file_witness:
  "\<exists>s s'. fat16_resolve ata_ports (Some Root_disk) (named_state tree_image tree_path) = Some (0, s)
    \<and> fopen ata_ports 0x100000 (literal [0x72]) s = Some (1, s') \<and> open_fd s' 1 demo_item 0
    \<and> spare_pages (kmem s') = 24560"
proof (rule tree_mounts)
  fix s fp
  assume s: "fat16_resolve ata_ports (Some Root_disk) (named_state tree_image tree_path) = Some (0, s)"
    "can_open tree_image 2 s fp 0x100000 tree_path demo_item 0" "idle_drive tree_image (dev s)"
    "spare_pages (kmem s) = 24571"
  have "length (split_slash tree_path) = 3" by (simp add: tree_path_def split_slash.simps [of "_ # _"] hello_def)
  then show ?thesis
    using s(1,4) fopen_opens_file [OF ata_ports_laws _ s(2), of "literal [0x72]"] s(3) by (auto simp: literal_def)
qed

text \<open>A file of the root directory is opened without any access to the disk.\<close>

theorem fopen_opens_root_file:
  assumes "can_open img n s fp filename cs item i" and "mode_str 0 = 0x72" and "0x2F \<notin> set cs"
  shows "\<exists>s'. fopen io filename mode_str s = Some (int i + 1, s') \<and> open_fd s' (int i + 1) item 0
    \<and> mounted img n s' fp \<and> heap_ok s' \<and> grows (kmem s) (kmem s') \<and> dev s' = dev s
    \<and> spare_pages (kmem s) = spare_pages (kmem s') + 7"
  by (rule fopen_root_file [OF assms(1,3), of mode_str io])
    (use assms(2,3) in \<open>auto simp: opened_def split_slash_single\<close>)

theorem fopen_opens_root_file_witness:
  "\<exists>s s'. fat16_resolve ata_ports (Some Root_disk) (named_state demo_image hello) = Some (0, s)
    \<and> fopen ata_ports 0x100000 (literal [0x72]) s = Some (1, s') \<and> open_fd s' 1 demo_item 0
    \<and> spare_pages (kmem s') = 24564"
proof (rule hello_mounts)
  fix s fp
  assume s: "fat16_resolve ata_ports (Some Root_disk) (named_state demo_image hello) = Some (0, s)"
    "can_open demo_image 1 s fp 0x100000 hello demo_item 0" "spare_pages (kmem s) = 24571"
  show ?thesis
    using s(1,3) fopen_opens_root_file [OF s(2), of "literal [0x72]" ata_ports] by (auto simp: literal_def hello_def)
qed

text \<open>C11: what \<open>fat16_get_directory_entry\<close> makes of a path, on every branch: it agrees with \<open>path_outcome\<close>, which
looks the names up in the directories of the image.  A file or directory that is found comes as an object in pages
that were free, a name that is missing gives a null pointer, without any page lost if every directory is
released again, a file in the place of a directory a null pointer with its object lost, and a name that is missing
before the last one, below the root directory, makes the code follow the null pointer.  What was on the
heap before is as it was.\<close>

theorem fat16_get_directory_entry_outcome:
  assumes "ata_laws io drv" and "idle_drive img (drv (dev s))" and "mounted img n s fp" and "heap_ok s"
    and "int n \<le> root_entries img" and "6 \<le> spare_pages (kmem s)"
    and "path_list s p nodes nms" and "path_outcome img n nms = Some out"
  shows "searched img (\<lambda>d. idle_drive img (drv d)) s (spare_pages (kmem s)) out
    (fat16_get_directory_entry io (Some Root_disk) p s)"
  by (rule sector_device.directory_entry_searched [OF ata_sector_device [OF assms(1)] assms(3) _ assms(4,6,5,7,8)])
    (rule assms(2))

theorem fat16_get_directory_entry_outcome_witness:
  "\<exists>s p nodes it s'. path_list s p nodes (split_slash tree_path)
    \<and> fat16_get_directory_entry ata_ports (Some Root_disk) p s = Some (it, s') \<and> file_object s' it demo_item
    \<and> spare_pages (kmem s) = spare_pages (kmem s') + 2"
proof (rule tree_mounts)
  fix s0 fp
  assume s0: "can_open tree_image 2 s0 fp 0x100000 tree_path demo_item 0" "idle_drive tree_image (dev s0)"
  have ready: "searchable tree_image 2 s0 fp 0x100000 tree_path" using s0(1) by (simp add: can_open_def)
  obtain s p nodes where s: "mounted tree_image 2 s fp" "heap_ok s" "path_list s p nodes (split_slash tree_path)"
    "dev s = dev s0" "filedescriptors s = filedescriptors s0" "grows (kmem s0) (kmem s)"
    "spare_pages (kmem s0) = spare_pages (kmem s) + 2 * length (split_slash tree_path) + 1"
    by (rule fopen_parsed [OF ready, of "literal [0x72]"]) (simp_all add: literal_def)
  have dev: "idle_drive tree_image (id (dev s))" using s0(2) s(4) by simp
  have found: "path_outcome tree_image 2 (split_slash tree_path) = Some (Found demo_item)" "\<not> subdir demo_item"
    using tree_file by (simp_all add: file_at_Some)
  have free: "6 \<le> spare_pages (kmem s)" using ready s(7) by (simp add: searchable_def)
  show ?thesis
    using fat16_get_directory_entry_outcome [OF ata_ports_laws _ s(1,2) _ free s(3) found(1)] dev found(2) s(3)
    by (auto simp: searched_def item_object_def tree_root)
qed

text \<open>C16: a file that is not found.  \<open>fopen\<close> returns 0 and leaves volume, table and heap in order, but
the pages of the path, that of the descriptor, and those of a file that was used as a directory are lost.\<close>

theorem fopen_not_found:
  assumes "ata_laws io drv" and "idle_drive img (drv (dev s))"
    and "searchable img n s fp filename cs" and "mode_str 0 = 0x72"
    and "path_outcome img n (split_slash cs) = Some out" and "out \<in> {Absent, Blocked}"
  shows "\<exists>s'. fopen io filename mode_str s = Some (0, s') \<and> mounted img n s' fp \<and> heap_ok s'
    \<and> grows (kmem s) (kmem s') \<and> filedescriptors s' = filedescriptors s \<and> idle_drive img (drv (dev s'))
    \<and> spare_pages (kmem s) =
        spare_pages (kmem s') + 2 * length (split_slash cs) + (if out = Absent then 2 else 4)"
  by (rule fopen_fails_ata [OF assms(1-3) _ _ assms(5), of mode_str]) (use assms(4,6) in blast)+

theorem fopen_not_found_witness:
  "\<exists>s s' t t'. fat16_resolve ata_ports (Some Root_disk) (named_state tree_image absent_path) = Some (0, s)
    \<and> fopen ata_ports 0x100000 (literal [0x72]) s = Some (0, s') \<and> spare_pages (kmem s') = 24565
    \<and> fat16_resolve ata_ports (Some Root_disk) (named_state tree_image blocked_path) = Some (0, t)
    \<and> fopen ata_ports 0x100000 (literal [0x72]) t = Some (0, t') \<and> spare_pages (kmem t') = 24563"
proof (rule tree_searchable [of absent_path], simp, rule tree_searchable [of blocked_path], simp)
  fix s fp t fp'
  assume s: "fat16_resolve ata_ports (Some Root_disk) (named_state tree_image absent_path) = Some (0, s)"
    "searchable tree_image 2 s fp 0x100000 absent_path" "idle_drive tree_image (dev s)" "spare_pages (kmem s) = 24571"
    and t: "fat16_resolve ata_ports (Some Root_disk) (named_state tree_image blocked_path) = Some (0, t)"
    "searchable tree_image 2 t fp' 0x100000 blocked_path" "idle_drive tree_image (dev t)" "spare_pages (kmem t) = 24571"
  show ?thesis
    using s(1,4) t(1,4) fopen_not_found [OF ata_ports_laws _ s(2) _ tree_outcomes(1), of "literal [0x72]"] s(3)
      fopen_not_found [OF ata_ports_laws _ t(2) _ tree_outcomes(2), of "literal [0x72]"] t(3)
    by (auto simp: literal_def tree_splits)
qed

text \<open>C15: a directory that is not there, below the root directory and before the last name, crashes \<open>fopen\<close>: the
null pointer that stands for it is followed.\<close>

theorem fopen_missing_directory_crashes:
  assumes "ata_laws io drv" and "idle_drive img (drv (dev s))"
    and "searchable img n s fp filename cs" and "mode_str 0 = 0x72"
    and "path_outcome img n (split_slash cs) = Some Crash"
  shows "fopen io filename mode_str s = None"
proof (rule fopen_crashes [OF assms(3), of mode_str io "\<lambda>d. idle_drive img (drv d)"])
  fix s3 nd nodes
  assume s3: "mounted img n s3 fp" "heap_ok s3" "path_list s3 nd nodes (split_slash cs)"
    "8 \<le> spare_pages (kmem s3)" "dev s3 = dev s"
  have "idle_drive img (drv (dev s3))" using assms(2) s3(5) by simp
  then show "opens io nd Crash (\<lambda>d. idle_drive img (drv d)) s3"
    by (rule opens_path [OF assms(1) _ s3(1-4) _ assms(5)]) (use assms(3) in \<open>auto simp: searchable_def\<close>)
qed (rule assms(4))

theorem fopen_missing_directory_crashes_witness:
  "\<exists>s. fat16_resolve ata_ports (Some Root_disk) (named_state tree_image crash_path) = Some (0, s)
    \<and> fopen ata_ports 0x100000 (literal [0x72]) s = None"
proof (rule tree_searchable [of crash_path], simp)
  fix s fp
  assume s: "fat16_resolve ata_ports (Some Root_disk) (named_state tree_image crash_path) = Some (0, s)"
    "searchable tree_image 2 s fp 0x100000 crash_path" "idle_drive tree_image (dev s)"
  show ?thesis
    using s(1,3) fopen_missing_directory_crashes [OF ata_ports_laws _ s(2) _ tree_outcomes(3), of "literal [0x72]"]
    by (auto simp: literal_def)
qed

section \<open>Opening and closing again\<close>

text \<open>C17: each file that is opened and closed again costs pages of the kernel heap for ever:
those of the parsed path (its root, and a part and a name for each of its names), which nothing frees.  After
\<open>k\<close> rounds with a path of \<open>w\<close> names \<open>k (2 w + 1)\<close> pages are gone, and nothing else has changed in the table of
descriptors or the volume.\<close>

theorem open_close_leaks:
  assumes "ata_laws io drv" and "idle_drive img (drv (dev s))"
    and "can_open img n s fp filename cs item i" and "mode_str 0 = 0x72"
    and "k * (2 * length (split_slash cs) + 1) + 8 \<le> spare_pages (kmem s)"
  shows "\<exists>s'. open_close io filename mode_str k s = Some s' \<and> mounted img n s' fp \<and> heap_ok s'
    \<and> filedescriptors s' = filedescriptors s
    \<and> spare_pages (kmem s) = spare_pages (kmem s') + k * (2 * length (split_slash cs) + 1)"
  by (rule open_close_run [OF assms(1-3) _ assms(5)]) (rule assms(4))

theorem open_close_leaks_witness:
  "\<exists>s s'. fat16_resolve ata_ports (Some Root_disk) (named_state demo_image hello) = Some (0, s)
    \<and> open_close ata_ports 0x100000 (literal [0x72]) 8187 s = Some s' \<and> spare_pages (kmem s') = 10"
proof (rule hello_mounts)
  fix s fp
  assume s: "fat16_resolve ata_ports (Some Root_disk) (named_state demo_image hello) = Some (0, s)"
    "can_open demo_image 1 s fp 0x100000 hello demo_item 0" "idle_drive demo_image (dev s)"
    "spare_pages (kmem s) = 24571"
  have "split_slash hello = [hello]" by (rule split_slash_single) (simp add: hello_def)
  then show ?thesis
    using s(1,4) open_close_leaks [OF ata_ports_laws _ s(2), of "literal [0x72]" 8187] s(3) by (auto simp: literal_def)
qed

text \<open>C28: a deleted entry hides the last file of the root directory.  The count of items leaves deleted
entries out, but the search indexes the array with them in it: with a deleted entry among the \<open>n\<close>
items, the one before the end mark is not looked at, and a name that only it has is not found.\<close>

theorem deleted_entry_hides_last:
  assumes "mounted img n s fp" and "int n \<le> root_entries img"
    and "i < n" and "img (512 * root_sector img + 32 * int i) = 0xE5"
    and "is_cstring (at (kmem s) path) cs" and "\<forall>j < n - 1. \<not> named cs (root_items img ! j)"
  shows "fat16_get_item_in_directory io (Some Root_disk) (root_directory fp) path s = Some (0, s)"
proof -
  let ?d = "root_directory fp" and ?live = "live_items img (512 * root_sector img) n"
  have d: "dir_items s (dir_item ?d) = Some (root_items img)" "dir_total ?d = ?live"
    using assms(1) by (simp_all add: mounted_def)
  have "length (filter (\<lambda>i. img (512 * root_sector img + 32 * int i) \<noteq> 0xE5) [0..<n]) < length [0..<n]"
    by (rule length_filter_less [of i]) (use assms(3,4) in simp_all)
  then have live: "nat ?live \<le> n - 1" by (simp add: live_items_def)
  then have total: "dir_total ?d \<le> int (length (root_items img))" using assms(2,3) d(2) by simp
  have "item \<notin> set (take (nat ?live) (root_items img)) \<or> \<not> named cs item" for item
    using assms(6) live by (auto simp: in_set_conv_nth)
  then have "find (named cs) (take (nat ?live) (root_items img)) = None" by (auto simp: find_None_iff)
  then show ?thesis
    using search_directory_find [OF d(1) root_items_ok total assms(5), of 0 io "Some Root_disk"] d(2)
    by (simp add: fat16_get_item_in_directory_def)
qed

text \<open>The demonstration image with a deleted entry before that of its file.\<close>

definition hidden_image :: "int \<Rightarrow> byte" where
  "hidden_image a = (if a = 1024 then 0xE5 else if 1056 \<le> a \<and> a < 1088 then demo_image (a - 32) else demo_image a)"

definition hidden_private :: fat_private_t where
  "hidden_private = \<lparr>header = boot_header hidden_image,
      root_directory = \<lparr>dir_item = 0x1004000, dir_total = live_items hidden_image 1024 2, sector_pos = 2, ending_sector_pos = 3\<rparr>,
      cluster_read_stream = 0x1001000, fat_read_stream = 0x1002000, directory_stream = 0x1003000\<rparr>"

definition hidden_state :: "ata kstate" where
  "hidden_state = demo_state
     \<lparr>kmem := write_bytes (\<lambda>_. 0) 0x100000 hello, fat_privates := [0x1000000 \<mapsto> hidden_private],
      dir_items := [0x1004000 \<mapsto> root_items hidden_image]\<rparr>"

lemma hidden_header: "boot_header hidden_image = boot_header demo_image"
proof -
  have "read_bytes hidden_image 0 62 = read_bytes demo_image 0 62" by (simp add: read_bytes_def hidden_image_def)
  then show ?thesis by (simp add: boot_header_def)
qed

theorem deleted_entry_hides_last_witness:
  "named hello (root_items hidden_image ! 1)
    \<and> fat16_get_item_in_directory ata_ports (Some Root_disk) (root_directory hidden_private) 0x100000 hidden_state
      = Some (0, hidden_state)"
proof -
  have r: "root_sector hidden_image = 2" "root_entries hidden_image = 16" "root_sectors hidden_image = 1"
    by (simp_all add: root_sector_def root_sectors_def root_entries_def hidden_header)
      (simp_all add: boot_header_def fat_h_of_def fat_header_of_def word16_at_def demo_image_def demo_bytes_def uint_le16)
  have mounted: "mounted hidden_image 2 hidden_state hidden_private"
    using demo_volume(1) by (simp add: mounted_def hidden_state_def hidden_private_def r fat_volume_def
      private_of_def on_root_def demo_state_def hidden_header)
  have str: "is_cstring (at (kmem hidden_state) 0x100000) hello"
    by (auto simp: hidden_state_def is_cstring_def at_def write_bytes_def hello_def)
  have "read_bytes hidden_image 1056 32 = read_bytes demo_image 1024 32"
    by (simp add: read_bytes_def hidden_image_def)
  then have "root_items hidden_image ! 1 = demo_item"
    using root_items_nth [of 1 hidden_image] by (simp add: r demo_item_def)
  then have second: "named hello (root_items hidden_image ! 1)"
    by (simp add: named_def demo_item_name hello_def tolower_def)
  have "read_bytes hidden_image 1024 32 = 0xE5 # tl (read_bytes demo_image 1024 32)"
    by (simp add: read_bytes_def hidden_image_def upt_rec numeral_eq_Suc)
  then have "dos_name (root_items hidden_image ! 0) = 0xE5 # tl (dos_name (root_items hidden_image ! 0))"
    using root_items_nth [of 0 hidden_image]
    by (simp add: r dos_name_def directory_item_of_def slice_def name_chars_def Let_def)
  then obtain xs where "dos_name (root_items hidden_image ! 0) = 0xE5 # xs" by blast
  then have "\<not> named hello (root_items hidden_image ! 0)" by (simp add: named_def hello_def tolower_def)
  then show ?thesis
    using deleted_entry_hides_last [OF mounted _ _ _ str, of 0 ata_ports] second
    by (simp add: r hidden_image_def)
qed

end
