(* ===== verification/File_Table.thy ===== *)
theory File_Table
  imports Demo
begin

text \<open>
  The file interface as its callers see it: a table from descriptor numbers to files and positions, over the
  image of the disk.  \<open>table_call\<close> says what each call returns and makes of the table; the calls of
  \<open>file.c\<close> implement it, and no sequence of \<open>safe_call\<close>s gets stuck.
\<close>

section \<open>Calls\<close>

datatype file_op = Open addr | Close int | Seek int int int | Read addr int int int | Stat int

datatype answer = Result int | Bytes "byte list" | Status file_stat_t

text \<open>The calls of \<open>file.c\<close>; what a successful \<open>fread\<close> stored counts as its answer.\<close>

fun file_call :: "'d ports \<Rightarrow> 'd kstate \<Rightarrow> file_op \<Rightarrow> (answer \<times> 'd kstate) option" where
  "file_call io s (Open filename) =
     do { (r, s) \<leftarrow> fopen io filename (literal [0x72]) s; Some (Result r, s) }"
| "file_call io s (Close fd) = do { (r, s) \<leftarrow> fclose fd s; Some (Result r, s) }"
| "file_call io s (Seek fd offset whence) = do { (r, s) \<leftarrow> fseek fd offset whence s; Some (Result r, s) }"
| "file_call io s (Read out sz nmemb fd) =
     do { (r, s) \<leftarrow> fread io out sz nmemb fd s;
          Some (if r = 0 then Bytes (read_bytes (kmem s) out (nat (sz * nmemb))) else Result r, s) }"
| "file_call io s (Stat fd) =
     do { (r, st) \<leftarrow> fstat fd \<lparr>stat_flags = 0, stat_filesize = 0\<rparr> s;
          Some (if r = 0 then Status st else Result r, s) }"

section \<open>The abstract table\<close>

type_synonym table = "int \<Rightarrow> (fat_directory_item \<times> int) option"

text \<open>The clusters that hold the first \<open>x\<close> bytes of a file, and \<open>len\<close> bytes of it from \<open>pos\<close> on.\<close>

definition clusters_for :: "(int \<Rightarrow> byte) \<Rightarrow> int \<Rightarrow> nat" where
  "clusters_for img x = (let b = bytes_per_cluster (image_volume img) in nat ((x + b - 1) div b))"

definition file_slice :: "(int \<Rightarrow> byte) \<Rightarrow> fat_directory_item \<Rightarrow> int \<Rightarrow> int \<Rightarrow> byte list" where
  "file_slice img item pos len =
     take (nat len) (drop (nat pos) (file_bytes img item (clusters_for img (pos + len))))"

text \<open>
  A buffer behind the heap's table, outside the heap and apart from the names of files \<open>names\<close>.
\<close>

definition free_buffer :: "(addr \<times> byte list) list \<Rightarrow> addr \<Rightarrow> int \<Rightarrow> bool" where
  "free_buffer names out len \<longleftrightarrow>
     (57857 \<le> out \<and> out + len \<le> 16777216 \<or> 121634816 \<le> out \<and> out + len \<le> 4294967296) \<and>
     list_all (\<lambda>(a, cs). out + len \<le> a \<or> a + int (length cs) + 4 \<le> out) names"

definition new_pos :: "int \<Rightarrow> int \<Rightarrow> int \<Rightarrow> int \<Rightarrow> int option" where
  "new_pos len pos offset whence =
     (if u32 offset > len then None
      else if whence = SEEK_SET then Some (u32 offset)
      else if whence = SEEK_CUR then Some (u32 (pos + offset))
      else None)"

text \<open>No result is promised to a call outside the contract: descriptor 0, and a full table, the crash on a missing directory and buffers
  where they do not belong.\<close>

fun table_call :: "(int \<Rightarrow> byte) \<Rightarrow> nat \<Rightarrow> (addr \<times> byte list) list \<Rightarrow> table \<Rightarrow> file_op \<Rightarrow> (answer \<times> table) option" where
  "table_call img n names tbl (Open filename) =
     do { cs \<leftarrow> map_of names filename;
          out \<leftarrow> path_outcome img n (split_slash cs);
          case out of
            Found item \<Rightarrow>
              if subdir item then None
              else do {
                i \<leftarrow> find (\<lambda>i. tbl (int i + 1) = None) [0..<511];
                Some (Result (int i + 1), tbl(int i + 1 \<mapsto> (item, 0))) }
          | Crash \<Rightarrow> None
          | _ \<Rightarrow> Some (Result 0, tbl) }"
| "table_call img n names tbl (Close fd) =
     (if fd = 0 then None
      else case tbl fd of None \<Rightarrow> Some (Result (- EIO), tbl) | Some _ \<Rightarrow> Some (Result 0, tbl(fd := None)))"
| "table_call img n names tbl (Seek fd offset whence) =
     (if fd = 0 then None
      else case tbl fd of
        None \<Rightarrow> Some (Result (- EIO), tbl)
      | Some (item, pos) \<Rightarrow>
          (case new_pos (uint (filesize item)) pos offset whence of
             None \<Rightarrow> Some (Result (- EIO), tbl)
           | Some pos' \<Rightarrow> Some (Result 0, tbl(fd \<mapsto> (item, pos')))))"
| "table_call img n names tbl (Read out sz nmemb fd) =
     (if sz = 0 \<or> nmemb = 0 \<or> fd < 1 then Some (Result (- EINVARG), tbl)
      else case tbl fd of
        None \<Rightarrow> Some (Result (- EIO), tbl)
      | Some (item, pos) \<Rightarrow>
          if 0 < sz \<and> 0 < nmemb \<and> free_buffer names out (sz * nmemb) \<and>
             file_covers img item (clusters_for img (pos + sz * nmemb)) (pos + sz * nmemb)
          then Some (Bytes (file_slice img item pos (sz * nmemb)), tbl) else None)"
| "table_call img n names tbl (Stat fd) =
     (if fd = 0 then None
      else case tbl fd of
        None \<Rightarrow> Some (Result (- EIO), tbl)
      | Some (item, pos) \<Rightarrow>
          Some (Status \<lparr>stat_flags = FILE_STAT_READ_ONLY, stat_filesize = uint (filesize item)\<rparr>, tbl))"

text \<open>The pages that a call may cost.\<close>

fun call_cost :: "(addr \<times> byte list) list \<Rightarrow> file_op \<Rightarrow> nat" where
  "call_cost names (Open filename) =
     (case map_of names filename of None \<Rightarrow> 0 | Some cs \<Rightarrow> 2 * length (split_slash cs) + 5)"
| "call_cost names _ = 0"

section \<open>The relation\<close>

text \<open>The numbers of the table denote live objects, each on pages of its own and apart from
  the root directory at \<open>root\<close>; all other slots are free.\<close>

definition fd_table_ok :: "addr \<Rightarrow> 'd kstate \<Rightarrow> table \<Rightarrow> bool" where
  "fd_table_ok root s tbl \<longleftrightarrow>
     length (filedescriptors s) = 512 \<and> filedescriptors s ! 511 = 0 \<and>
     (\<forall>i < 511. tbl (int i + 1) = None \<longrightarrow> filedescriptors s ! i = 0) \<and>
     (\<forall>fd item pos. tbl fd = Some (item, pos) \<longrightarrow>
        open_fd s fd item pos \<and> 0 \<le> pos \<and> root \<notin> set (fd_pages s fd)) \<and>
     (\<forall>fd fd'. fd \<noteq> fd' \<longrightarrow> tbl fd \<noteq> None \<longrightarrow> tbl fd' \<noteq> None \<longrightarrow> set (fd_pages s fd) \<inter> set (fd_pages s fd') = {})"

definition outside_heap :: "addr \<Rightarrow> bool" where
  "outside_heap a \<longleftrightarrow> a < 32256 \<or> 57856 \<le> a \<and> a < 16777216 \<or> 121634816 \<le> a"

lemma outside_heap_settled: "outside_heap a \<Longrightarrow> settled m a"
  by (auto simp: outside_heap_def settled_def)

definition names_placed :: "(addr \<times> byte list) list \<Rightarrow> mem \<Rightarrow> bool" where
  "names_placed names m \<longleftrightarrow>
     (\<forall>(a, cs) \<in> set names. is_cstring (at m a) (0x30 # 0x3A # 0x2F # cs) \<and> length cs \<le> 253 \<and>
        (\<forall>k \<le> length cs + 3. outside_heap (a + int k)))"

definition volume_ok :: "'d ports \<Rightarrow> ('d \<Rightarrow> ata) \<Rightarrow> (int \<Rightarrow> byte) \<Rightarrow> nat \<Rightarrow> fat_private_t \<Rightarrow> (addr \<times> byte list) list \<Rightarrow> nat \<Rightarrow> 'd kstate \<Rightarrow> bool" where
  "volume_ok io drv img n fp names k s \<longleftrightarrow>
     ata_laws io drv \<and> idle_drive img (drv (dev s)) \<and> mounted img n s fp \<and> int n \<le> root_entries img \<and> heap_ok s \<and>
     k + 4 \<le> spare_pages (kmem s) \<and> names_placed names (kmem s)"

definition files_ok :: "'d ports \<Rightarrow> ('d \<Rightarrow> ata) \<Rightarrow> (int \<Rightarrow> byte) \<Rightarrow> nat \<Rightarrow> fat_private_t \<Rightarrow> (addr \<times> byte list) list \<Rightarrow> nat \<Rightarrow> 'd kstate \<Rightarrow> table \<Rightarrow> bool" where
  "files_ok io drv img n fp names k s tbl \<longleftrightarrow> volume_ok io drv img n fp names k s \<and> fd_table_ok (dir_item (root_directory fp)) s tbl"

lemma fd_table_change:
  assumes ok: "fd_table_ok root s tbl"
    and agree: "\<And>fd. fd \<noteq> f \<Longrightarrow> tbl fd \<noteq> None \<Longrightarrow> agree_on (set (fd_pages s fd)) s s'"
    and slots: "length (filedescriptors s') = 512" "filedescriptors s' ! 511 = 0"
      "\<And>i. i < 511 \<Longrightarrow> int i + 1 \<noteq> f \<Longrightarrow> filedescriptors s' ! i = filedescriptors s ! i"
    and free: "x = None \<Longrightarrow> 1 \<le> f \<Longrightarrow> f < 512 \<Longrightarrow> filedescriptors s' ! nat (f - 1) = 0"
    and used: "\<And>item pos. x = Some (item, pos) \<Longrightarrow> open_fd s' f item pos \<and> 0 \<le> pos \<and> root \<notin> set (fd_pages s' f)"
    and apart: "\<And>fd. x \<noteq> None \<Longrightarrow> fd \<noteq> f \<Longrightarrow> tbl fd \<noteq> None \<Longrightarrow> set (fd_pages s' f) \<inter> set (fd_pages s fd) = {}"
  shows "fd_table_ok root s' (tbl(f := x))"
proof -
  note o = ok [unfolded fd_table_ok_def]
  have other: "open_fd s' fd item pos \<and> 0 \<le> pos \<and> root \<notin> set (fd_pages s' fd)" "fd_pages s' fd = fd_pages s fd"
    if "fd \<noteq> f" "tbl fd = Some (item, pos)" for fd item pos
  proof -
    have fd: "open_fd s fd item pos" "0 \<le> pos" "root \<notin> set (fd_pages s fd)" using o that(2) by blast+
    then have range: "1 \<le> fd" "fd < 512" by (simp_all add: open_fd_def)
    have "filedescriptors s' ! nat (fd - 1) = filedescriptors s ! nat (fd - 1)"
    proof (cases "fd = 511 + 1")
      case False
      then show ?thesis using slots(3) [of "nat (fd - 1)"] that(1) range by simp
    qed (use range in simp)
    then show "open_fd s' fd item pos \<and> 0 \<le> pos \<and> root \<notin> set (fd_pages s' fd)" "fd_pages s' fd = fd_pages s fd"
      using open_fd_agree [OF fd(1) agree [OF that(1)] slots(1)] that(2) fd(2,3) by simp_all
  qed
  have "filedescriptors s' ! i = 0" if "i < 511" "(tbl(f := x)) (int i + 1) = None" for i
  proof (cases "int i + 1 = f")
    case True
    then show ?thesis using that free by auto
  next
    case False
    then show ?thesis using that slots(3) [OF that(1)] o by simp
  qed
  moreover have "set (fd_pages s' fd) \<inter> set (fd_pages s' fd') = {}"
    if "fd \<noteq> fd'" "(tbl(f := x)) fd \<noteq> None" "(tbl(f := x)) fd' \<noteq> None" for fd fd'
  proof -
    have pages: "fd_pages s' g = fd_pages s g" if "g \<noteq> f" "(tbl(f := x)) g \<noteq> None" for g
      using other(2) [OF that(1)] that by fastforce
    consider "fd = f" "fd' \<noteq> f" | "fd' = f" "fd \<noteq> f" | "fd \<noteq> f" "fd' \<noteq> f" using \<open>fd \<noteq> fd'\<close> by blast
    then show ?thesis
      by cases (use that pages apart [of fd] apart [of fd'] o in \<open>auto split: if_splits\<close>)
  qed
  ultimately show ?thesis
    unfolding fd_table_ok_def using slots(1,2) other(1) used by (intro conjI allI impI) (auto split: if_splits)
qed

text \<open>Nothing changes in the table.\<close>

lemma fd_table_same:
  assumes ok: "fd_table_ok root s tbl" and agree: "\<And>fd. tbl fd \<noteq> None \<Longrightarrow> agree_on (set (fd_pages s fd)) s s'"
    and slots: "filedescriptors s' = filedescriptors s"
  shows "fd_table_ok root s' tbl"
proof -
  have "tbl 0 = None"
  proof (rule ccontr)
    assume "tbl 0 \<noteq> None"
    then obtain item pos where "tbl 0 = Some (item, pos)" by fastforce
    then have "open_fd s 0 item pos" using ok by (simp add: fd_table_ok_def)
    then show False by (simp add: open_fd_def)
  qed
  then have "tbl(0 := None) = tbl" by auto
  moreover have "fd_table_ok root s' (tbl(0 := None))"
    by (rule fd_table_change [OF ok agree]) (use ok slots in \<open>auto simp: fd_table_ok_def\<close>)
  ultimately show ?thesis by simp
qed

lemma fd_pages_used:
  "heap_ok s \<Longrightarrow> fd_table_ok root s tbl \<Longrightarrow> tbl fd \<noteq> None \<Longrightarrow> set (fd_pages s fd) \<subseteq> owned_pages s"
  using fd_pages_start(2) by (fastforce simp: fd_table_ok_def)

text \<open>Descriptors that are not in the table.\<close>

lemma fd_table_range: "fd_table_ok root s tbl \<Longrightarrow> tbl fd = Some (item, pos) \<Longrightarrow> 1 \<le> fd \<and> fd < 512"
  by (simp add: fd_table_ok_def open_fd_def)

lemma fd_table_closed:
  assumes "fd_table_ok root s tbl" and "tbl fd = None" and "fd \<noteq> 0"
  shows "file_get_descriptor fd s = Some 0"
proof (cases "1 \<le> fd \<and> fd < 512")
  case True
  then obtain i where i: "fd = int i + 1" "i < 511" by (intro that [of "nat (fd - 1)"]) auto
  then have "filedescriptors s ! i = 0" using assms(1,2) by (simp add: fd_table_ok_def)
  then show ?thesis using i assms(1) by (simp add: file_get_descriptor_def fd_table_ok_def Let_def)
qed (use assms(3) in \<open>auto simp: file_get_descriptor_def\<close>)

lemma fd_table_apart:
  "fd_table_ok root s tbl \<Longrightarrow> fd \<noteq> fd' \<Longrightarrow> tbl fd \<noteq> None \<Longrightarrow> tbl fd' \<noteq> None \<Longrightarrow>
     set (fd_pages s fd) \<inter> set (fd_pages s fd') = {}"
  unfolding fd_table_ok_def by blast

lemma fd_table_empty: "filedescriptors s = replicate 512 0 \<Longrightarrow> fd_table_ok root s Map.empty"
  by (simp add: fd_table_ok_def)

section \<open>The names and the volume\<close>

lemma names_placed_cong:
  assumes "names_placed names m"
    and same: "\<And>a cs k. (a, cs) \<in> set names \<Longrightarrow> k \<le> length cs + 3 \<Longrightarrow> outside_heap (a + int k) \<Longrightarrow> m' (a + int k) = m (a + int k)"
  shows "names_placed names m'"
  unfolding names_placed_def
proof (intro ballI, clarify)
  fix a cs
  assume a: "(a, cs) \<in> set names"
  then have n: "is_cstring (at m a) (0x30 # 0x3A # 0x2F # cs)" "length cs \<le> 253" "\<forall>k \<le> length cs + 3. outside_heap (a + int k)"
    using assms(1) by (auto simp: names_placed_def)
  have "is_cstring (at m' a) (0x30 # 0x3A # 0x2F # cs)"
    by (rule is_cstring_cong [OF _ n(1)]) (use same [OF a] n(3) in \<open>simp add: eval_nat_numeral\<close>)
  then show "is_cstring (at m' a) (0x30 # 0x3A # 0x2F # cs) \<and> length cs \<le> 253 \<and> (\<forall>k \<le> length cs + 3. outside_heap (a + int k))"
    using n(2,3) by blast
qed

lemma names_placed_grows: "names_placed names m \<Longrightarrow> grows m m' \<Longrightarrow> names_placed names m'"
  by (erule names_placed_cong) (use growsD(3) outside_heap_settled in blast)

lemma volume_searchable:
  assumes "volume_ok io drv img n fp names (call_cost names (Open filename) + k) s" and "map_of names filename = Some cs"
  shows "searchable img n s fp filename cs"
proof -
  have "(filename, cs) \<in> set names" using assms(2) by (rule map_of_SomeD)
  then have "is_cstring (at (kmem s) filename) (0x30 # 0x3A # 0x2F # cs)" "length cs \<le> 253"
    "\<forall>k \<le> length cs + 3. settled (kmem s) (filename + int k)"
    using assms(1) outside_heap_settled by (auto simp: volume_ok_def names_placed_def)
  then show ?thesis using assms by (simp add: volume_ok_def searchable_def)
qed

lemma volume_grows:
  assumes "volume_ok io drv img n fp names (c + k) s" and "mounted img n s' fp" and "heap_ok s'"
    and "idle_drive img (drv (dev s'))" and "grows (kmem s) (kmem s')"
    and "spare_pages (kmem s) \<le> spare_pages (kmem s') + c"
  shows "volume_ok io drv img n fp names k s'"
  using assms names_placed_grows [OF _ assms(5)] by (simp add: volume_ok_def)

lemma agree_used:
  assumes "heap_ok s" and "fd_table_ok root s tbl" and "agree_on (owned_pages s) s s'" and "tbl fd \<noteq> None"
  shows "agree_on (set (fd_pages s fd)) s s'"
  using fd_pages_used [OF assms(1,2,4)] assms(3) by (auto simp: agree_on_def)

section \<open>The calls implement the table\<close>

text \<open>The entries of the reserve in the heap's table.\<close>

definition reserve_same :: "mem \<Rightarrow> mem \<Rightarrow> bool" where
  "reserve_same m m' \<longleftrightarrow> (\<forall>a. 56832 \<le> a \<and> a < 57856 \<longrightarrow> m' a = m a)"

lemma reserve_refl [simp]: "reserve_same m m"
  by (simp add: reserve_same_def)

lemma reserve_trans [trans]: "reserve_same m m' \<Longrightarrow> reserve_same m' m'' \<Longrightarrow> reserve_same m m''"
  by (simp add: reserve_same_def)

lemma reserve_settled: "56832 \<le> a \<Longrightarrow> a < 57856 \<Longrightarrow> settled m a"
  by (simp add: settled_def)

lemma reserve_grows: "grows m m' \<Longrightarrow> reserve_same m m'"
  using growsD(3) reserve_settled unfolding reserve_same_def by blast

abbreviation implements_call where
  "implements_call io drv img n fp names k s op r tbl' \<equiv>
     \<exists>s'. file_call io s op = Some (r, s') \<and> files_ok io drv img n fp names k s' tbl' \<and> reserve_same (kmem s) (kmem s')"

lemma open_implements:
  assumes ok: "files_ok io drv img n fp names (call_cost names (Open filename) + k) s tbl"
    and spec: "table_call img n names tbl (Open filename) = Some (r, tbl')"
  shows "implements_call io drv img n fp names k s (Open filename) r tbl'"
proof -
  let ?root = "dir_item (root_directory fp)"
  have vol: "volume_ok io drv img n fp names (call_cost names (Open filename) + k) s" and tab: "fd_table_ok ?root s tbl"
    using ok by (simp_all add: files_ok_def)
  note v = vol [unfolded volume_ok_def]
  have ata: "ata_laws io drv" and dev: "idle_drive img (drv (dev s))" and heap: "heap_ok s" using v by simp_all
  have mode: "literal [0x72] 0 = 0x72" by (simp add: literal_def)
  obtain cs out where cs: "map_of names filename = Some cs" "path_outcome img n (split_slash cs) = Some out"
    using spec by (auto simp: bind_eq_Some_conv)
  have ready: "searchable img n s fp filename cs" by (rule volume_searchable [OF vol cs(1)])
  show ?thesis
  proof (cases "\<exists>item. out = Found item")
    case True
    then obtain item i where f: "out = Found item" "\<not> subdir item" "find (\<lambda>i. tbl (int i + 1) = None) [0..<511] = Some i"
      "r = Result (int i + 1)" "tbl' = tbl(int i + 1 \<mapsto> (item, 0))"
      using spec cs by (auto simp: bind_eq_Some_conv split: if_splits)
    have i: "i < 511" "tbl (int i + 1) = None" "\<forall>j < i. tbl (int j + 1) \<noteq> None"
      using f(3) by (auto simp: find_Some_iff)
    have "filedescriptors s ! j \<noteq> 0" if "j < i" for j
    proof -
      obtain x where "tbl (int j + 1) = Some x" using i(3) \<open>j < i\<close> by blast
      then have "open_fd s (int j + 1) (fst x) (snd x)" using tab by (cases x) (simp add: fd_table_ok_def)
      then show ?thesis by (simp add: open_fd_def)
    qed
    then have "first_free s i" using i tab by (simp add: first_free_def fd_table_ok_def)
    then have can: "can_open img n s fp filename cs item i"
      using ready f(1,2) cs(2) by (simp add: can_open_def file_at_Some)
    obtain s' where o: "fopen io filename (literal [0x72]) s = Some (int i + 1, s')" "opened img n s fp cs item i s'"
      "idle_drive img (drv (dev s'))"
      by (rule fopen_ata [OF ata dev can, of "literal [0x72]"]) (use mode in blast)+
    note op = o(2) [unfolded opened_def]
    have "volume_ok io drv img n fp names k s'"
      by (rule volume_grows [OF vol _ _ o(3)]) (use op cs(1) in simp_all)
    moreover have "fd_table_ok ?root s' (tbl(int i + 1 := Some (item, 0)))"
    proof (rule fd_table_change [OF tab])
      have slots: "filedescriptors s = (filedescriptors s')[i := 0]" using op by simp
      then show "length (filedescriptors s') = 512" "filedescriptors s' ! 511 = 0"
        using tab i(1) by (auto simp: fd_table_ok_def)
      show "filedescriptors s' ! j = filedescriptors s ! j" if "int j + 1 \<noteq> int i + 1" for j
        using that by (simp add: slots)
      have fresh: "set (fd_pages s' (int i + 1)) \<inter> owned_pages s = {}" using op by auto
      then show "set (fd_pages s' (int i + 1)) \<inter> set (fd_pages s fd) = {}" if "tbl fd \<noteq> None" for fd
        using fd_pages_used [OF heap tab that] by blast
      have "?root \<notin> set (fd_pages s' (int i + 1))" using fresh mounted_root_owned [of img n s fp] v by blast
      then show "open_fd s' (int i + 1) it pos \<and> 0 \<le> pos \<and> ?root \<notin> set (fd_pages s' (int i + 1))"
        if "Some (item, 0) = Some (it, pos)" for it pos
        using op that by simp
    qed (use agree_used [OF heap tab] op in auto)
    ultimately show ?thesis using o(1) f(4,5) op reserve_grows [of "kmem s" "kmem s'"] by (auto simp: files_ok_def)
  next
    case False
    then have f: "out = Absent \<or> out = Blocked" "r = Result 0" "tbl' = tbl"
      using spec cs by (auto simp: bind_eq_Some_conv split: outcome.splits)
    obtain s' where o: "fopen io filename (literal [0x72]) s = Some (0, s')" "mounted img n s' fp" "heap_ok s'"
      "grows (kmem s) (kmem s')" "filedescriptors s' = filedescriptors s" "idle_drive img (drv (dev s'))"
      "agree_on (owned_pages s) s s'"
      "spare_pages (kmem s) = spare_pages (kmem s') + 2 * length (split_slash cs) + (if out = Absent then 2 else 4)"
      by (rule fopen_fails_ata [OF ata dev ready, of "literal [0x72]" out]) (use mode f(1) cs(2) in blast)+
    have "volume_ok io drv img n fp names k s'"
      by (rule volume_grows [OF vol o(2,3,6,4)]) (use o(8) cs(1) in simp)
    moreover have "fd_table_ok ?root s' tbl"
      by (rule fd_table_same [OF tab agree_used [OF heap tab o(7)] o(5)])
    ultimately show ?thesis using o(1) f(2,3) reserve_grows [OF o(4)] by (auto simp: files_ok_def)
  qed
qed

text \<open>A call on a descriptor that is not in the table.\<close>

lemma closed_calls:
  assumes "file_get_descriptor fd s = Some 0"
  shows "fclose fd s = Some (- EIO, s)" "fseek fd offset whence s = Some (- EIO, s)"
    "fstat fd st s = Some (- EIO, st)" "sz \<noteq> 0 \<Longrightarrow> nmemb \<noteq> 0 \<Longrightarrow> 1 \<le> fd \<Longrightarrow> fread io out sz nmemb fd s = Some (- EIO, s)"
  using assms by (simp_all add: fclose_def fseek_def fstat_def fread_def)

lemma files_ok_parts:
  assumes "files_ok io drv img n fp names k s tbl"
  shows "ata_laws io drv" "idle_drive img (drv (dev s))" "mounted img n s fp" "heap_ok s" "names_placed names (kmem s)"
    "fd_table_ok (dir_item (root_directory fp)) s tbl" "volume_ok io drv img n fp names (0 + k) s"
  using assms by (simp_all add: files_ok_def volume_ok_def)

lemma close_implements:
  assumes ok: "files_ok io drv img n fp names (call_cost names (Close fd) + k) s tbl"
    and spec: "table_call img n names tbl (Close fd) = Some (r, tbl')"
  shows "implements_call io drv img n fp names k s (Close fd) r tbl'"
proof (cases "tbl fd")
  case None
  then have "file_get_descriptor fd s = Some 0"
    using fd_table_closed [OF files_ok_parts(6) [OF ok]] spec by (simp split: if_splits)
  from closed_calls(1) [OF this] show ?thesis using ok spec None by (auto split: if_splits)
next
  case (Some x)
  let ?root = "dir_item (root_directory fp)"
  note p = files_ok_parts [OF ok]
  obtain item pos where x: "x = (item, pos)" by (cases x)
  have fd: "open_fd s fd item pos" "?root \<notin> set (fd_pages s fd)" using p(6) Some x by (simp_all add: fd_table_ok_def)
  obtain s' where c: "fclose fd s = Some (0, s')" "heap_ok s'" "close_frame fd s s'"
    "spare_pages (kmem s') = spare_pages (kmem s) + 4"
    "gives_back_all (set (fd_pages s fd)) (kmem s) (kmem s')"
    "\<forall>p \<in> set (fd_pages s fd). page_start (kmem s) p"
    by (rule fclose_open_fd [OF p(4) fd(1)])
  note fields = close_frame_fields [OF c(3)]
  have keep: "kmem s' a = kmem s a" if a: "outside_heap a \<or> 56832 \<le> a \<and> a < 57856" for a
  proof -
    have "\<not> owned kernel_heap (kmem s) a" using a owned_pool by (fastforce simp: outside_heap_def)
    then have "\<not> (q \<le> a \<and> a < q + 4096)" if "q \<in> set (fd_pages s fd)" for q
      using c(6) that owned_page [of q a] by (auto simp: page_start_def)
    moreover have "settled (kmem s) a" using a outside_heap_settled reserve_settled by blast
    ultimately show ?thesis using c(5) by (auto simp: gives_back_all_def)
  qed
  have "names_placed names (kmem s')" by (rule names_placed_cong [OF p(5)]) (simp add: keep)
  then have "volume_ok io drv img n fp names k s'"
    using p(7) c(2,4) fields(3) mounted_closed [OF p(3) c(3) fd(2)] by (simp add: volume_ok_def)
  moreover have "fd_table_ok ?root s' (tbl(fd := None))"
  proof (rule fd_table_change [OF p(6)])
    show "agree_on (set (fd_pages s g)) s s'" if "g \<noteq> fd" "tbl g \<noteq> None" for g
    proof -
      have "set (fd_pages s g) \<inter> set (fd_pages s fd) = {}" using fd_table_apart [OF p(6) that] Some by simp
      then show ?thesis using c(3) by (auto simp: close_frame_def agree_on_def)
    qed
    have "nat (fd - 1) < length (filedescriptors s)" using fd(1) by (auto simp: open_fd_def)
    then show "filedescriptors s' ! nat (fd - 1) = 0" using fields(1) by simp
    show "filedescriptors s' ! j = filedescriptors s ! j" if "int j + 1 \<noteq> fd" for j
    proof -
      have "nat (fd - 1) \<noteq> j" using that fd(1) by (auto simp: open_fd_def)
      then show ?thesis using fields(1) by simp
    qed
    show "length (filedescriptors s') = 512" "filedescriptors s' ! 511 = 0"
      using p(6) fields(1) by (cases "nat (fd - 1) = 511"; simp add: fd_table_ok_def)+
  qed simp_all
  moreover have "reserve_same (kmem s) (kmem s')" by (simp add: reserve_same_def keep)
  ultimately show ?thesis using c(1) spec Some x by (auto simp: files_ok_def split: if_splits)
qed

lemma fseek_open_fd:
  assumes fd: "open_fd s fd item pos" and ok: "heap_ok s"
  obtains (refused) "new_pos (uint (filesize item)) pos offset whence = None" "fseek fd offset whence s = Some (- EIO, s)"
  | (moved) pos' priv it where "new_pos (uint (filesize item)) pos offset whence = Some pos'" "0 \<le> pos'"
    "fseek fd offset whence s = Some (0, s\<lparr>fat_descs := (fat_descs s)(priv \<mapsto> \<lparr>ffd_item = it, ffd_pos = pos'\<rparr>)\<rparr>)"
    "fat_descs s priv = Some \<lparr>ffd_item = it, ffd_pos = pos\<rparr>" "priv \<in> set (fd_pages s fd)"
    "open_fd (s\<lparr>fat_descs := (fat_descs s)(priv \<mapsto> \<lparr>ffd_item = it, ffd_pos = pos'\<rparr>)\<rparr>) fd item pos'"
    "fd_pages (s\<lparr>fat_descs := (fat_descs s)(priv \<mapsto> \<lparr>ffd_item = it, ffd_pos = pos'\<rparr>)\<rparr>) fd = fd_pages s fd"
proof -
  obtain desc_p priv where d: "1 \<le> fd" "fd < 512" "file_get_descriptor fd s = Some desc_p" "desc_p \<noteq> 0"
    "file_descs s desc_p = Some \<lparr>fd_index = fd, fd_fs = Some Fat16_fs, fd_private = priv, fd_disk = Some Root_disk\<rparr>"
    "open_file s priv item pos" "filedescriptors s ! nat (fd - 1) = desc_p" "length (filedescriptors s) = 512"
    using fd by (auto simp: open_fd_def file_get_descriptor_def Let_def)
  obtain it ptr where f: "fat_descs s priv = Some \<lparr>ffd_item = it, ffd_pos = pos\<rparr>"
    "fat_items s it = Some \<lparr>item_ptr = ptr, item_type = FAT_ITEM_TYPE_FILE\<rparr>" "dir_items s ptr = Some [item]"
    using d(6) by (auto simp: open_file_def)
  have seek: "fseek fd offset whence s =
      (case new_pos (uint (filesize item)) pos offset whence of
         None \<Rightarrow> Some (- EIO, s)
       | Some pos' \<Rightarrow> Some (0, s\<lparr>fat_descs := (fat_descs s)(priv \<mapsto> \<lparr>ffd_item = it, ffd_pos = pos'\<rparr>)\<rparr>))"
    using d f by (simp add: fseek_def vfs_seek_def fat16_seek_def item_at_def new_pos_def)
  show thesis
  proof (cases "new_pos (uint (filesize item)) pos offset whence")
    case None
    then show thesis using refused seek by simp
  next
    case (Some pos')
    let ?s' = "s\<lparr>fat_descs := (fat_descs s)(priv \<mapsto> \<lparr>ffd_item = it, ffd_pos = pos'\<rparr>)\<rparr>"
    have nonneg: "0 \<le> pos'" using Some u32_range by (auto simp: new_pos_def split: if_splits)
    have pages: "fd_pages s fd = [desc_p, priv, it, ptr]" "fd_pages ?s' fd = [desc_p, priv, it, ptr]"
      using d(5,7) f by (simp_all add: fd_pages_def desc_pages_def)
    have "open_fd ?s' fd item pos'" using d f by (auto simp: open_fd_def open_file_def)
    then show thesis using seek Some nonneg f(1) pages by (intro moved [of pos' priv it]) simp_all
  qed
qed

lemma seek_implements:
  assumes ok: "files_ok io drv img n fp names (call_cost names (Seek fd offset whence) + k) s tbl"
    and spec: "table_call img n names tbl (Seek fd offset whence) = Some (r, tbl')"
  shows "implements_call io drv img n fp names k s (Seek fd offset whence) r tbl'"
proof (cases "tbl fd")
  case None
  then have "file_get_descriptor fd s = Some 0"
    using fd_table_closed [OF files_ok_parts(6) [OF ok]] spec by (simp split: if_splits)
  from closed_calls(2) [OF this] show ?thesis using ok spec None by (auto split: if_splits)
next
  case (Some x)
  let ?root = "dir_item (root_directory fp)"
  note p = files_ok_parts [OF ok]
  obtain item pos where x: "x = (item, pos)" by (cases x)
  have fd: "open_fd s fd item pos" "?root \<notin> set (fd_pages s fd)" using p(6) Some x by (simp_all add: fd_table_ok_def)
  have zero: "fd \<noteq> 0" using fd(1) by (auto simp: open_fd_def)
  show ?thesis
  proof (cases rule: fseek_open_fd [OF fd(1) p(4), of offset whence])
    case 1
    then show ?thesis using ok spec Some x zero by auto
  next
    case (2 pos' priv it)
    let ?s' = "s\<lparr>fat_descs := (fat_descs s)(priv \<mapsto> \<lparr>ffd_item = it, ffd_pos = pos'\<rparr>)\<rparr>"
    have "mounted img n ?s' fp" by (rule mounted_cong [OF p(3)]) simp_all
    then have "volume_ok io drv img n fp names k ?s'"
      using p(7) heap_ok_update(9) [OF 2(4)] by (simp add: volume_ok_def)
    moreover have "fd_table_ok ?root ?s' (tbl(fd := Some (item, pos')))"
    proof (rule fd_table_change [OF p(6)])
      show "agree_on (set (fd_pages s g)) s ?s'" if "g \<noteq> fd" "tbl g \<noteq> None" for g
      proof -
        have "priv \<notin> set (fd_pages s g)" using fd_table_apart [OF p(6) that(1,2)] Some 2(5) by blast
        then show ?thesis by (auto simp: agree_on_def)
      qed
      show "set (fd_pages ?s' fd) \<inter> set (fd_pages s g) = {}" if "g \<noteq> fd" "tbl g \<noteq> None" for g
        using fd_table_apart [OF p(6) that(1,2)] Some by (simp add: 2(7) Int_commute)
      show "open_fd ?s' fd it' pos'' \<and> 0 \<le> pos'' \<and> ?root \<notin> set (fd_pages ?s' fd)" if "Some (item, pos') = Some (it', pos'')" for it' pos''
        using that 2(2,6) fd(2) 2(7) by simp
    qed (use p(6) in \<open>simp_all add: fd_table_ok_def\<close>)
    ultimately show ?thesis using spec Some x zero 2(1,3) by (auto simp: files_ok_def)
  qed
qed

lemma stat_implements:
  assumes ok: "files_ok io drv img n fp names (call_cost names (Stat fd) + k) s tbl"
    and spec: "table_call img n names tbl (Stat fd) = Some (r, tbl')"
  shows "implements_call io drv img n fp names k s (Stat fd) r tbl'"
proof (cases "tbl fd")
  case None
  then have "file_get_descriptor fd s = Some 0"
    using fd_table_closed [OF files_ok_parts(6) [OF ok]] spec by (simp split: if_splits)
  from closed_calls(3) [OF this] show ?thesis using ok spec None by (auto split: if_splits)
next
  case (Some x)
  obtain item pos where x: "x = (item, pos)" by (cases x)
  have fd: "open_fd s fd item pos" using files_ok_parts(6) [OF ok] Some x by (simp add: fd_table_ok_def)
  obtain desc_p priv where d: "file_get_descriptor fd s = Some desc_p" "desc_p \<noteq> 0"
    "file_descs s desc_p = Some \<lparr>fd_index = fd, fd_fs = Some Fat16_fs, fd_private = priv, fd_disk = Some Root_disk\<rparr>"
    "open_file s priv item pos" "fd \<noteq> 0"
    using fd by (auto simp: open_fd_def file_get_descriptor_def Let_def)
  have "attribute item OR FAT_FILE_READ_ONLY \<noteq> 0"
  proof
    assume "attribute item OR FAT_FILE_READ_ONLY = 0"
    then have "bit (attribute item OR FAT_FILE_READ_ONLY) 0 = bit (0 :: 8 word) 0" by simp
    then show False by (simp add: bit_simps)
  qed
  then have "fstat fd \<lparr>stat_flags = 0, stat_filesize = 0\<rparr> s =
      Some (0, \<lparr>stat_flags = FILE_STAT_READ_ONLY, stat_filesize = uint (filesize item)\<rparr>)"
    using d by (auto simp: fstat_def vfs_stat_def fat16_stat_def open_file_def item_at_def)
  then show ?thesis using ok spec Some x d(5) by (auto split: if_splits)
qed

text \<open>A read through an open descriptor.\<close>

lemma fread_slice:
  assumes ata: "ata_laws io drv" and dev: "idle_drive img (drv (dev s))" and vol: "mounted img n s fp"
    and fd: "open_fd s fd item pos" "0 \<le> pos" and len: "0 < sz" "0 < nmemb"
    and cover: "file_covers img item (clusters_for img (pos + sz * nmemb)) (pos + sz * nmemb)"
  obtains s' where "fread io out sz nmemb fd s = Some (0, s')"
    "kmem s' = write_bytes (kmem s) out (file_slice img item pos (sz * nmemb))"
    "length (file_slice img item pos (sz * nmemb)) = nat (sz * nmemb)"
    "idle_drive img (drv (dev s'))" "io_frame s (s'\<lparr>kmem := kmem s\<rparr>)"
proof -
  let ?len = "sz * nmemb" and ?c = "fat16_get_first_cluster item" and ?n = "clusters_for img (pos + sz * nmemb)"
  have fv: "fat_volume s fp" using vol by (simp add: mounted_def)
  note v = mounted_volume [OF vol]
  have c: "\<forall>x \<in> set (fat_chain img fp ?c ?n). data_cluster fp x" "pos + ?len \<le> int ?n * bytes_per_cluster fp"
    "pos + ?len < 2147483648"
    using cover by (simp_all add: file_covers_def file_clusters_def v)
  have slice: "file_slice img item pos ?len = take (nat ?len) (drop (nat pos) (chain_data img fp ?c ?n))"
    by (simp add: file_slice_def file_bytes_def v)
  obtain s' where s': "fread io out sz nmemb fd s = Some (0, s')" "kmem s' = write_bytes (kmem s) out (file_slice img item pos ?len)"
    "idle_drive img (drv (dev s'))" "io_frame s (s'\<lparr>kmem := kmem s\<rparr>)"
    using sector_device.fread_data [OF ata_sector_device [OF ata] fv dev fd(1) refl c(1) fd(2) len c(2,3)]
    unfolding slice by metis
  have "length (file_slice img item pos ?len) = nat ?len"
    unfolding slice by (rule length_chain_slice) (use fd(2) len c in simp_all)
  then show thesis by (rule that [OF s'(1,2) _ s'(3,4)])
qed

text \<open>A read into a free buffer leaves the heap in order.\<close>

lemma heap_ok_read:
  assumes "heap_ok s" and "io_frame s (s'\<lparr>kmem := kmem s\<rparr>)"
    and "\<And>a. a < out \<or> out + len \<le> a \<Longrightarrow> kmem s' a = kmem s a" and "free_buffer names out len"
  shows "heap_ok s'"
proof -
  have "heap_ok (s'\<lparr>kmem := kmem s\<rparr>\<lparr>kmem := kmem s'\<rparr>)"
    by (rule heap_ok_above(1) [OF heap_ok_io [OF assms(1,2)]]) (use assms(3,4) in \<open>auto simp: free_buffer_def\<close>)
  then show ?thesis by simp
qed

lemma read_implements:
  assumes ok: "files_ok io drv img n fp names (call_cost names (Read out sz nmemb fd) + k) s tbl"
    and spec: "table_call img n names tbl (Read out sz nmemb fd) = Some (r, tbl')"
  shows "implements_call io drv img n fp names k s (Read out sz nmemb fd) r tbl'"
proof -
  note p = files_ok_parts [OF ok]
  consider "sz = 0 \<or> nmemb = 0 \<or> fd < 1" | "\<not> (sz = 0 \<or> nmemb = 0 \<or> fd < 1)" "tbl fd = None"
    | item pos where "\<not> (sz = 0 \<or> nmemb = 0 \<or> fd < 1)" "tbl fd = Some (item, pos)" by fastforce
  then show ?thesis
  proof cases
    case 1
    then show ?thesis using ok spec by (auto simp: fread_def)
  next
    case 2
    then have "file_get_descriptor fd s = Some 0" by (intro fd_table_closed [OF p(6)]) auto
    from closed_calls(4) [OF this, of sz nmemb io out] show ?thesis using ok spec 2 by auto
  next
    case 3
    let ?len = "sz * nmemb"
    have fd: "open_fd s fd item pos" "0 \<le> pos" using p(6) 3(2) by (simp_all add: fd_table_ok_def)
    have g: "0 < sz" "0 < nmemb" "free_buffer names out ?len" "file_covers img item (clusters_for img (pos + ?len)) (pos + ?len)"
      "r = Bytes (file_slice img item pos ?len)" "tbl' = tbl"
      using spec 3 by (auto split: if_splits)
    obtain s' where s': "fread io out sz nmemb fd s = Some (0, s')" "kmem s' = write_bytes (kmem s) out (file_slice img item pos ?len)"
      "idle_drive img (drv (dev s'))" "io_frame s (s'\<lparr>kmem := kmem s\<rparr>)" and len: "length (file_slice img item pos ?len) = nat ?len"
      by (rule fread_slice [OF p(1-3) fd g(1,2,4)])
    have nonneg: "0 \<le> ?len" using g(1,2) by simp
    from len have bytes: "read_bytes (kmem s') out (nat ?len) = file_slice img item pos ?len"
      using s'(2) by simp
    have out: "kmem s' a = kmem s a" if "a < out \<or> out + ?len \<le> a" for a
      using that len nonneg by (simp add: s'(2) write_bytes_out)
    have "mounted img n (s'\<lparr>kmem := kmem s\<rparr>) fp" by (rule mounted_kept [OF p(3,4) kept_io [OF s'(4)]])
    then have "mounted img n s' fp" by (rule mounted_cong) simp_all
    moreover have "heap_ok s'" by (rule heap_ok_read [OF p(4) s'(4) out g(3)])
    moreover have "spare_pages (kmem s') = spare_pages (kmem s)"
      by (rule above_table_frame(3)) (use g(3) out in \<open>auto simp: free_buffer_def\<close>)
    moreover have "names_placed names (kmem s')"
    proof (rule names_placed_cong [OF p(5)])
      fix a cs k
      assume a: "(a, cs) \<in> set names" "k \<le> length cs + 3"
      then have "out + ?len \<le> a \<or> a + int (length cs) + 4 \<le> out" using g(3) by (auto simp: free_buffer_def list_all_iff)
      then show "kmem s' (a + int k) = kmem s (a + int k)" using a(2) by (intro out) auto
    qed
    ultimately have "volume_ok io drv img n fp names k s'" using p(7) s'(3) by (simp add: volume_ok_def)
    moreover have "fd_table_ok (dir_item (root_directory fp)) s' tbl"
      by (rule fd_table_same [OF p(6)]) (use io_frame_fields [OF s'(4)] in \<open>simp_all add: agree_on_def\<close>)
    moreover have "reserve_same (kmem s) (kmem s')" using g(3) out by (auto simp: reserve_same_def free_buffer_def)
    ultimately show ?thesis using s'(1) bytes g(5,6) by (auto simp: files_ok_def)
  qed
qed

lemma file_call_implements:
  assumes "files_ok io drv img n fp names (call_cost names op + k) s tbl"
    and "table_call img n names tbl op = Some (r, tbl')"
  obtains s' where "file_call io s op = Some (r, s')" "files_ok io drv img n fp names k s' tbl'"
    "reserve_same (kmem s) (kmem s')"
proof -
  have "implements_call io drv img n fp names k s op r tbl'"
    using assms by (cases op) (simp_all only: open_implements close_implements seek_implements read_implements stat_implements)
  then show thesis using that by blast
qed

interpretation file_table: implementation "file_call io" "table_call img n names" "call_cost names"
    "files_ok io drv img n fp names"
  for io :: "'d ports" and drv img n fp names
proof
  fix op k s r tbl tbl'
  assume "files_ok io drv img n fp names (call_cost names op + k) (s :: 'd kstate) tbl"
    and "table_call img n names tbl op = Some (r, tbl')"
  then show "\<exists>s'. file_call io s op = Some (r, s') \<and> files_ok io drv img n fp names k s' tbl'"
    by (rule file_call_implements) blast
qed

section \<open>Properties\<close>

text \<open>C5: the file interface is the abstract table.  Any sequence of \<open>fopen\<close>, \<open>fclose\<close>, \<open>fseek\<close>, \<open>fread\<close> and \<open>fstat\<close>
calls for which the table has answers returns exactly those answers: the numbers of descriptors, the error
codes, the sizes, and for each read the bytes of the disk image at the position of the descriptor, however many
files are open at once.  Afterwards the volume, the heap and the table of descriptors are in order again.\<close>

theorem file_calls_implement_table:
  assumes "files_ok io drv img n fp names (sum_list (map (call_cost names) ops) + k) s tbl"
    and "execs (table_call img n names) tbl ops = Some (rs, tbl')"
  shows "\<exists>s'. execs (file_call io) s ops = Some (rs, s') \<and> files_ok io drv img n fp names k s' tbl'"
  using assms by (rule file_table.execs_implement)

text \<open>A session on the tree of directories.\<close>

definition session_names :: "(addr \<times> byte list) list" where
  "session_names = [(0x100000, tree_path)]"

definition session :: "file_op list" where
  "session = [Open 0x100000, Seek 1 10 SEEK_SET, Read 0x200000 4 25 1, Open 0x100000, Close 1, Stat 1, Stat 2, Open 0x100000]"

definition session_answers :: "answer list" where
  "session_answers = [Result 1, Result 0, Bytes (file_slice tree_image demo_item 10 100), Result 2, Result 0, Result (- 1),
     Status \<lparr>stat_flags = FILE_STAT_READ_ONLY, stat_filesize = 600\<rparr>, Result 1]"

lemma find_upt: "find P [0..<n] = Some i \<longleftrightarrow> i < n \<and> P i \<and> (\<forall>j < i. \<not> P j)"
  by (auto simp: find_Some_iff)

lemma session_run:
  "execs (table_call tree_image 2 session_names) Map.empty session =
     Some (session_answers, [1 \<mapsto> (demo_item, 0), 2 \<mapsto> (demo_item, 0)])"
proof -
  have out: "path_outcome tree_image 2 (split_slash tree_path) = Some (Found demo_item)" "\<not> subdir demo_item"
    using tree_file by (simp_all add: file_at_Some)
  have size: "uint (filesize demo_item) = 600"
    by (simp add: demo_item_def directory_item_of_def word32_at_def uint_le32 demo_image_def demo_bytes_def)
  have covers: "file_covers tree_image demo_item (clusters_for tree_image 110) 110"
    by (simp add: file_covers_def file_clusters_def clusters_for_def demo_open_facts tree_volume)
  have buffer: "free_buffer session_names 0x200000 100"
    by (simp add: free_buffer_def session_names_def tree_path_def hello_def)
  have name: "map_of session_names 0x100000 = Some tree_path" by (simp add: session_names_def)
  have slot: "find (\<lambda>i. (Map.empty :: table) (int i + 1) = None) [0..<511] = Some 0"
    "find (\<lambda>i. ([1 \<mapsto> (demo_item, 10)] :: table) (int i + 1) = None) [0..<511] = Some 1"
    "find (\<lambda>i. ([2 \<mapsto> (demo_item, 0)] :: table) (int i + 1) = None) [0..<511] = Some 0"
    by (subst find_upt, simp)+
  have open_first: "table_call tree_image 2 session_names Map.empty (Open 0x100000) = Some (Result 1, [1 \<mapsto> (demo_item, 0)])"
    using out slot(1) by (simp add: name)
  have open_second: "table_call tree_image 2 session_names [1 \<mapsto> (demo_item, 10)] (Open 0x100000) =
      Some (Result 2, [1 \<mapsto> (demo_item, 10), 2 \<mapsto> (demo_item, 0)])"
    using out slot(2) by (simp add: name)
  have open_third: "table_call tree_image 2 session_names [2 \<mapsto> (demo_item, 0)] (Open 0x100000) =
      Some (Result 1, [2 \<mapsto> (demo_item, 0), 1 \<mapsto> (demo_item, 0)])"
    using out slot(3) by (simp add: name)
  have closed: "([1 \<mapsto> (demo_item, 10), 2 \<mapsto> (demo_item, 0)] :: table)(1 := None) = [2 \<mapsto> (demo_item, 0)]"
    by (intro ext) simp
  show ?thesis
    using covers buffer
    by (simp add: session_def session_answers_def open_first open_second open_third closed new_pos_def size fun_upd_twist
        del: table_call.simps(1))
qed

lemma session_ready:
  obtains s fp where "fat16_resolve ata_ports (Some Root_disk) (named_state tree_image tree_path) = Some (0, s)"
    "files_ok ata_ports id tree_image 2 fp session_names (sum_list (map (call_cost session_names) session) + 0) s Map.empty"
proof (rule demo_searchable [OF tree_fat16_image, of tree_path])
  fix s fp
  assume s: "fat16_resolve ata_ports (Some Root_disk) (named_state tree_image tree_path) = Some (0, s)"
    "searchable tree_image 2 s fp 0x100000 tree_path" "filedescriptors s = replicate 512 0" "idle_drive tree_image (dev s)"
    "spare_pages (kmem s) = 24571"
  have "length tree_path = 17" "length (split_slash tree_path) = 3"
    by (simp_all add: tree_path_def split_slash.simps [of "_ # _"] hello_def)
  then have "files_ok ata_ports id tree_image 2 fp session_names (sum_list (map (call_cost session_names) session) + 0) s Map.empty"
    using s(2,4,5) fd_table_empty [OF s(3)] ata_ports_laws
    by (simp add: files_ok_def volume_ok_def searchable_def names_placed_def session_names_def session_def id_def outside_heap_def)
  with s(1) show thesis by (rule that)
qed (simp_all add: tree_path_def hello_def tree_root)

theorem file_calls_implement_table_witness:
  "\<exists>s s'. fat16_resolve ata_ports (Some Root_disk) (named_state tree_image tree_path) = Some (0, s)
    \<and> execs (file_call ata_ports) s session = Some (session_answers, s')"
  by (rule session_ready) (use file_calls_implement_table [OF _ session_run] in blast)

section \<open>Calls do not get stuck\<close>



definition used_slots :: "table \<Rightarrow> nat set" where
  "used_slots tbl = {i. i < 511 \<and> tbl (int i + 1) \<noteq> None}"


lemma used_slots_empty [simp]: "used_slots Map.empty = {}"
  by (simp add: used_slots_def)







end
