(* ===== verification/Kernel.thy ===== *)
theory Kernel
  imports File Paging Gdt Idt Terminal
begin

text \<open>
  \<open>kernel.c\<close> and \<open>task/tss.h\<close>: the boot sequence, which composes all the other parts, and the
  demonstrations it runs.  What the linker and the assembly files decide (the addresses of static
  objects, handlers and string literals) is the parameter \<open>link\<close>.
\<close>

section \<open>The task state segment\<close>

record tss_t =
  tss_link :: "32 word"
  esp0 :: "32 word"
  ss0 :: "32 word"
  esp1 :: "32 word"
  esp2 :: "32 word"
  ss2 :: "32 word"
  tss_cr3 :: "32 word"
  eip :: "32 word"
  eflags :: "32 word"
  eax :: "32 word"
  ecx :: "32 word"
  edx :: "32 word"
  ebx :: "32 word"
  esp :: "32 word"
  ebp :: "32 word"
  esi :: "32 word"
  edi :: "32 word"
  es :: "32 word"
  cs :: "32 word"
  ss :: "32 word"
  ds :: "32 word"
  fs :: "32 word"
  gs :: "32 word"
  ldtr :: "32 word"
  iopb :: "32 word"
  ssp :: "32 word"

definition zero_tss :: tss_t where
  "zero_tss =
     \<lparr>tss_link = 0, esp0 = 0, ss0 = 0, esp1 = 0, esp2 = 0, ss2 = 0, tss_cr3 = 0, eip = 0, eflags = 0,
      eax = 0, ecx = 0, edx = 0, ebx = 0, esp = 0, ebp = 0, esi = 0, edi = 0, es = 0, cs = 0, ss = 0,
      ds = 0, fs = 0, gs = 0, ldtr = 0, iopb = 0, ssp = 0\<rparr>"

section \<open>The machine\<close>

record link =
  tss_addr :: "32 word"
  idt_addr :: "32 word"
  no_interrupt :: "32 word"
  int21h :: "32 word"
  lit :: "byte list \<Rightarrow> addr"

record 'd machine =
  screen :: terminal
  idt :: idt_state
  gdt_table :: "gdt_t list"
  gdt_limit :: int
  tss :: tss_t
  task_register :: int
  paging :: paging_state
  kern :: "'d kstate"

definition ascii :: "string \<Rightarrow> byte list" where
  "ascii str = map of_char str"

definition newline :: "byte list" where
  "newline = [0x0A]"

definition print :: "byte list \<Rightarrow> 'd machine \<Rightarrow> 'd machine option" where
  "print bs m = do { t \<leftarrow> print_string (literal bs) (screen m); Some (m\<lparr>screen := t\<rparr>) }"

definition print_at :: "mem \<Rightarrow> addr \<Rightarrow> 'd machine \<Rightarrow> 'd machine option" where
  "print_at mm p m = do { t \<leftarrow> print_string (at mm p) (screen m); Some (m\<lparr>screen := t\<rparr>) }"

section \<open>The operations\<close>

definition tss_init :: "'d machine \<Rightarrow> 'd machine" where
  "tss_init m = m\<lparr>tss := zero_tss\<lparr>esp0 := 0x600000, ss0 := word_of_int KERNEL_DATA_SELECTOR\<rparr>,
                  task_register := 5 * 8\<rparr>"

text \<open>\<open>panic\<close> prints and then loops for ever; the result is the state it loops in.\<close>

definition panic :: "byte list \<Rightarrow> 'd machine \<Rightarrow> 'd machine option" where
  "panic msg m =
     do { m \<leftarrow> print newline m; m \<leftarrow> print (ascii ''panic: '') m; m \<leftarrow> print msg m; print newline m }"

text \<open>The counting loop is that of \<open>strlen\<close>, with an \<open>int\<close> counter; \<open>s\<close> is a local buffer.\<close>

definition count_and_print :: "addr \<Rightarrow> 'd machine \<Rightarrow> 'd machine option" where
  "count_and_print p m =
     do { c \<leftarrow> strlen (at (kmem (kern m)) p);
          let buf = itoa (\<lambda>_. 0) (s32 (int c)) 0;
          m \<leftarrow> print (ascii ''Total bytes read from file: '') m;
          m \<leftarrow> print_at buf 0 m;
          print newline m }"

definition try_open :: "'d ports \<Rightarrow> link \<Rightarrow> byte list \<Rightarrow> 'd machine \<Rightarrow> 'd machine option" where
  "try_open io l file m =
     do { (fd, k) \<leftarrow> fopen io (lit l file) (literal (ascii ''r'')) (kern m);
          let m = m\<lparr>kern := k\<rparr>;
          if fd \<noteq> 0
          then do {
            m \<leftarrow> print (ascii ''found file:'') m;
            m \<leftarrow> print_at (kmem (kern m)) (lit l file) m;
            m \<leftarrow> print newline m;
            (_, k) \<leftarrow> fclose fd (kern m);
            Some (m\<lparr>kern := k\<rparr>) }
          else Some m }"

definition demo_fopen :: "'d ports \<Rightarrow> link \<Rightarrow> 'd machine \<Rightarrow> 'd machine option" where
  "demo_fopen io l m =
     do { m \<leftarrow> try_open io l (ascii ''0:/aaa/bbb/hello.txt'') m;
          try_open io l (ascii ''0:/aaa/bbb/bighello.txt'') m }"

text \<open>The common end of the two reading demonstrations, from the label \<open>out\<close> on.\<close>

definition demo_out :: "addr \<Rightarrow> int \<Rightarrow> 'd machine \<Rightarrow> 'd machine option" where
  "demo_out out fd m =
     do { k \<leftarrow> (if out \<noteq> 0 then kfree out (kern m) else Some (kern m));
          k \<leftarrow> (if fd \<noteq> 0 then do { (_, k) \<leftarrow> fclose fd k; Some k } else Some k);
          Some (m\<lparr>kern := k\<rparr>) }"

definition demo_fread :: "'d ports \<Rightarrow> link \<Rightarrow> 'd machine \<Rightarrow> 'd machine option" where
  "demo_fread io l m =
     do { (fd, k) \<leftarrow> fopen io (lit l (ascii ''0:/aaa/bbb/bighello.txt'')) (literal (ascii ''r'')) (kern m);
          let len = 1024 * 1024 * 2;
          let (out, k) = kzalloc (len + 1) k;
          (res, k) \<leftarrow> fread io out 1024 1024 fd k;
          let m = m\<lparr>kern := k\<rparr>;
          m \<leftarrow> (if res < 0 then print (ascii ''Failed to read file!'' @ newline) m
                else count_and_print out (m\<lparr>kern := k\<lparr>kmem := (kmem k)(out + int len := 0)\<rparr>\<rparr>));
          demo_out out fd m }"

definition demo_fseek :: "'d ports \<Rightarrow> link \<Rightarrow> 'd machine \<Rightarrow> 'd machine option" where
  "demo_fseek io l m =
     do { (fd, k) \<leftarrow> fopen io (lit l (ascii ''0:/aaa/bbb/bighello.txt'')) (literal (ascii ''r'')) (kern m);
          let len = 100;
          let (out, k) = kzalloc (len + 1) k;
          (_, k) \<leftarrow> fseek fd 10 SEEK_SET k;
          (res, k) \<leftarrow> fread io out 100 1 fd k;
          let m = m\<lparr>kern := k\<rparr>;
          m \<leftarrow> (if res < 0 then print (ascii ''Failed to read file!'' @ newline) m
                else do {
                  let m = m\<lparr>kern := k\<lparr>kmem := (kmem k)(out + int len := 0)\<rparr>\<rparr>;
                  m \<leftarrow> count_and_print out m;
                  print_at (kmem (kern m)) out m });
          demo_out out fd m }"

definition parse_and_free :: "link \<Rightarrow> byte list \<Rightarrow> 'd machine \<Rightarrow> 'd machine option" where
  "parse_and_free l path_str m =
     do { let (root_p, k) = kzalloc 8 (kern m);
          let k = (if root_p = 0 then k else k\<lparr>path_roots := (path_roots k)(root_p \<mapsto> zero_path_root)\<rparr>);
          (r, k) \<leftarrow> pparser_parse_path_root (lit l path_str) root_p k;
          m \<leftarrow> (if r < 0 then print (ascii ''Failed to parse path root!'' @ newline) (m\<lparr>kern := k\<rparr>)
                else Some (m\<lparr>kern := k\<rparr>));
          k \<leftarrow> pparser_free_path_root root_p (kern m);
          Some (m\<lparr>kern := k\<rparr>) }"

definition demo_pparser :: "link \<Rightarrow> 'd machine \<Rightarrow> 'd machine option" where
  "demo_pparser l m =
     do { m \<leftarrow> parse_and_free l (ascii ''0:/test/ok/me.txt'') m;
          parse_and_free l (ascii ''1:/another/dir/you.txt'') m }"

definition demo_disk_streamer :: "'d ports \<Rightarrow> 'd machine \<Rightarrow> 'd machine option" where
  "demo_disk_streamer io m =
     do { (streamer, k) \<leftarrow> disk_streamer_new 0 (kern m);
          (_, k) \<leftarrow> disk_streamer_seek_pos streamer 0x201 k;
          (_, out, k) \<leftarrow> disk_streamer_read_bytes io streamer 1 k;
          k \<leftarrow> disk_streamer_close streamer k;
          Some (m\<lparr>kern := k\<rparr>) }"

text \<open>
  \<open>kernel_main\<close> up to the paging set-up, and whole.  A failing \<open>kheap_init\<close> is only reported.
\<close>

definition boot :: "'d ports \<Rightarrow> link \<Rightarrow> 'd machine \<Rightarrow> 'd machine option" where
  "boot io l m =
     do { let m = m\<lparr>screen := terminal_init (screen m)\<rparr>;
          m \<leftarrow> print (ascii ''Welcome!'' @ newline) m;
          i \<leftarrow> idtr_init (idt_addr l) (no_interrupt l) (int21h l) (idt m);
          let m = m\<lparr>idt := i\<rparr>;
          (g, lim) \<leftarrow> gdt_table_init (tss_addr l);
          let m = m\<lparr>gdt_table := g, gdt_limit := lim\<rparr>;
          (res, h, mm) \<leftarrow> kheap_init (kheap (kern m)) (kmem (kern m));
          let m = m\<lparr>kern := (kern m)\<lparr>kheap := h, kmem := mm\<rparr>\<rparr>;
          m \<leftarrow> (if res < 0 then print (ascii ''Failed to create kernel heap'' @ newline) m else Some m);
          let k = fs_init (kern m);
          k \<leftarrow> disk_search_and_init io k;
          let m = tss_init (m\<lparr>kern := k\<rparr>);
          let flags = PAGING_IS_WRITABLE OR PAGING_ACCESS_FROM_ALL OR PAGING_IS_PRESENT;
          let (chunk, mm) = paging_new_4gb (kheap (kern m)) flags (kmem (kern m));
          let directory = paging_4gb_chunk_get_directory mm chunk;
          Some (m\<lparr>kern := (kern m)\<lparr>kmem := mm\<rparr>,
                  paging := (paging_switch directory (paging m))\<lparr>paging_enabled := True\<rparr>\<rparr>) }"

definition kernel_main :: "'d ports \<Rightarrow> link \<Rightarrow> 'd machine \<Rightarrow> 'd machine option" where
  "kernel_main io l m =
     do { m \<leftarrow> boot io l m;
          m \<leftarrow> demo_pparser l m;
          m \<leftarrow> demo_disk_streamer io m;
          m \<leftarrow> demo_fopen io l m;
          m \<leftarrow> demo_fread io l m;
          m \<leftarrow> demo_fseek io l m;
          panic (ascii ''Testing panic'') m }"

end
