(* ===== verification/Boot.thy ===== *)
theory Boot
  imports Kernel File_Table
begin

text \<open>
  The boot sequence as a whole: from an arbitrary memory and a disk with a FAT16 volume,
  \<open>boot\<close> (\<open>kernel_main\<close> up to the paging set-up) reaches a state in which all the components hold
  their invariants at once, and in which a file can be opened by name and read.
\<close>

section \<open>Paging on a heap in use\<close>

text \<open>\<open>m\<close> is reached from \<open>m0\<close> by allocations and by stores to pages allocated since.\<close>

definition based :: "mem \<Rightarrow> mem \<Rightarrow> bool" where
  "based m0 m \<longleftrightarrow> unchained m \<and> grows m0 m"

lemma based_zalloc:
  assumes "based m0 m" and n: "0 < n" "n \<le> 4096" and z: "kheap_zalloc kernel_heap n m = (p, m')"
    and spare: "0 < spare_pages m"
  shows "based m0 m'"
proof -
  have "grows m m'"
    using kh.alloc_keeps_own [OF n z] kheap_zalloc_settled [OF n z _ spare] by (auto simp: grows_def)
  moreover have "unchained m'" using kheap_zalloc_unchained [OF _ n z] assms(1) by (simp add: based_def)
  ultimately show ?thesis using assms(1) by (auto simp: based_def intro: grows_trans)
qed

lemma based_stores:
  assumes based: "based m0 m" and new: "\<And>a. m' a \<noteq> m a \<Longrightarrow> owned kernel_heap m a \<and> \<not> owned kernel_heap m0 a"
  shows "based m0 m'" "owned kernel_heap m' a = owned kernel_heap m a"
    "spare_pages m' = spare_pages m"
proof -
  have same: "m' a = m a" if "a < 57857" for a using new [of a] owned_pool [of m a] that by fastforce
  then show own: "owned kernel_heap m' a = owned kernel_heap m a"
    and "spare_pages m' = spare_pages m" for a
    using above_table_frame [of kernel_heap m' m] by simp_all
  have "unchained m'"
    by (rule unchained_cong [of m]) (use based same in \<open>auto simp: based_def entry_addr_def\<close>)
  moreover have "m' a = m a" if "settled m0 a" for a
    using new [of a] that owned_pool [of m a] by (auto simp: settled_def)
  moreover have "settled m' a = settled m a" for a using own by (simp add: settled_def)
  ultimately show "based m0 m'" using based own by (simp add: based_def grows_def)
qed

text \<open>A page allocated after \<open>m0\<close>.\<close>

definition later_page :: "mem \<Rightarrow> mem \<Rightarrow> addr \<Rightarrow> bool" where
  "later_page m0 m p \<longleftrightarrow> (\<forall>a. p \<le> a \<and> a < p + 4096 \<longrightarrow> owned kernel_heap m a \<and> \<not> owned kernel_heap m0 a)"

lemma based_page:
  assumes "based m0 m" and "0 < spare_pages m" and "0 < n" "n \<le> 4096"
  obtains p m' where "kheap_zalloc kernel_heap n m = (p, m')" "based m0 m'" "later_page m0 m' p"
    "\<And>q. later_page m0 m q \<Longrightarrow> later_page m0 m' q"
    "spare_pages m = Suc (spare_pages m')" "0 < p" "p + 4096 \<le> 2147483648"
proof (rule low.alloc_granted [OF assms(3,4,2)])
  fix p m'
  assume z: "kheap_zalloc kernel_heap n m = (p, m')"
    and fp: "spare_pages m = Suc (spare_pages m')" and p: "0 < p" "p + 4096 \<le> 2147483648"
    and own: "\<And>a. p \<le> a \<Longrightarrow> a < p + 4096 \<Longrightarrow> owned kernel_heap m' a"
    and fresh: "\<And>a. p \<le> a \<Longrightarrow> a < p + 4096 \<Longrightarrow> \<not> owned kernel_heap m a"
    and mono: "\<And>a. owned kernel_heap m a \<Longrightarrow> owned kernel_heap m' a"
  have "later_page m0 m' p"
    using own fresh assms(1) by (auto simp: later_page_def based_def grows_def)
  moreover have "later_page m0 m q \<Longrightarrow> later_page m0 m' q" for q using mono by (auto simp: later_page_def)
  ultimately show thesis by (rule that [OF z based_zalloc [OF assms(1,3,4) z assms(2)] _ _ fp p])
qed

lemma later_page_stores:
  assumes "later_page m0 m p" and "\<forall>a. a < p \<or> p + 4096 \<le> a \<longrightarrow> m' a = m a" and "m' a \<noteq> m a"
  shows "owned kernel_heap m a \<and> \<not> owned kernel_heap m0 a"
  using assms unfolding later_page_def by (metis linorder_not_less)

lemma later_page_based:
  assumes "based m0 m" and "later_page m0 m p" and "\<forall>a. a < p \<or> p + 4096 \<le> a \<longrightarrow> m' a = m a"
  shows "based m0 m'" "spare_pages m' = spare_pages m" "later_page m0 m' q = later_page m0 m q"
proof -
  note new = later_page_stores [OF assms(2,3)]
  show "based m0 m'" by (rule based_stores(1) [OF assms(1) new])
  show "spare_pages m' = spare_pages m" by (rule based_stores(3) [OF assms(1) new])
  have "owned kernel_heap m' a = owned kernel_heap m a" for a by (rule based_stores(2) [OF assms(1) new])
  then show "later_page m0 m' q = later_page m0 m q" by (simp add: later_page_def)
qed

lemma fill_directory_based:
  assumes "based m0 m" and "later_page m0 m D" and "i \<le> 1024" and "1024 - i \<le> spare_pages m"
  shows "based m0 (fill_directory kernel_heap m D off fl i)
    \<and> spare_pages m = spare_pages (fill_directory kernel_heap m D off fl i) + (1024 - i)"
  using assms
proof (induction "1024 - i" arbitrary: i m off)
  case 0
  then have "i = 1024" by simp
  then show ?case using "0.prems"(1) by (simp add: fill_directory.simps [of _ _ _ _ _ 1024])
next
  case (Suc n)
  then have i: "i < 1024" and n: "n = 1024 - Suc i" and fp: "0 < spare_pages m" by simp_all
  obtain T m1 where T: "kheap_zalloc kernel_heap 4096 m = (T, m1)" "based m0 m1" "later_page m0 m1 T"
    "later_page m0 m1 D" "spare_pages m = Suc (spare_pages m1)"
    by (rule based_page [OF Suc.prems(1) fp, of 4096]) (use Suc.prems(2) in auto)
  define m2 where "m2 = fill_table m1 T off fl 0"
  have "\<forall>a. a < T \<or> T + 4096 \<le> a \<longrightarrow> m2 a = m1 a"
    using fill_table_effect [of 0 m1 T off fl] by (auto simp: m2_def)
  note s2 = later_page_based [OF T(2,3) this]
  define m3 where "m3 = store32 m2 (D + 4 * int i) ((word_of_int T OR ucast fl) OR ucast PAGING_IS_WRITABLE)"
  have "\<forall>a. a < D \<or> D + 4096 \<le> a \<longrightarrow> m3 a = m2 a"
    using i by (auto simp: m3_def store32_out)
  note s3 = later_page_based [OF s2(1) s2(3) [of D, THEN iffD2, OF T(4)] this]
  have step: "fill_directory kernel_heap m D off fl i =
      fill_directory kernel_heap m3 D (u32 (off + 4194304)) fl (Suc i)"
    using i T(1) by (subst fill_directory.simps) (simp add: m2_def m3_def)
  have "later_page m0 m3 D" using s2(3) s3(3) T(4) by simp
  then have "based m0 (fill_directory kernel_heap m3 D (u32 (off + 4194304)) fl (Suc i))
    \<and> spare_pages m3 =
      spare_pages (fill_directory kernel_heap m3 D (u32 (off + 4194304)) fl (Suc i)) + (1024 - Suc i)"
    using Suc.prems(4) T(5) s2(2) s3(2) i by (intro Suc.hyps(1) [OF n s3(1)]) simp_all
  then show ?case using T(5) s2(2) s3(2) i unfolding step by simp
qed

lemma paging_new_4gb_based:
  assumes single: "unchained m" and av: "1026 \<le> spare_pages m"
    and new: "paging_new_4gb kernel_heap fl m = (chunk, m')"
  shows "based m m'" "spare_pages m = spare_pages m' + 1026"
proof -
  have base: "based m m" using single by (simp add: based_def)
  have fp: "0 < spare_pages m" using av by simp
  obtain D m1 where D: "kheap_zalloc kernel_heap 4096 m = (D, m1)" "based m m1" "later_page m m1 D"
    "spare_pages m = Suc (spare_pages m1)"
    by (rule based_page [OF base fp, of 4096]) auto
  define m2 where "m2 = fill_directory kernel_heap m1 D 0 fl 0"
  have m2: "based m m2" "spare_pages m1 = spare_pages m2 + 1024"
    using fill_directory_based [OF D(2,3), of 0 0 fl] D(4) av by (simp_all add: m2_def)
  then have fp2: "0 < spare_pages m2" using av D(4) by simp
  obtain C m3 where C: "kheap_zalloc kernel_heap 4 m2 = (C, m3)" "based m m3" "later_page m m3 C"
    "spare_pages m2 = Suc (spare_pages m3)"
    by (rule based_page [OF m2(1) fp2, of 4]) auto
  have m': "m' = store32 m3 C (word_of_int D)"
    using new D(1) C(1) by (auto simp: paging_new_4gb_def m2_def)
  have "\<forall>a. a < C \<or> C + 4096 \<le> a \<longrightarrow> m' a = m3 a" by (auto simp: m' store32_out)
  note s = later_page_based [OF C(2,3) this]
  show "based m m'" by (rule s(1))
  show "spare_pages m = spare_pages m' + 1026" using D(4) m2(2) C(4) s(2) by simp
qed


section \<open>Mounting at boot\<close>

lemma disk_search_mounts:
  assumes ata: "ata_laws io drv" and dev: "idle_drive img (drv (dev s))" and img: "fat16_image img n"
    and ok: "heap_ok s" and fp: "6 \<le> spare_pages (kmem s)" and fs: "filesystems s = Some Fat16_fs # rest"
  obtains s' p where "disk_search_and_init io s = Some s'" "mounted img n s' p" "heap_ok s'"
    "idle_drive img (drv (dev s'))" "rest_same s s'" "grows (kmem s) (kmem s')"
    "spare_pages (kmem s) = spare_pages (kmem s') + 5"
proof -
  define s0 where "s0 = s\<lparr>root_disk := zero_disk\<lparr>disk_id := 0, disk_type := DISK_TYPE_REAL,
      sector_size := DISK_SECTOR_SIZE\<rparr>\<rparr>"
  have s0: "idle_drive img (drv (dev s0))" "heap_ok s0" "6 \<le> spare_pages (kmem s0)"
    "disk_id (root_disk s0) = 0" "sector_size (root_disk s0) = 512"
    using dev ok fp by (simp_all add: s0_def)
  obtain s1 p where r: "fat16_resolve io (Some Root_disk) s0 = Some (0, s1)" "mounted img n s1 p" "heap_ok s1"
    "idle_drive img (drv (dev s1))" "rest_same s0 s1" "grows (kmem s0) (kmem s1)"
    "spare_pages (kmem s0) = spare_pages (kmem s1) + 5"
    using resolve_mounted [OF ata s0(1) img s0(2-5)] by blast
  have "(root_disk s1)\<lparr>disk_filesystem := Some Fat16_fs\<rparr> = root_disk s1"
    using r(2) by (cases "root_disk s1") (simp add: mounted_def)
  then have "disk_search_and_init io s = Some s1"
    using r(1) fs by (simp add: disk_search_and_init_def fs_resolve_def vfs_resolve_def s0_def [symmetric] Let_def)
      (simp add: s0_def)
  then show thesis using r by (intro that) (simp_all add: rest_same_def s0_def)
qed

text \<open>Before booting nothing is on the heap, and the byte behind its table does not look like a chained entry.\<close>

definition cold :: "'d kstate \<Rightarrow> bool" where
  "cold s \<longleftrightarrow> (\<forall>a. inhabitants s a = 0) \<and> \<not> heap_table_entry_has_next (kmem s) 57856"

lemma kheap_init_heap_ok:
  assumes "cold s" and "kheap_init (kheap s) (kmem s) = Some (res, h, m)"
  shows "h = kernel_heap" "res = 0" "heap_ok (s\<lparr>kheap := h, kmem := m\<rparr>)" "spare_pages m = 24576"
    "\<And>a. a < 32256 \<or> 57856 \<le> a \<Longrightarrow> m a = kmem s a"
    "\<And>a. a < 32256 \<or> 57856 \<le> a \<and> a < 16777216 \<or> 121634816 \<le> a \<Longrightarrow> settled m a"
    "\<And>a. 32256 \<le> a \<Longrightarrow> a < 57856 \<Longrightarrow> m a = 0"
proof -
  note pool = kheap_init_pool [OF assms(2) assms(1) [unfolded cold_def, THEN conjunct2]]
  show "32256 \<le> a \<Longrightarrow> a < 57856 \<Longrightarrow> m a = 0" for a using assms(2) by (auto simp: kheap_init_eq)
  show h: "h = kernel_heap" "res = 0" and keep: "a < 32256 \<or> 57856 \<le> a \<Longrightarrow> m a = kmem s a" for a
    using assms(2) by (auto simp: kheap_init_eq)
  show "heap_ok (s\<lparr>kheap := h, kmem := m\<rparr>)"
    using single_unchained pool h assms(1) by (simp add: heap_ok_def cold_def inhabitants_def)
  have "is_free_block m (entry_addr kernel_heap (int b))" if "b < 24576" for b
    using assms(2) that by (auto simp: kheap_init_eq is_free_block_def entry_addr_def)
  then show "spare_pages m = 24576" by (simp add: free_below_def)
  show "a < 32256 \<or> 57856 \<le> a \<and> a < 16777216 \<or> 121634816 \<le> a \<Longrightarrow> settled m a" for a
    by (auto simp: settled_def)
qed

section \<open>The booted machine\<close>

text \<open>What booting establishes in each component.\<close>

definition booted :: "(int \<Rightarrow> byte) \<Rightarrow> nat \<Rightarrow> link \<Rightarrow> 'd machine \<Rightarrow> fat_private_t \<Rightarrow> bool" where
  "booted img n l m p \<longleftrightarrow>
     heap_ok (kern m) \<and> mounted img n (kern m) p \<and> filedescriptors (kern m) = replicate 512 0 \<and>
     paging_enabled (paging m) \<and>
     (\<forall>va. 0 \<le> va \<and> va < 4294967296 \<longrightarrow> translate (kmem (kern m)) (cr3 (paging m)) va = Some va) \<and>
     interrupts_enabled (idt m) \<and> loaded_idtr (idt m) = Some \<lparr>idtr_limit = 4095, idtr_base = idt_addr l\<rparr> \<and>
     (\<forall>i < 512. gate_for (if i = 0x21 then int21h l else no_interrupt l) (idt_descriptors (idt m) ! i)) \<and>
     gdt_limit m = 47 \<and> (\<forall>i < 6. describes (gdt_table m ! i) (gdt_structured_table (tss_addr l) ! i)) \<and>
     task_register m = 40 \<and> esp0 (tss m) = 0x600000 \<and> ss0 (tss m) = 0x10"

lemma is_cstring_literal: "0 \<notin> set xs \<Longrightarrow> is_cstring (literal xs) xs"
  by (auto simp: is_cstring_def literal_def in_set_conv_nth)

lemma print_literal: "0 \<notin> set xs \<Longrightarrow> print xs m = Some (m\<lparr>screen := fold print_char xs (screen m)\<rparr>)"
  by (simp add: print_def print_string_fold [OF is_cstring_literal])

lemma boot_run:
  assumes ata: "ata_laws io drv" and dev: "idle_drive img (drv (dev (kern m)))" and img: "fat16_image img n"
    and cold: "cold (kern m)"
  obtains m' p where "boot io l m = Some m'" "booted img n l m' p" "idle_drive img (drv (dev (kern m')))"
    "spare_pages (kmem (kern m')) = 23545"
    "screen m' = fold print_char (ascii ''Welcome!'' @ newline) (terminal_init (screen m))"
    "\<And>a. a < 32256 \<or> 57856 \<le> a \<and> a < 16777216 \<or> 121634816 \<le> a \<Longrightarrow>
       settled (kmem (kern m')) a \<and> kmem (kern m') a = kmem (kern m) a"
    "\<And>a. 56832 \<le> a \<Longrightarrow> a < 57856 \<Longrightarrow> kmem (kern m') a = 0"
proof -
  let ?w = "ascii ''Welcome!'' @ newline"
  define m1 where "m1 = m\<lparr>screen := fold print_char ?w (terminal_init (screen m))\<rparr>"
  have "0 \<notin> set ?w" by (simp add: ascii_def newline_def)
  then have p1: "print ?w (m\<lparr>screen := terminal_init (screen m)\<rparr>) = Some m1" by (simp add: print_literal m1_def)
  obtain i where i: "idtr_init (idt_addr l) (no_interrupt l) (int21h l) (idt m1) = Some i"
    "\<forall>j < 512. gate_for (if j = 0x21 then int21h l else no_interrupt l) (idt_descriptors i ! j)"
    "loaded_idtr i = Some \<lparr>idtr_limit = 4095, idtr_base = idt_addr l\<rparr>" "interrupts_enabled i"
    using idtr_init_all by blast
  obtain g where g: "gdt_table_init (tss_addr l) = Some (g, 47)"
    "\<forall>j < 6. describes (g ! j) (gdt_structured_table (tss_addr l) ! j)"
    using gdt_table_init_all by blast
  obtain r h mm where z: "kheap_init (kheap (kern m)) (kmem (kern m)) = Some (r, h, mm)" by (simp add: kheap_init_eq)
  note heap = kheap_init_heap_ok [OF cold z]
  define k1 where "k1 = fs_init ((kern m)\<lparr>kheap := h, kmem := mm\<rparr>)"
  have k1: "heap_ok k1" "kmem k1 = mm" "dev k1 = dev (kern m)" "filedescriptors k1 = replicate 512 0"
    "filesystems k1 = Some Fat16_fs # replicate 11 None"
    using heap(3) by (simp_all add: k1_def fs_init_def fs_load_def fs_static_load_def fs_insert_filesystem_def
        fs_get_free_filesystem_def fat16_init_def numeral_eq_Suc heap_ok_def inhabitants_def)
  have k1': "idle_drive img (drv (dev k1))" "6 \<le> spare_pages (kmem k1)"
    using dev heap(4) k1 by simp_all
  obtain k2 p where k2: "disk_search_and_init io k1 = Some k2" "mounted img n k2 p" "heap_ok k2"
    "idle_drive img (drv (dev k2))" "rest_same k1 k2" "grows (kmem k1) (kmem k2)"
    "spare_pages (kmem k1) = spare_pages (kmem k2) + 5"
    by (rule disk_search_mounts [OF ata k1'(1) img k1(1) k1'(2) k1(5)])
  obtain chunk m3 where new: "paging_new_4gb kernel_heap 7 (kmem k2) = (chunk, m3)" by force
  have av: "1026 \<le> spare_pages (kmem k2)" using k2(7) heap(4) k1(2) by simp
  note based = paging_new_4gb_based [OF heap_ok_fields(2) [OF k2(3)] av new]
  define dir where "dir = paging_4gb_chunk_get_directory m3 chunk"
  have "\<forall>k < 1024. maps_region m3 dir 7 k" unfolding dir_def 
    by (rule paging_new_4gb_tree [OF order_trans [OF av spare_free] new])
  moreover have "bit (7 :: 8 word) 0" by (simp add: bit_0)
  ultimately have identity: "translate m3 dir va = Some va" if "0 \<le> va" "va < 4294967296" for va
    using that address_split [of va] maps_region_translate by metis
  let ?m' = "(tss_init (m1\<lparr>idt := i, gdt_table := g, gdt_limit := 47, kern := k2\<rparr>))
    \<lparr>kern := k2\<lparr>kmem := m3\<rparr>, paging := (paging_switch dir (paging m1))\<lparr>paging_enabled := True\<rparr>\<rparr>"
  have kh: "kheap k2 = kernel_heap" using heap_ok_fields [OF k2(3)] by simp
  have "fs_init ((kern m)\<lparr>kheap := kernel_heap, kmem := mm\<rparr>) = k1" by (simp add: k1_def heap(1))
  then have run: "boot io l m = Some ?m'"
    using p1 i(1) g(1) z heap(1,2) k2(1) new kh
    by (simp add: boot_def Let_def tss_init_def dir_def) (simp add: m1_def)
  have "heap_ok (k2\<lparr>kmem := m3\<rparr>)"
    using based(1) by (intro heap_ok_grows [OF k2(3)]) (simp_all add: based_def)
  moreover have "mounted img n (k2\<lparr>kmem := m3\<rparr>) p" using k2(2) by (rule mounted_cong) simp_all
  moreover have "filedescriptors k2 = replicate 512 0" using k2(5) k1(4) by (simp add: rest_same_def)
  ultimately have booted: "booted img n l ?m' p"
    using i(2-4) g(2) identity by (simp add: booted_def tss_init_def paging_switch_def paging_load_directory_def)
  have "grows mm m3" using grows_trans [OF k2(6)] based(1) k1(2) by (simp add: based_def)
  then have "settled (kmem (kern ?m')) a \<and> kmem (kern ?m') a = kmem (kern m) a"
    if "a < 32256 \<or> 57856 \<le> a \<and> a < 16777216 \<or> 121634816 \<le> a" for a
    using growsD(2,3) [of mm m3 a] heap(5) [of a] heap(6) [OF that] that by (simp, linarith)
  moreover have "kmem (kern ?m') a = 0" if "56832 \<le> a" "a < 57856" for a
    using growsD(3) [OF \<open>grows mm m3\<close> reserve_settled [OF that]] heap(7) [of a] that by simp
  ultimately show thesis
    using k2(4,7) based(2) heap(4) k1(2) by (intro that [OF run booted]) (simp_all add: m1_def tss_init_def)
qed

section \<open>Properties\<close>

text \<open>C4: booting.  From any memory, on a cold heap and an idle ATA drive with a FAT16 volume,
\<open>kernel_main\<close> reaches the end of the paging set-up with every component ready at once: the volume
mounted and the descriptor table empty, paging enabled with the identity mapping, all 512 gates set
and loaded and interrupts on, the six segments described by the loaded table, the task register
loaded and the heap sound with 23545 free pages before the reserve of 1024, after printing nothing but the greeting.\<close>

theorem boot_ready:
  assumes "ata_laws io drv" and "idle_drive img (drv (dev (kern m)))" and "fat16_image img n"
    and "cold (kern m)"
  shows "\<exists>m' p. boot io l m = Some m' \<and> booted img n l m' p \<and> spare_pages (kmem (kern m')) = 23545
    \<and> screen m' = fold print_char (ascii ''Welcome!'' @ newline) (terminal_init (screen m))"
  by (rule boot_run [OF assms, of l]) blast

text \<open>A machine before booting, with an image in the drive and a path at address \<open>0x100000\<close>.\<close>

definition cold_machine :: "(int \<Rightarrow> byte) \<Rightarrow> byte list \<Rightarrow> ata machine" where
  "cold_machine img nm =
     \<lparr>screen = \<lparr>video_mem = \<lambda>_. 0, terminal_row = 0, terminal_col = 0\<rparr>,
      idt = \<lparr>idt_descriptors = [], idtr_descriptor = \<lparr>idtr_limit = 0, idtr_base = 0\<rparr>, loaded_idtr = None,
             interrupts_enabled = False\<rparr>,
      gdt_table = [], gdt_limit = 0, tss = zero_tss, task_register = 0,
      paging = \<lparr>current_directory = 0, cr3 = 0, paging_enabled = False\<rparr>,
      kern = (named_state img nm)\<lparr>root_disk := zero_disk, filedescriptors := []\<rparr>\<rparr>"

definition demo_link :: link where
  "demo_link = \<lparr>tss_addr = 0x140000, idt_addr = 0x141000, no_interrupt = 0x100100, int21h = 0x100200,
     lit = (\<lambda>_. 0x142000)\<rparr>"

lemma cold_machine_facts:
  "cold (kern (cold_machine img nm))" "idle_drive img (dev (kern (cold_machine img nm)))"
  "kmem (kern (cold_machine img nm)) = kmem (named_state img nm)"
proof -
  have "inhabitants (kern (cold_machine img nm)) a = 0" for a
    by (simp add: inhabitants_def cold_machine_def named_state_def bare_state_def initial_state_def)
  moreover have "\<not> heap_table_entry_has_next (kmem (kern (cold_machine img nm))) 57856"
    by (simp add: heap_table_entry_has_next_def cold_machine_def named_state_def write_bytes_def)
  ultimately show "cold (kern (cold_machine img nm))" by (simp add: cold_def)
qed (use named_state_facts in \<open>simp_all add: cold_machine_def\<close>)

theorem boot_ready_witness:
  "\<exists>m' p. boot ata_ports demo_link (cold_machine demo_image hello) = Some m' \<and> booted demo_image 1 demo_link m' p
    \<and> translate (kmem (kern m')) (cr3 (paging m')) 0xFEDCBA98 = Some 0xFEDCBA98"
proof -
  obtain m' p where m': "boot ata_ports demo_link (cold_machine demo_image hello) = Some m'" "booted demo_image 1 demo_link m' p"
    using boot_ready [OF ata_ports_laws cold_machine_facts(2) demo_fat16_image cold_machine_facts(1)] by blast
  then have "translate (kmem (kern m')) (cr3 (paging m')) 0xFEDCBA98 = Some 0xFEDCBA98"
    by (simp add: booted_def)
  with m' show ?thesis by blast
qed

text \<open>The path \<open>0:/...\<close> of a regular file, in memory that booting leaves alone.\<close>

definition names_file :: "mem \<Rightarrow> addr \<Rightarrow> (int \<Rightarrow> byte) \<Rightarrow> nat \<Rightarrow> byte list \<Rightarrow> fat_directory_item \<Rightarrow> bool" where
  "names_file m filename img n nm item \<longleftrightarrow>
     is_cstring (at m filename) (0x30 # 0x3A # 0x2F # nm) \<and> length nm \<le> 253 \<and>
     (\<forall>k \<le> length nm + 3. let a = filename + int k
       in a < 32256 \<or> 57856 \<le> a \<and> a < 16777216 \<or> 121634816 \<le> a) \<and>
     file_at img n nm = Some item \<and> int n \<le> root_entries img"

text \<open>Booted, the file can be opened.\<close>

lemma boot_can_open:
  assumes ata: "ata_laws io drv" and dev: "idle_drive img (drv (dev (kern m)))" and img: "fat16_image img n"
    and cold: "cold (kern m)" and name: "names_file (kmem (kern m)) filename img n nm item"
  obtains m' p where "boot io l m = Some m'" "can_open img n (kern m') p filename nm item 0"
    "idle_drive img (drv (dev (kern m')))"
proof (rule boot_run [OF ata dev img cold, of l])
  fix m' p
  assume b: "boot io l m = Some m'" "booted img n l m' p" "idle_drive img (drv (dev (kern m')))"
    "spare_pages (kmem (kern m')) = 23545"
    and keep: "\<And>a. a < 32256 \<or> 57856 \<le> a \<and> a < 16777216 \<or> 121634816 \<le> a \<Longrightarrow>
       settled (kmem (kern m')) a \<and> kmem (kern m') a = kmem (kern m) a"
  note f = name [unfolded names_file_def Let_def]
  have same: "settled (kmem (kern m')) (filename + int j) \<and> kmem (kern m') (filename + int j) = kmem (kern m) (filename + int j)"
    if "j \<le> length nm + 3" for j
    using f that by (intro keep) blast
  have "is_cstring (at (kmem (kern m')) filename) (0x30 # 0x3A # 0x2F # nm)"
    by (rule is_cstring_cong [of _ _ _ "kmem (kern m)"]) (use f same in \<open>auto simp: eval_nat_numeral\<close>)
  moreover have "2 * length (split_slash nm) + 9 \<le> 23545" using split_slash_length [of nm] f by linarith
  ultimately have "can_open img n (kern m') p filename nm item 0"
    using b(2,4) f same by (simp add: can_open_def searchable_def first_free_def booted_def)
  then show thesis by (rule that [OF b(1) _ b(3)])
qed

text \<open>C3: the whole system, from power-on to the bytes of a file: after booting, opening a file by its path,
through any subdirectories, and reading \<open>sz * nmemb\<close> bytes into a buffer outside the heap and its table stores exactly the
first bytes the disk image holds for it, along its cluster chain.  Nothing else in memory has changed since the file was
opened, of the objects on the heap only the positions of streams (\<open>io_frame\<close>), and the heap and the descriptor are in order.\<close>

theorem boot_open_read:
  assumes "ata_laws io drv" and "idle_drive img (drv (dev (kern m)))" and "fat16_image img n"
    and "cold (kern m)" and "names_file (kmem (kern m)) filename img n nm item" and "mode_str 0 = 0x72"
    and "0 < sz" and "0 < nmemb" and "file_covers img item k (sz * nmemb)"
    and "free_buffer [] out (sz * nmemb)"
  shows "\<exists>m' fd s1 s2. boot io l m = Some m' \<and> fopen io filename mode_str (kern m') = Some (fd, s1) \<and> 0 < fd
    \<and> fread io out sz nmemb fd s1 = Some (0, s2)
    \<and> read_bytes (kmem s2) out (nat (sz * nmemb)) = take (nat (sz * nmemb)) (file_bytes img item k)
    \<and> (\<forall>a. a < out \<or> out + sz * nmemb \<le> a \<longrightarrow> kmem s2 a = kmem s1 a)
    \<and> io_frame s1 (s2\<lparr>kmem := kmem s1\<rparr>) \<and> heap_ok s2 \<and> open_fd s2 fd item 0"
proof (rule boot_can_open [OF assms(1-5), of l])
  fix m' p
  assume b: "boot io l m = Some m'" "can_open img n (kern m') p filename nm item 0" "idle_drive img (drv (dev (kern m')))"
  obtain s1 s2 where r: "fopen io filename mode_str (kern m') = Some (int 0 + 1, s1)" "opened img n (kern m') p nm item 0 s1"
    "fread io out sz nmemb (int 0 + 1) s1 = Some (0, s2)"
    "read_bytes (kmem s2) out (nat (sz * nmemb)) = take (nat (sz * nmemb)) (file_bytes img item k)"
    "\<forall>a. a < out \<or> out + sz * nmemb \<le> a \<longrightarrow> kmem s2 a = kmem s1 a"
    "open_fd s2 (int 0 + 1) item 0" "io_frame s1 (s2\<lparr>kmem := kmem s1\<rparr>)"
    by (rule open_and_read [where mode_str = mode_str and out = out, OF assms(1) b(3,2) assms(6-9)])
  have "heap_ok s1" using r(2) by (simp add: opened_def)
  then have "heap_ok s2" by (rule heap_ok_read [OF _ r(7) r(5) [rule_format] assms(10)])
  then show ?thesis using b(1) r(1,3-7) by auto
qed

theorem boot_open_read_witness:
  "\<exists>m' fd s1 s2. boot ata_ports demo_link (cold_machine tree_image tree_path) = Some m'
    \<and> fopen ata_ports 0x100000 (literal [0x72]) (kern m') = Some (fd, s1)
    \<and> fread ata_ports 0x200000 100 6 fd s1 = Some (0, s2)
    \<and> read_bytes (kmem s2) 0x200000 600 = take 600 (file_bytes tree_image demo_item 2)"
proof -
  have "0 \<notin> set tree_path" "length tree_path \<le> 253" by (simp_all add: tree_path_def hello_def)
  then have "names_file (kmem (kern (cold_machine tree_image tree_path))) 0x100000 tree_image 2 tree_path demo_item"
    using named_state_path [of tree_path tree_image] tree_file
    by (simp add: names_file_def cold_machine_facts tree_root)
  note boot_open_read [OF ata_ports_laws cold_machine_facts(2) tree_fat16_image cold_machine_facts(1) this]
  from this [of "literal [0x72]" 100 6 2 "0x200000" demo_link] tree_covers
  show ?thesis by (simp add: literal_def free_buffer_def) blast
qed

text \<open>C2: the whole system as its callers see it.  After booting, any sequence of file calls returns what the abstract table
of files over the disk image answers, from the empty table on, as long as the names of files lie where
neither the heap nor its table is, and the 23541 pages left for it before the reserve cover the cost of the calls.\<close>

theorem boot_file_calls:
  assumes "ata_laws io drv" and "idle_drive img (drv (dev (kern m)))" and "fat16_image img n"
    and "cold (kern m)" and "names_placed names (kmem (kern m))" and "int n \<le> root_entries img"
    and "sum_list (map (call_cost names) ops) \<le> 23541"
    and "execs (table_call img n names) Map.empty ops = Some (rs, tbl)"
  shows "\<exists>m' p s'. boot io l m = Some m' \<and> execs (file_call io) (kern m') ops = Some (rs, s')
    \<and> files_ok io drv img n p names 0 s' tbl"
proof (rule boot_run [OF assms(1-4), of l])
  fix m' p
  assume b: "boot io l m = Some m'" "booted img n l m' p" "idle_drive img (drv (dev (kern m')))"
    "spare_pages (kmem (kern m')) = 23545"
    and keep: "\<And>a. a < 32256 \<or> 57856 \<le> a \<and> a < 16777216 \<or> 121634816 \<le> a \<Longrightarrow>
       settled (kmem (kern m')) a \<and> kmem (kern m') a = kmem (kern m) a"
  have "names_placed names (kmem (kern m'))"
    by (rule names_placed_cong [OF assms(5)]) (use keep in \<open>simp add: outside_heap_def\<close>)
  moreover have "fd_table_ok (dir_item (root_directory p)) (kern m') Map.empty"
    using b(2) by (intro fd_table_empty) (simp add: booted_def)
  ultimately have "files_ok io drv img n p names (sum_list (map (call_cost names) ops) + 0) (kern m') Map.empty"
    using b(2-4) assms(1,6,7) by (simp add: files_ok_def volume_ok_def booted_def)
  from file_table.execs_implement [OF this assms(8)] b(1) show ?thesis by blast
qed

theorem boot_file_calls_witness:
  "\<exists>m' s'. boot ata_ports demo_link (cold_machine tree_image tree_path) = Some m'
    \<and> execs (file_call ata_ports) (kern m') session = Some (session_answers, s')"
proof -
  have len: "0 \<notin> set tree_path" "length tree_path = 17" "length (split_slash tree_path) = 3"
    by (simp_all add: tree_path_def split_slash.simps [of "_ # _"] hello_def)
  have names: "names_placed session_names (kmem (kern (cold_machine tree_image tree_path)))"
    using named_state_path [of tree_path tree_image] len
    by (simp add: names_placed_def session_names_def cold_machine_facts outside_heap_def)
  have "sum_list (map (call_cost session_names) session) \<le> 23541" using len by (simp add: session_def session_names_def)
  then show ?thesis
    using boot_file_calls [OF ata_ports_laws cold_machine_facts(2) tree_fat16_image cold_machine_facts(1) names _ _ session_run]
    by (simp add: tree_root) blast
qed

end
