(* ===== verification/Buffers.thy ===== *)
theory Buffers
  imports File_Table
begin

text \<open>
  Buffers on the kernel heap, as the reading demonstrations of \<open>kernel.c\<close> use them: taken with \<open>kheap_zalloc\<close>, written
  by a read, and released with \<open>kheap_free\<close>.  A buffer of several blocks comes back without its last block, which
  \<open>heap_free\<close> leaves taken; everything else on the heap is as before.
\<close>

section \<open>A run of several blocks\<close>

text \<open>All blocks from \<open>r\<close> on are free.\<close>

definition free_from :: "int \<Rightarrow> mem \<Rightarrow> bool" where
  "free_from r m \<longleftrightarrow> (\<forall>b. r \<le> b \<and> b < 25600 \<longrightarrow> is_free_block m (entry_addr kernel_heap b))"

lemma free_from_run:
  assumes "free_from r m" and "r + k \<le> 25600"
  shows "run_free m (entry_addr kernel_heap r) k"
  unfolding run_free_def
proof (intro allI impI)
  fix a
  assume "entry_addr kernel_heap r \<le> a \<and> a < entry_addr kernel_heap r + k"
  then show "is_free_block m a"
    using assms(1) [unfolded free_from_def, rule_format, of "a - 32256"] assms(2) by (simp add: entry_addr_def)
qed

lemma free_from_same:
  assumes "free_from r m" and "24576 \<le> r" and "reserve_same m m'"
  shows "free_from r m'"
  unfolding free_from_def
proof (intro allI impI)
  fix b
  assume b: "r \<le> b \<and> b < 25600"
  then have "m' (entry_addr kernel_heap b) = m (entry_addr kernel_heap b)"
    using assms(2,3) by (simp add: reserve_same_def entry_addr_def)
  then show "is_free_block m' (entry_addr kernel_heap b)"
    using assms(1) b is_free_block_cong [of m' "entry_addr kernel_heap b" m] by (simp add: free_from_def)
qed

lemma kheap_zalloc_run:
  assumes n: "0 < n" "n \<le> 2147479552" and free: "free_from r m" "0 \<le> r" "r + blocks_for n \<le> 25600"
  obtains b where "0 \<le> b" "b \<le> r" "run_free m (entry_addr kernel_heap b) (blocks_for n)"
    "kheap_zalloc kernel_heap n m =
      (block_addr kernel_heap b, memset (mark_run m (entry_addr kernel_heap b) (blocks_for n)) (block_addr kernel_heap b) 0 n)"
proof -
  have fits: "fits kernel_heap m r (blocks_for n)"
    using free free_from_run [OF free(1,3)] blocks_for_pos [OF n(1)] by (simp add: fits_def)
  from kernel_heap_layout n show thesis
  proof (cases rule: heap_malloc_cases [where m = m])
    case full
    then show ?thesis using fits by blast
  next
    case (found b)
    then have b: "0 \<le> b" "run_free m (entry_addr kernel_heap b) (blocks_for n)"
      by (simp_all add: first_fit_def fits_def)
    have "b \<le> r" using found(1) fits by (force simp: first_fit_def)
    then show ?thesis
      using b found(2) by (intro that [of b]) (simp_all add: kheap_zalloc_def kheap_malloc_def block_addr_def)
  qed
qed

text \<open>The memory after a run of \<open>k\<close> blocks from \<open>b\<close> on was taken, written and released.\<close>

definition run_released :: "mem \<Rightarrow> int \<Rightarrow> int \<Rightarrow> mem \<Rightarrow> bool" where
  "run_released m b k m' \<longleftrightarrow>
     (\<forall>c. 0 \<le> c \<and> c \<le> 25600 \<longrightarrow> m' (entry_addr kernel_heap c) =
        (if b \<le> c \<and> c < b + k - 1 then 0 else if c = b + k - 1 then run_entry k (k - 1) else m (entry_addr kernel_heap c))) \<and>
     (\<forall>a. (a < 32256 \<or> 57856 \<le> a) \<and> (a < block_addr kernel_heap b \<or> block_addr kernel_heap (b + k) \<le> a) \<longrightarrow> m' a = m a)"

lemma kheap_free_run:
  assumes b: "0 \<le> b" "b + k \<le> 25600" "2 \<le> k"
    and t: "\<And>a. a < block_addr kernel_heap b \<or> block_addr kernel_heap (b + k) \<le> a \<Longrightarrow> t a = mark_run m (entry_addr kernel_heap b) k a"
  obtains m' where "kheap_free kernel_heap (block_addr kernel_heap b) t = Some (block_addr kernel_heap (b + k - 1), m')"
    "run_released m b k m'"
proof -
  let ?e = "entry_addr kernel_heap b"
  define j where "j = nat (k - 2)"
  have k: "k = int j + 2" using b(3) by (simp add: j_def)
  have low: "t (entry_addr kernel_heap c) = mark_run m ?e k (entry_addr kernel_heap c)" if "0 \<le> c" "c \<le> 25600" for c
    by (rule t) (use that b in \<open>simp add: entry_addr_def block_addr_def\<close>)
  have chain: "heap_table_entry_has_next t (entry_addr kernel_heap (b + i)) \<longleftrightarrow> i < k - 1" if "0 \<le> i" "i < k" for i
    using mark_run_has_next [OF that, of m ?e] low [of "b + i"] that b
      has_next_cong [of t "entry_addr kernel_heap (b + i)" "mark_run m ?e k"]
    by (simp add: entry_addr_def add.assoc)
  have "kheap_free kernel_heap (block_addr kernel_heap b) t =
      Some (block_addr kernel_heap (b + int (Suc j)), cleared t (block_addr kernel_heap b) ?e (Suc j))"
    unfolding kheap_free_def
    by (rule heap_free_run [OF kernel_heap_layout b(1)]) (use b k chain in simp_all)
  moreover have "run_released m b k (cleared t (block_addr kernel_heap b) ?e (Suc j))"
    unfolding run_released_def
  proof (intro conjI allI impI)
    fix c :: int
    assume c: "0 \<le> c \<and> c \<le> 25600"
    then have "cleared t (block_addr kernel_heap b) ?e (Suc j) (entry_addr kernel_heap c) =
        (if b \<le> c \<and> c < b + k - 1 then 0 else t (entry_addr kernel_heap c))"
      using b k by (auto simp: cleared_def entry_addr_def block_addr_def)
    then show "cleared t (block_addr kernel_heap b) ?e (Suc j) (entry_addr kernel_heap c) =
        (if b \<le> c \<and> c < b + k - 1 then 0 else if c = b + k - 1 then run_entry k (k - 1) else m (entry_addr kernel_heap c))"
      using low [of c] c b by (cases "c = b + k - 1") (auto simp: mark_run_def entry_addr_def)
  next
    fix a
    assume a: "(a < 32256 \<or> 57856 \<le> a) \<and> (a < block_addr kernel_heap b \<or> block_addr kernel_heap (b + k) \<le> a)"
    then have "t a = m a" using t [of a] b by (auto simp: mark_run_def entry_addr_def)
    then show "cleared t (block_addr kernel_heap b) ?e (Suc j) a = m a"
      using a b k by (auto simp: cleared_def entry_addr_def block_addr_def)
  qed
  ultimately show thesis using k by (intro that) (simp_all add: algebra_simps)
qed

text \<open>What is left: a heap in order, with one more block taken that nobody uses.\<close>

lemma run_released_table:
  assumes rel: "run_released m b k m'" and b: "0 \<le> b" "b + k \<le> 25600" "2 \<le> k"
    and free: "run_free m (entry_addr kernel_heap b) k"
  shows "unchained m \<Longrightarrow> unchained m'"
    and "owned kernel_heap m' a \<longleftrightarrow> owned kernel_heap m a \<or> block_of kernel_heap a = b + k - 1"
    and "spare_pages m \<le> Suc (spare_pages m')"
    and "free_from r m \<Longrightarrow> b \<le> r \<Longrightarrow> free_from (r + k) m'"
proof -
  let ?e = "entry_addr kernel_heap"
  have entry: "m' (?e c) = (if b \<le> c \<and> c < b + k - 1 then 0 else if c = b + k - 1 then run_entry k (k - 1) else m (?e c))"
    if "0 \<le> c" "c \<le> 25600" for c using rel that by (simp add: run_released_def)
  have last: "run_entry k (k - 1) = 1" using b(3) by (simp add: run_entry_def)
  have was: "is_free_block m (?e c)" if "b \<le> c" "c < b + k" for c
    using free that by (simp add: run_free_def entry_addr_def)
  have now: "is_free_block m' (?e c) \<longleftrightarrow> is_free_block m (?e c) \<and> c \<noteq> b + k - 1" if "0 \<le> c" "c < 25600" for c
    using entry [of c] was [of c] that b(3) by (auto simp: is_free_block_def last)
  show "unchained m'" if "unchained m"
    unfolding unchained_def
  proof (intro allI impI)
    fix c :: int
    assume "0 \<le> c \<and> c \<le> 25600"
    then show "\<not> heap_table_entry_has_next m' (?e c)"
      using that entry [of c] has_next_cong [of m' "?e c" m]
      by (cases "b \<le> c \<and> c \<le> b + k - 1") (auto simp: heap_table_entry_has_next_def last unchained_def)
  qed
  show "owned kernel_heap m' a \<longleftrightarrow> owned kernel_heap m a \<or> block_of kernel_heap a = b + k - 1"
    using now [of "block_of kernel_heap a"] b by (auto simp: owned_def)
  show "free_from (r + k) m'" if "free_from r m" "b \<le> r"
    using that now b by (auto simp: free_from_def)
  let ?A = "\<lambda>m. {c. c < 24576 \<and> is_free_block m (?e (int c))}"
  have "?A m \<subseteq> insert (nat (b + k - 1)) (?A m')" using now by auto
  then have "card (?A m) \<le> card (insert (nat (b + k - 1)) (?A m'))" by (intro card_mono) simp_all
  also have "\<dots> \<le> Suc (card (?A m'))" by (rule card_insert_le_m1) simp_all
  finally show "spare_pages m \<le> Suc (spare_pages m')" by (simp add: free_below_card)
qed

section \<open>Files and a buffer\<close>

text \<open>Another memory under the same objects.\<close>

lemma inhabitants_mem [simp]: "inhabitants (s\<lparr>kmem := m\<rparr>) a = inhabitants s a"
  by (simp add: inhabitants_def)

lemma files_ok_mem:
  assumes ok: "files_ok io drv img n fp names k (t\<lparr>kmem := m\<rparr>) tbl" and table: "unchained m'"
    and own: "\<And>a. owned kernel_heap m a \<Longrightarrow> owned kernel_heap m' a"
    and out: "\<And>a. outside_heap a \<Longrightarrow> m' a = m a" and spare: "k' + spare_pages m \<le> k + spare_pages m'"
  shows "files_ok io drv img n fp names k' (t\<lparr>kmem := m'\<rparr>) tbl"
proof -
  note p = files_ok_parts [OF ok]
  have was: "inhabitants t a \<le> of_bool (page_start m a)" for a using p(4) by (simp add: heap_ok_def)
  have start: "page_start m a \<Longrightarrow> page_start m' a" for a using own by (simp add: page_start_def)
  have "inhabitants t a \<le> of_bool (page_start m' a)" for a
    using was [of a] start [of a] by (cases "page_start m a") simp_all
  then have "heap_ok (t\<lparr>kmem := m'\<rparr>)" using p(4) table by (simp add: heap_ok_def)
  moreover have "mounted img n (t\<lparr>kmem := m'\<rparr>) fp" by (rule mounted_cong [OF p(3)]) simp_all
  moreover have "names_placed names m'" by (rule names_placed_cong [OF p(5)]) (simp add: out)
  ultimately have "volume_ok io drv img n fp names k' (t\<lparr>kmem := m'\<rparr>)"
    using p(7) spare by (simp add: volume_ok_def)
  moreover have "fd_table_ok (dir_item (root_directory fp)) (t\<lparr>kmem := m'\<rparr>) tbl"
    by (rule fd_table_same [OF p(6)]) (simp_all add: agree_on_def)
  ultimately show ?thesis by (simp add: files_ok_def)
qed

text \<open>
  A buffer of \<open>len\<close> zero bytes at \<open>p\<close>, taken in \<open>s\<close>: whatever is done to files and to the bytes of the buffer in between,
  releasing it leaves everything in order, at the cost of at most one page.
\<close>

definition lends ::
    "'d ports \<Rightarrow> ('d \<Rightarrow> ata) \<Rightarrow> (int \<Rightarrow> byte) \<Rightarrow> nat \<Rightarrow> fat_private_t \<Rightarrow> (addr \<times> byte list) list \<Rightarrow> nat \<Rightarrow> nat \<Rightarrow> 'd kstate \<Rightarrow> addr \<Rightarrow> mem \<Rightarrow> bool"
  where
  "lends io drv img n fp names k len s p m \<longleftrightarrow>
     kzalloc len s = (p, s\<lparr>kmem := m\<rparr>) \<and> 57857 \<le> p \<and> (\<forall>a. p \<le> a \<and> a < p + int len \<longrightarrow> m a = 0) \<and>
     (\<forall>t tbl. files_ok io drv img n fp names (Suc k) (t\<lparr>kmem := kmem s\<rparr>) tbl \<and>
        (\<forall>a. a < p \<or> p + int len \<le> a \<longrightarrow> kmem t a = m a) \<longrightarrow>
        (\<exists>m'. kfree p t = Some (t\<lparr>kmem := m'\<rparr>) \<and> files_ok io drv img n fp names k (t\<lparr>kmem := m'\<rparr>) tbl))"

lemma drop_objects_none:
  assumes "\<And>a. p \<le> a \<Longrightarrow> a < e \<Longrightarrow> inhabitants t a = 0"
  shows "drop_objects p e t = t"
proof -
  note none = assms [unfolded inhabitants_def]
  have "outside p e (streamers t) = streamers t" "outside p e (path_parts t) = path_parts t"
    "outside p e (path_roots t) = path_roots t" "outside p e (file_descs t) = file_descs t"
    "outside p e (fat_privates t) = fat_privates t" "outside p e (dir_items t) = dir_items t"
    "outside p e (directories t) = directories t" "outside p e (fat_items t) = fat_items t"
    "outside p e (fat_descs t) = fat_descs t"
    by (rule ext, use none in \<open>simp add: outside_def\<close>)+
  then show ?thesis by (simp add: drop_objects_def)
qed

lemma long_buffer:
  assumes ok: "files_ok io drv img n fp names (Suc k) s tbl" and len: "4096 < len" "len \<le> 2147479552"
    and free: "free_from r (kmem s)" "0 \<le> r" "r + blocks_for len \<le> 25600"
  obtains p m where "lends io drv img n fp names k len s p m"
proof -
  let ?k = "blocks_for len" and ?h = kernel_heap
  have k: "2 \<le> ?k" using len(1) blocks_for_covers(1) [of len] by linarith
  have kh: "kheap s = ?h" using heap_ok_fields(1) [OF files_ok_parts(4) [OF ok]] .
  obtain b where b: "0 \<le> b" "b \<le> r" "run_free (kmem s) (entry_addr ?h b) ?k"
    "kheap_zalloc ?h len (kmem s) = (block_addr ?h b, memset (mark_run (kmem s) (entry_addr ?h b) ?k) (block_addr ?h b) 0 len)"
    by (rule kheap_zalloc_run [OF _ len(2) free]) (use len in simp)
  have bk: "b + ?k \<le> 25600" using b(2) free(3) by simp
  define p where "p = block_addr ?h b"
  define m where "m = memset (mark_run (kmem s) (entry_addr ?h b) ?k) p 0 len"
  have top: "p + int len \<le> block_addr ?h (b + ?k)"
    using blocks_for_covers(1) [of len] by (simp add: p_def block_addr_def)
  have empty: "\<not> owned ?h (kmem s) a" if "p \<le> a" "a < block_addr ?h (b + ?k)" for a
  proof -
    have "b \<le> block_of ?h a" "block_of ?h a < b + ?k"
      using that block_of_bounds [of ?h a] by (simp_all add: p_def block_addr_def)
    then show ?thesis using b(3) by (simp add: owned_def run_free_def entry_addr_def)
  qed
  have returns: "\<exists>m'. kfree p t = Some (t\<lparr>kmem := m'\<rparr>) \<and> files_ok io drv img n fp names k (t\<lparr>kmem := m'\<rparr>) tbl'"
    if t: "files_ok io drv img n fp names (Suc k) (t\<lparr>kmem := kmem s\<rparr>) tbl'"
      "\<forall>a. a < p \<or> p + int len \<le> a \<longrightarrow> kmem t a = m a" for t tbl'
  proof -
    have same: "kmem t a = mark_run (kmem s) (entry_addr ?h b) ?k a"
      if "a < block_addr ?h b \<or> block_addr ?h (b + ?k) \<le> a" for a
      using t(2) that top by (auto simp: m_def p_def memset_out)
    obtain m' where m': "kheap_free ?h p (kmem t) = Some (block_addr ?h (b + ?k - 1), m')" "run_released (kmem s) b ?k m'"
      unfolding p_def by (rule kheap_free_run [OF b(1) bk k same])
    note tab = run_released_table [OF m'(2) b(1) bk k b(3)]
    have ht: "heap_ok (t\<lparr>kmem := kmem s\<rparr>)" by (rule files_ok_parts(4) [OF t(1)])
    have "inhabitants t a = 0" if "p \<le> a" "a < block_addr ?h (b + ?k - 1)" for a
      using ht empty [of a] that by (auto simp: heap_ok_def page_start_def block_addr_def dest: spec [of _ a])
    then have drop: "drop_objects p (block_addr ?h (b + ?k - 1)) t = t" by (rule drop_objects_none)
    have "kfree p t = Some ((drop_objects p (block_addr ?h (b + ?k - 1)) t)\<lparr>kmem := m'\<rparr>)"
      using m'(1) heap_ok_fields(1) [OF ht] by (simp add: kfree_def drop_objects_def)
    then have "kfree p t = Some (t\<lparr>kmem := m'\<rparr>)" unfolding drop .
    moreover have "m' a = kmem s a" if "outside_heap a" for a
      using m'(2) that b(1) bk by (auto simp: run_released_def outside_heap_def block_addr_def)
    then have "files_ok io drv img n fp names k (t\<lparr>kmem := m'\<rparr>) tbl'"
      using tab(1) heap_ok_fields(2) [OF ht] tab(2,3) by (intro files_ok_mem [OF t(1)]) simp_all
    ultimately show ?thesis by blast
  qed
  have "m a = 0" if "p \<le> a" "a < p + int len" for a using that by (simp add: m_def memset_in)
  moreover have "kzalloc len s = (p, s\<lparr>kmem := m\<rparr>)" using b(4) kh by (simp add: kzalloc_def p_def m_def)
  ultimately have "lends io drv img n fp names k len s p m"
    using returns b(1) by (simp add: lends_def p_def block_addr_def)
  then show thesis by (rule that)
qed

lemma short_buffer:
  assumes ok: "files_ok io drv img n fp names (Suc k) s tbl" and len: "0 < len" "len \<le> 4096"
  obtains p m where "lends io drv img n fp names k len s p m"
proof -
  note parts = files_ok_parts [OF ok]
  have "0 < spare_pages (kmem s)" using parts(7) by (simp add: volume_ok_def)
  then obtain p m where p: "kzalloc len s = (p, s\<lparr>kmem := m\<rparr>)" "heap_ok (s\<lparr>kmem := m\<rparr>)" "page_start m p"
    "\<not> owned kernel_heap (kmem s) p" "spare_pages (kmem s) = Suc (spare_pages m)" "grows (kmem s) m"
    using kzalloc_page [OF parts(4) _ len] by metis
  have pool: "16777216 \<le> p" using owned_pool [of m p] p(3) by (simp add: page_start_def)
  have returns: "\<exists>m'. kfree p t = Some (t\<lparr>kmem := m'\<rparr>) \<and> files_ok io drv img n fp names k (t\<lparr>kmem := m'\<rparr>) tbl'"
    if t: "files_ok io drv img n fp names (Suc k) (t\<lparr>kmem := kmem s\<rparr>) tbl'"
      "\<forall>a. a < p \<or> p + int len \<le> a \<longrightarrow> kmem t a = m a" for t tbl'
  proof -
    have ht: "heap_ok (t\<lparr>kmem := kmem s\<rparr>)" by (rule files_ok_parts(4) [OF t(1)])
    have hm: "heap_ok (t\<lparr>kmem := m\<rparr>)"
      using heap_ok_grows [OF ht heap_ok_fields(2) [OF p(2), simplified]] p(6) by simp
    have low: "kmem t a = kmem (t\<lparr>kmem := m\<rparr>) a" if "a < 57857" for a using t(2) pool that by simp
    have hk: "heap_ok t" using heap_ok_above(1) [OF hm low] by simp
    have start: "page_start (kmem t) p" using heap_ok_above(2) [OF hm low] p(3) by simp
    have "inhabitants t p = 0" using ht p(4) by (auto simp: heap_ok_def page_start_def dest: spec [of _ p])
    then obtain m' where m': "kfree p t = Some (t\<lparr>kmem := m'\<rparr>)" "released p t (t\<lparr>kmem := m'\<rparr>)"
      by (rule kfree_raw [OF hk start])
    have give: "gives_back p (kmem t) m'" using m'(2) by (simp add: released_def)
    have kept: "owned kernel_heap (kmem t) a \<and> \<not> (p \<le> a \<and> a < p + 4096)" if "owned kernel_heap (kmem s) a" for a
      using above_table_frame(1) [of kernel_heap "kmem t" m a] low growsD(1) [OF p(6) that] that p(3,4) owned_page [of p a "kmem s"]
      by (auto simp: page_start_def)
    have same: "m' a = kmem s a" if a: "outside_heap a" for a
    proof -
      have "p + 4096 \<le> 117444608" using p(3) by (simp add: page_start_def)
      then have "\<not> (p \<le> a \<and> a < p + 4096)" using a pool by (auto simp: outside_heap_def)
      then have "m' a = kmem t a" "kmem t a = m a"
        using give outside_heap_settled [OF a] t(2) len(2) by (auto simp: gives_back_def)
      then show ?thesis using growsD(3) [OF p(6) outside_heap_settled [OF a]] by simp
    qed
    have "spare_pages m' = spare_pages (kmem s)"
      using m'(2) p(5) above_table_frame(3) [of kernel_heap "kmem t" m 24576] low by (simp add: released_def)
    then have "files_ok io drv img n fp names k (t\<lparr>kmem := m'\<rparr>) tbl'"
      using heap_ok_fields(2) [of "t\<lparr>kmem := m'\<rparr>"] m'(2) give kept same
      by (intro files_ok_mem [OF t(1)]) (auto simp: released_def gives_back_def)
    then show ?thesis using m'(1) by blast
  qed
  have "kheap s = kernel_heap" by (rule heap_ok_fields(1) [OF parts(4)])
  then have z: "kheap_zalloc kernel_heap len (kmem s) = (p, m)"
    using p(1) unfolding kzalloc_def by (auto simp: Let_def split: prod.splits dest: arg_cong [of _ _ kmem])
  have "m a = 0" if "p \<le> a" "a < p + int len" for a
    using kh.alloc_zero [OF len z] that pool by simp
  then have "lends io drv img n fp names k len s p m" using p(1) pool returns by (simp add: lends_def)
  then show thesis by (rule that)
qed

section \<open>Reading into a buffer\<close>

lemma files_ok_kept:
  assumes ok: "files_ok io drv img n fp names k s tbl" and kept: "kept s s'" and heap: "heap_ok s'"
    and dev: "idle_drive img (drv (dev s'))" and free: "spare_pages (kmem s) \<le> spare_pages (kmem s')"
  shows "files_ok io drv img n fp names k s' tbl"
proof -
  note p = files_ok_parts [OF ok]
  have "volume_ok io drv img n fp names (0 + k) s'"
    using p(7) heap dev free mounted_kept [OF p(3,4) kept] names_placed_grows [OF p(5) kept_fields(8) [OF kept]]
    by (simp add: volume_ok_def)
  moreover have "fd_table_ok (dir_item (root_directory fp)) s' tbl"
    by (rule fd_table_same [OF p(6) agree_used [OF p(4,6) agree_kept [OF kept]] kept_fields(3) [OF kept]])
  ultimately show ?thesis by (simp add: files_ok_def)
qed

lemma io_frame_mem: "io_frame u (t\<lparr>kmem := kmem u\<rparr>) \<Longrightarrow> io_frame (u\<lparr>kmem := m\<rparr>) (t\<lparr>kmem := m\<rparr>)"
  by (cases u, cases t) (simp add: io_frame_def on_root_def)

text \<open>\<open>fseek\<close> does not look at the memory.\<close>

lemma fseek_mem:
  "fseek fd offset whence (s\<lparr>kmem := m\<rparr>) = map_option (\<lambda>(r, s). (r, s\<lparr>kmem := m\<rparr>)) (fseek fd offset whence s)"
proof -
  have fat: "fat16_seek p offset whence (s\<lparr>kmem := m\<rparr>) =
      map_option (\<lambda>(r, s). (r, s\<lparr>kmem := m\<rparr>)) (fat16_seek p offset whence s)" for p
    by (auto simp: fat16_seek_def item_at_def Let_def split: Option.bind_split)
  have vfs: "vfs_seek f p offset whence (s\<lparr>kmem := m\<rparr>) =
      map_option (\<lambda>(r, s). (r, s\<lparr>kmem := m\<rparr>)) (vfs_seek f p offset whence s)" for f p
    by (simp add: vfs_seek_def fat split: option.split fs_impl.split)
  have get: "file_get_descriptor fd (s\<lparr>kmem := m\<rparr>) = file_get_descriptor fd s"
    by (simp add: file_get_descriptor_def)
  show ?thesis by (auto simp: fseek_def get vfs split: Option.bind_split)
qed

text \<open>The string that the bytes of a buffer make up to the first zero.\<close>

definition until_zero :: "byte list \<Rightarrow> byte list" where
  "until_zero bs = takeWhile (\<lambda>c. c \<noteq> 0) bs"

lemma until_zero_cstring:
  assumes "\<And>i. i < length bs \<Longrightarrow> s (int i) = bs ! i" and "s (int (length bs)) = 0"
  shows "is_cstring s (until_zero bs)"
proof -
  let ?n = "length (until_zero bs)"
  have le: "?n \<le> length bs" by (simp add: until_zero_def length_takeWhile_le)
  have nth: "until_zero bs ! i = bs ! i" if "i < ?n" for i using that by (simp add: until_zero_def takeWhile_nth)
  have "s (int ?n) = 0"
  proof (cases "?n = length bs")
    case False
    then show ?thesis using assms(1) [of ?n] le nth_length_takeWhile [of "\<lambda>c. c \<noteq> 0" bs] by (simp add: until_zero_def)
  qed (use assms(2) in simp)
  moreover have "0 \<notin> set (until_zero bs)" by (auto simp: until_zero_def dest: set_takeWhileD)
  ultimately show ?thesis using assms(1) nth le by (simp add: is_cstring_def)
qed

text \<open>The file calls while a buffer is out: the state \<open>u\<close>, in order but for its memory.\<close>

lemma fseek_lent:
  assumes ok: "files_ok io drv img n fp names k (u\<lparr>kmem := m\<rparr>) tbl" and spec: "table_call img n names tbl (Seek fd offset whence) = Some (Result r, tbl')"
  obtains u' where "fseek fd offset whence u = Some (r, u')" "files_ok io drv img n fp names k (u'\<lparr>kmem := m\<rparr>) tbl'"
    "kmem u' = kmem u"
proof -
  obtain v where v: "file_call io (u\<lparr>kmem := m\<rparr>) (Seek fd offset whence) = Some (Result r, v)" "files_ok io drv img n fp names k v tbl'"
    by (rule file_call_implements [of io drv img n fp names "Seek fd offset whence" k, OF _ spec]) (use ok in simp)
  have "fseek fd offset whence (u\<lparr>kmem := m\<rparr>) = Some (r, v)" using v(1) by (auto simp: bind_eq_Some_conv)
  then obtain u' where u': "fseek fd offset whence u = Some (r, u')" "v = u'\<lparr>kmem := m\<rparr>"
    using fseek_mem [of fd offset whence m u] by auto
  have "u' = u'\<lparr>kmem := kmem u\<rparr>" using fseek_mem [of fd offset whence "kmem u" u] u'(1) by simp
  then have "kmem u' = kmem (u'\<lparr>kmem := kmem u\<rparr>)" by (rule arg_cong)
  then have "kmem u' = kmem u" by simp
  then show thesis using that u' v(2) by simp
qed

lemma fread_lent:
  assumes ok: "files_ok io drv img n fp names k (u\<lparr>kmem := m\<rparr>) tbl" and fd: "tbl fd = Some (item, pos)" and len: "0 < sz" "0 < nmemb"
    and cover: "file_covers img item (clusters_for img (pos + sz * nmemb)) (pos + sz * nmemb)"
  obtains t where "fread io out sz nmemb fd u = Some (0, t)" "files_ok io drv img n fp names k (t\<lparr>kmem := m\<rparr>) tbl"
    "kmem t = write_bytes (kmem u) out (file_slice img item pos (sz * nmemb))"
    "length (file_slice img item pos (sz * nmemb)) = nat (sz * nmemb)"
proof -
  note p = files_ok_parts [OF ok]
  have vol: "mounted img n u fp" by (rule mounted_cong [OF p(3)]) simp_all
  have open': "open_fd u fd item pos" "0 \<le> pos" using p(6) fd by (simp_all add: fd_table_ok_def)
  have dev: "idle_drive img (drv (dev u))" using p(2) by simp
  obtain t where t: "fread io out sz nmemb fd u = Some (0, t)" "kmem t = write_bytes (kmem u) out (file_slice img item pos (sz * nmemb))"
    "length (file_slice img item pos (sz * nmemb)) = nat (sz * nmemb)" "idle_drive img (drv (dev t))" "io_frame u (t\<lparr>kmem := kmem u\<rparr>)"
    by (rule fread_slice [OF p(1) dev vol open' len cover])
  note frame = io_frame_mem [OF t(5), of m]
  have "files_ok io drv img n fp names k (t\<lparr>kmem := m\<rparr>) tbl"
    by (rule files_ok_kept [OF ok kept_io [OF frame] heap_ok_io [OF p(4) frame]]) (use t(4) in simp_all)
  then show thesis using that t(1-3) by blast
qed

text \<open>
  Reading into a buffer, cutting its contents off at offset \<open>z\<close>, releasing the buffer and closing the file.
\<close>

lemma read_and_release:
  assumes lend: "lends io drv img n fp names k len s p m" and u: "kmem u = m" "files_ok io drv img n fp names (Suc k) (u\<lparr>kmem := kmem s\<rparr>) tbl"
    and fd: "tbl fd = Some (item, pos)" "fd \<noteq> 0" and sz: "0 < sz" "0 < nmemb" "sz * nmemb \<le> z" "z < int len"
    and cover: "file_covers img item (clusters_for img (pos + sz * nmemb)) (pos + sz * nmemb)"
  obtains t k1 k2 where "fread io p sz nmemb fd u = Some (0, t)"
    "is_cstring (at ((kmem t)(p + z := 0)) p) (until_zero (file_slice img item pos (sz * nmemb)))"
    "length (until_zero (file_slice img item pos (sz * nmemb))) \<le> nat (sz * nmemb)"
    "kfree p (t\<lparr>kmem := (kmem t)(p + z := 0)\<rparr>) = Some k1" "fclose fd k1 = Some (0, k2)"
    "files_ok io drv img n fp names k k2 (tbl(fd := None))"
proof -
  let ?bs = "file_slice img item pos (sz * nmemb)"
  obtain t where t: "fread io p sz nmemb fd u = Some (0, t)" "files_ok io drv img n fp names (Suc k) (t\<lparr>kmem := kmem s\<rparr>) tbl"
    "kmem t = write_bytes (kmem u) p ?bs" "length ?bs = nat (sz * nmemb)"
    by (rule fread_lent [OF u(2) fd(1) sz(1,2) cover])
  let ?m = "(kmem t)(p + z := 0)"
  have nonneg: "0 < sz * nmemb" using sz(1,2) by simp
  have bytes: "at ?m p (int i) = ?bs ! i" if "i < length ?bs" for i
  proof -
    have "int i < z" using that t(4) sz(3) by linarith
    then show ?thesis using that by (simp add: at_def t(3) write_bytes_in)
  qed
  have "m (p + sz * nmemb) = 0" using lend nonneg sz(3,4) by (simp add: lends_def)
  then have "at ?m p (int (length ?bs)) = 0"
    using t(4) nonneg by (simp add: at_def t(3) u(1) write_bytes_out)
  then have str: "is_cstring (at ?m p) (until_zero ?bs)" using bytes by (intro until_zero_cstring) auto
  have "?m a = m a" if "a < p \<or> p + int len \<le> a" for a
    using that t(4) nonneg sz(3,4) by (auto simp: t(3) u(1) write_bytes_out)
  then obtain m' where m': "kfree p (t\<lparr>kmem := ?m\<rparr>) = Some (t\<lparr>kmem := m'\<rparr>)" "files_ok io drv img n fp names k (t\<lparr>kmem := m'\<rparr>) tbl"
    using lend [unfolded lends_def] t(2) by (auto dest!: spec [of _ "t\<lparr>kmem := ?m\<rparr>"] spec [of _ tbl])
  have "table_call img n names tbl (Close fd) = Some (Result 0, tbl(fd := None))" using fd by simp
  then obtain k2 where k2: "file_call io (t\<lparr>kmem := m'\<rparr>) (Close fd) = Some (Result 0, k2)" "files_ok io drv img n fp names k k2 (tbl(fd := None))"
    by (rule file_call_implements [of io drv img n fp names "Close fd" k, rotated]) (use m'(2) in simp_all)
  have "length (until_zero ?bs) \<le> nat (sz * nmemb)"
    using length_takeWhile_le [of "\<lambda>c. c \<noteq> 0" ?bs] by (simp add: until_zero_def t(4))
  then show thesis using t(1) str m'(1) k2 by (intro that [of t]) (auto simp: bind_eq_Some_conv)
qed

end
