(* ===== verification/Demonstrations.thy ===== *)
theory Demonstrations
  imports Boot Buffers
begin

text \<open>
  The demonstrations that \<open>kernel_main\<close> runs after booting, up to \<open>demo_fopen\<close>: what they print, and that they
  leave files, volume, heap and the heap's reserve in order.
\<close>

section \<open>The path parser\<close>

lemma parse_and_free_kept:
  assumes ok: "heap_ok (kern m)" and str: "is_cstring (at (kmem (kern m)) (lit l path)) (d # 0x3A # 0x2F # nm)"
    and digit: "is_digit d" "length nm \<le> 253" and settled: "\<forall>i \<le> length nm + 3. settled (kmem (kern m)) (lit l path + int i)"
    and free: "2 * length (split_slash nm) + 1 \<le> spare_pages (kmem (kern m))"
  obtains k where "parse_and_free l path m = Some (m\<lparr>kern := k\<rparr>)" "kept (kern m) k" "heap_ok k" "dev k = dev (kern m)"
    "spare_pages (kmem k) = spare_pages (kmem (kern m))"
proof -
  let ?s = "kern m"
  have fp0: "0 < spare_pages (kmem ?s)" using free by simp
  obtain root m0 where r: "kzalloc 8 ?s = (root, ?s\<lparr>kmem := m0\<rparr>)" "0 < root" "heap_ok (?s\<lparr>kmem := m0\<rparr>)"
    "page_start m0 root" "inhabitants ?s root = 0" "\<not> owned kernel_heap (kmem ?s) root"
    "spare_pages (kmem ?s) = Suc (spare_pages m0)" "grows (kmem ?s) m0"
    by (rule kzalloc_page [OF ok fp0, of 8]) auto
  define s0 where "s0 = ?s\<lparr>kmem := m0, path_roots := (path_roots ?s)(root \<mapsto> zero_path_root)\<rparr>"
  have ok0: "heap_ok s0" "path_roots s0 root = Some zero_path_root"
    using heap_ok_new(3) [OF r(3), of root zero_path_root] r(4,5) by (simp_all add: s0_def inhabitants_def)
  have keep0: "settled (kmem s0) a \<and> kmem s0 a = kmem ?s a" if "settled (kmem ?s) a" for a
    using growsD(2,3) [OF r(8) that] by (simp add: s0_def)
  have str0: "is_cstring (at (kmem s0) (lit l path)) (d # 0x3A # 0x2F # nm)"
    by (rule is_cstring_cong [OF _ str]) (use settled keep0 in \<open>auto simp: eval_nat_numeral\<close>)
  have settled0: "\<forall>i \<le> length nm + 3. settled (kmem s0) (lit l path + int i)" using settled keep0 by blast
  have free0: "2 * length (split_slash nm) \<le> spare_pages (kmem s0)" using free r(7) by (simp add: s0_def)
  obtain s1 s2 where f: "pparser_parse_path_root (lit l path) root s0 = Some (0, s1)" "pparser_free_path_root root s1 = Some s2"
    "heap_ok s2" "spare_pages (kmem s2) = Suc (spare_pages (kmem s0))"
    "s2 = s0\<lparr>kmem := kmem s2, path_roots := (path_roots s0)(root := None)\<rparr>"
    "\<forall>m0. grows m0 (kmem s0) \<longrightarrow> \<not> owned kernel_heap m0 root \<longrightarrow> grows m0 (kmem s2)"
    by (rule parse_and_free_root [OF ok0 str0 digit settled0 free0]) blast
  have "path_roots ?s root = None" using r(5) by (auto simp: inhabitants_def split: if_splits)
  then have "(path_roots ?s)(root := None) = path_roots ?s" by auto
  then have s2: "s2 = ?s\<lparr>kmem := kmem s2\<rparr>" using f(5) by (simp add: s0_def)
  have "grows (kmem ?s) (kmem s2)" using f(6) r(6,8) by (simp add: s0_def)
  then have "kept ?s s2" by (subst s2) (rule kept_mem [OF kept_refl])
  moreover have "parse_and_free l path m = Some (m\<lparr>kern := s2\<rparr>)"
    using r(1,2) f(1,2) by (simp add: parse_and_free_def s0_def [symmetric] Let_def)
  moreover have "dev s2 = dev ?s" by (subst s2) simp
  ultimately show thesis using f(3,4) r(7) by (intro that [of s2]) (simp_all add: s0_def)
qed

section \<open>The disk stream\<close>

lemma demo_disk_streamer_kept:
  assumes ata: "ata_laws io drv" and dev: "idle_drive img (drv (dev (kern m)))" and ok: "heap_ok (kern m)"
    and free: "0 < spare_pages (kmem (kern m))"
  obtains k where "demo_disk_streamer io m = Some (m\<lparr>kern := k\<rparr>)" "kept (kern m) k" "heap_ok k"
    "idle_drive img (drv (dev k))" "spare_pages (kmem k) = spare_pages (kmem (kern m))"
proof -
  let ?s = "kern m"
  obtain p mm where n: "disk_streamer_new 0 ?s = Some (p, ?s\<lparr>kmem := mm, streamers := (streamers ?s)(p \<mapsto> fresh_stream)\<rparr>)"
    "heap_ok (?s\<lparr>kmem := mm, streamers := (streamers ?s)(p \<mapsto> fresh_stream)\<rparr>)" "inhabitants ?s p = 0"
    "\<not> owned kernel_heap (kmem ?s) p" "page_start mm p"
    "spare_pages (kmem ?s) = Suc (spare_pages mm)" "grows (kmem ?s) mm"
    by (rule disk_streamer_new_page [OF ok free])
  define s1 where "s1 = ?s\<lparr>kmem := mm, streamers := (streamers ?s)(p \<mapsto> fresh_stream)\<rparr>"
  have none: "streamers ?s p = None" using n(3) by (auto simp: inhabitants_def split: if_splits)
  have s1: "idle_drive img (drv (dev s1))" "on_root s1 p" using dev by (simp_all add: s1_def on_root_def)
  obtain s2 s3 where r: "disk_streamer_seek_pos p 0x201 s1 = Some (0, s2)"
    "disk_streamer_read_bytes io p 1 s2 = Some (0, read_bytes img 0x201 (nat 1), s3)" "io_frame s1 s3" "idle_drive img (drv (dev s3))"
    by (rule sector_device.seek_and_read [OF ata_sector_device [OF ata] s1, of "0x201" 1]) simp_all
  have ok3: "heap_ok s3" using heap_ok_io [OF n(2) [folded s1_def] r(3)] .
  have on: "on_root s3 q" if "on_root s1 q" for q using r(3) that by (simp add: io_frame_def)
  obtain x where x: "streamers s3 p = Some x" using on [OF s1(2)] by (auto simp: on_root_def)
  obtain m' where c: "kfree p s3 = Some (s3\<lparr>streamers := (streamers s3)(p := None), kmem := m'\<rparr>)"
    "released p s3 (s3\<lparr>streamers := (streamers s3)(p := None), kmem := m'\<rparr>)"
    by (rule kfree_streamer [OF ok3 x])
  let ?k = "s3\<lparr>streamers := (streamers s3)(p := None), kmem := m'\<rparr>"
  note fields = io_frame_fields [OF r(3)]
  have "grows (kmem ?s) m'"
    using grows_gives_back [OF n(7) _ n(5,4), of m'] c(2) fields by (simp add: released_def s1_def)
  moreover have "on_root ?k q" if "on_root ?s q" for q
  proof -
    have "q \<noteq> p" using that none by (auto simp: on_root_def)
    then have "on_root s3 q" using that by (intro on) (simp add: on_root_def s1_def)
    then show ?thesis using \<open>q \<noteq> p\<close> by (simp add: on_root_def)
  qed
  ultimately have "kept ?s ?k" using fields by (simp add: kept_def s1_def)
  moreover have "demo_disk_streamer io m = Some (m\<lparr>kern := ?k\<rparr>)"
    using n(1) r(1,2) c(1) by (simp add: demo_disk_streamer_def disk_streamer_close_def s1_def [symmetric])
  moreover have "spare_pages (kmem ?k) = spare_pages (kmem ?s)"
    using c(2) fields n(6) by (simp add: released_def s1_def)
  ultimately show thesis using c(2) r(4) by (intro that [of ?k]) (simp_all add: released_def)
qed

section \<open>Opening the two files\<close>

definition found_line :: "(int \<Rightarrow> byte) \<Rightarrow> nat \<Rightarrow> byte list \<Rightarrow> byte list" where
  "found_line img n file =
     (case path_outcome img n (split_slash (drop 3 file)) of
        Some (Found item) \<Rightarrow> ascii ''found file:'' @ file @ newline
      | _ \<Rightarrow> [])"

text \<open>The path of a file leads to a regular file or to nothing.\<close>

definition harmless :: "(int \<Rightarrow> byte) \<Rightarrow> nat \<Rightarrow> byte list \<Rightarrow> bool" where
  "harmless img n file \<longleftrightarrow>
     (case path_outcome img n (split_slash (drop 3 file)) of
        Some (Found item) \<Rightarrow> \<not> subdir item | Some Absent \<Rightarrow> True | Some Blocked \<Rightarrow> True | _ \<Rightarrow> False)"

text \<open>The first file that is opened has number 1; a path that leads nowhere has the result 0.\<close>

lemma fopen_found:
  assumes ok: "files_ok io drv img n fp names (call_cost names (Open filename) + k) s Map.empty"
    and name: "map_of names filename = Some nm" and item: "path_outcome img n (split_slash nm) = Some (Found item)" "\<not> subdir item"
  obtains s1 where "fopen io filename (literal [0x72]) s = Some (1, s1)" "files_ok io drv img n fp names k s1 [1 \<mapsto> (item, 0)]"
    "reserve_same (kmem s) (kmem s1)"
proof -
  have "find (\<lambda>i. (Map.empty :: table) (int i + 1) = None) [0..<511] = Some 0" by (subst find_upt) simp
  then have "table_call img n names Map.empty (Open filename) = Some (Result 1, [1 \<mapsto> (item, 0)])"
    using name item by simp
  then show thesis
    by (rule file_call_implements [OF ok]) (use that in \<open>auto simp: bind_eq_Some_conv\<close>)
qed

lemma fopen_missing:
  assumes ok: "files_ok io drv img n fp names (call_cost names (Open filename) + k) s tbl"
    and name: "map_of names filename = Some nm" and out: "path_outcome img n (split_slash nm) = Some out" "out = Absent \<or> out = Blocked"
  obtains s1 where "fopen io filename (literal [0x72]) s = Some (0, s1)" "files_ok io drv img n fp names k s1 tbl"
    "reserve_same (kmem s) (kmem s1)"
proof -
  have "table_call img n names tbl (Open filename) = Some (Result 0, tbl)" using name out by auto
  then show thesis
    by (rule file_call_implements [OF ok]) (use that in \<open>auto simp: bind_eq_Some_conv\<close>)
qed

lemma open_then_close:
  assumes ok: "files_ok io drv img n fp names (call_cost names (Open filename) + k) s Map.empty"
    and name: "map_of names filename = Some nm" and item: "path_outcome img n (split_slash nm) = Some (Found item)" "\<not> subdir item"
  obtains s1 s2 where "fopen io filename (literal [0x72]) s = Some (1, s1)" "names_placed names (kmem s1)"
    "fclose 1 s1 = Some (0, s2)" "files_ok io drv img n fp names k s2 Map.empty" "reserve_same (kmem s) (kmem s2)"
proof -
  obtain s1 where s1: "fopen io filename (literal [0x72]) s = Some (1, s1)" "files_ok io drv img n fp names k s1 [1 \<mapsto> (item, 0)]"
    "reserve_same (kmem s) (kmem s1)"
    by (rule fopen_found [OF ok name item])
  have "table_call img n names [1 \<mapsto> (item, 0)] (Close 1) = Some (Result 0, Map.empty)" by auto
  then obtain s2 where s2: "file_call io s1 (Close 1) = Some (Result 0, s2)" "files_ok io drv img n fp names k s2 Map.empty"
    "reserve_same (kmem s1) (kmem s2)"
    by (rule file_call_implements [of io drv img n fp names "Close 1" k, rotated]) (use s1(2) in simp_all)
  show thesis
    by (rule that [of s1 s2, OF s1(1) files_ok_parts(5) [OF s1(2)] _ s2(2) reserve_trans [OF s1(3) s2(3)]])
      (use s2 in \<open>auto simp: bind_eq_Some_conv\<close>)
qed

lemma try_open_kept:
  assumes ok: "files_ok io drv img n fp names (call_cost names (Open (lit l file)) + k) (kern m) Map.empty"
    and name: "map_of names (lit l file) = Some nm" "file = 0x30 # 0x3A # 0x2F # nm" and harmless: "harmless img n file"
  obtains k' where "try_open io l file m = Some (m\<lparr>kern := k', screen := fold print_char (found_line img n file) (screen m)\<rparr>)"
    "files_ok io drv img n fp names k k' Map.empty" "reserve_same (kmem (kern m)) (kmem k')"
proof -
  have mode: "ascii ''r'' = [0x72]" by (simp add: ascii_def)
  have nm: "drop 3 file = nm" by (simp add: name(2))
  consider item where "path_outcome img n (split_slash nm) = Some (Found item)" "\<not> subdir item"
    | out where "path_outcome img n (split_slash nm) = Some out" "out = Absent \<or> out = Blocked"
    using harmless by (auto simp: harmless_def nm split: option.splits outcome.splits)
  then show thesis
  proof cases
    case 1
    obtain s1 s2 where s: "fopen io (lit l file) (literal [0x72]) (kern m) = Some (1, s1)" "names_placed names (kmem s1)"
      "fclose 1 s1 = Some (0, s2)" "files_ok io drv img n fp names k s2 Map.empty" "reserve_same (kmem (kern m)) (kmem s2)"
      by (rule open_then_close [OF ok name(1) 1])
    have str: "is_cstring (at (kmem s1) (lit l file)) file"
      using s(2) map_of_SomeD [OF name(1)] name(2) by (auto simp: names_placed_def)
    have "0 \<notin> set (ascii ''found file:'')" "0 \<notin> set newline" by (simp_all add: ascii_def newline_def)
    then have "try_open io l file m = Some (m\<lparr>kern := s2, screen := fold print_char (found_line img n file) (screen m)\<rparr>)"
      using s(1,3) 1(1)
      by (simp add: try_open_def mode print_literal print_at_def print_string_fold [OF str] found_line_def nm)
    then show thesis using s(4,5) by (rule that)
  next
    case 2
    obtain s1 where s1: "fopen io (lit l file) (literal [0x72]) (kern m) = Some (0, s1)" "files_ok io drv img n fp names k s1 Map.empty"
      "reserve_same (kmem (kern m)) (kmem s1)"
      by (rule fopen_missing [OF ok name(1) 2])
    have "found_line img n file = []" using 2 by (auto simp: found_line_def nm)
    then have "try_open io l file m = Some (m\<lparr>kern := s1, screen := fold print_char (found_line img n file) (screen m)\<rparr>)"
      using s1(1) by (simp add: try_open_def mode)
    then show thesis using s1(2,3) by (rule that)
  qed
qed

section \<open>The string literals\<close>

definition demo_files :: "byte list list" where
  "demo_files = [ascii ''0:/aaa/bbb/hello.txt'', ascii ''0:/aaa/bbb/bighello.txt'']"

definition demo_paths :: "byte list list" where
  "demo_paths = [ascii ''0:/test/ok/me.txt'', ascii ''1:/another/dir/you.txt'']"

text \<open>The literals lie where neither the heap nor its table is.\<close>

definition literals_placed :: "link \<Rightarrow> mem \<Rightarrow> bool" where
  "literals_placed l m \<longleftrightarrow>
     (\<forall>str \<in> set (demo_files @ demo_paths). is_cstring (at m (lit l str)) str \<and>
        (\<forall>k \<le> length str. outside_heap (lit l str + int k)))"

definition demo_names :: "link \<Rightarrow> (addr \<times> byte list) list" where
  "demo_names l = map (\<lambda>file. (lit l file, drop 3 file)) demo_files"

lemma demo_strings:
  "demo_files = [0x30 # 0x3A # 0x2F # drop 3 (demo_files ! 0), 0x30 # 0x3A # 0x2F # drop 3 (demo_files ! 1)]"
  "demo_paths = [0x30 # 0x3A # 0x2F # drop 3 (demo_paths ! 0), 0x31 # 0x3A # 0x2F # drop 3 (demo_paths ! 1)]"
  "\<forall>str \<in> set (demo_files @ demo_paths). length (split_slash (drop 3 str)) = 3 \<and> 3 \<le> length str \<and> length str \<le> 23"
  by (simp_all add: demo_files_def demo_paths_def ascii_def split_slash.simps [of "_ # _"])

lemma names_placed_literals:
  assumes "literals_placed l m"
  shows "names_placed (demo_names l) m"
proof -
  have "is_cstring (at m (lit l str)) (0x30 # 0x3A # 0x2F # drop 3 str) \<and> length (drop 3 str) \<le> 253
      \<and> (\<forall>k \<le> length (drop 3 str) + 3. outside_heap (lit l str + int k))" if "str \<in> set demo_files" for str :: "byte list"
  proof -
    have "str = 0x30 # 0x3A # 0x2F # drop 3 str" using that demo_strings(1) by (auto simp: demo_files_def ascii_def)
    then have "is_cstring (at m (lit l str)) (0x30 # 0x3A # 0x2F # drop 3 str)" using assms that by (simp add: literals_placed_def)
    moreover have "length (drop 3 str) + 3 = length str" "length str \<le> 23" using that demo_strings(3) by auto
    ultimately show ?thesis using assms that by (auto simp: literals_placed_def)
  qed
  then show ?thesis by (auto simp: names_placed_def demo_names_def)
qed

lemma demo_names_lookup:
  assumes "literals_placed l m" and "file \<in> set demo_files"
  shows "map_of (demo_names l) (lit l file) = Some (drop 3 file)"
proof -
  let ?f = "demo_files ! 0" and ?g = "demo_files ! 1"
  have "is_cstring (at m (lit l ?f)) ?f" "is_cstring (at m (lit l ?g)) ?g"
    using assms(1) by (simp_all add: literals_placed_def demo_files_def)
  then have "at m (lit l ?f) (int 11) = ?f ! 11" "at m (lit l ?g) (int 11) = ?g ! 11"
    using is_cstring_nth [of "at m (lit l ?f)" ?f 11] is_cstring_nth [of "at m (lit l ?g)" ?g 11]
    by (simp_all add: demo_files_def ascii_def)
  moreover have "?f ! 11 \<noteq> ?g ! 11" by (simp add: demo_files_def ascii_def)
  ultimately have "lit l ?f \<noteq> lit l ?g" by auto
  then show ?thesis using assms(2) by (auto simp: demo_names_def demo_files_def)
qed

lemma literals_placed_cong:
  assumes lits: "literals_placed l m" and same: "\<And>a. outside_heap a \<Longrightarrow> m' a = m a"
  shows "literals_placed l m'"
  unfolding literals_placed_def
proof (intro ballI conjI)
  fix str
  assume str: "str \<in> set (demo_files @ demo_paths)"
  then have "is_cstring (at m (lit l str)) str" using lits by (simp add: literals_placed_def)
  then show "is_cstring (at m' (lit l str)) str"
    by (rule is_cstring_cong [rotated]) (use lits str same in \<open>simp add: literals_placed_def\<close>)
  show "\<forall>k \<le> length str. outside_heap (lit l str + int k)" using lits str by (simp add: literals_placed_def)
qed

lemma literals_placed_grows: "literals_placed l m \<Longrightarrow> grows m m' \<Longrightarrow> literals_placed l m'"
  using literals_placed_cong growsD(3) outside_heap_settled by blast

lemma demo_path_kept:
  assumes ok: "files_ok io drv img n fp names k (kern m) tbl" and "10 \<le> k"
    and lits: "literals_placed l (kmem (kern m))" and path: "path \<in> set demo_paths"
  obtains k' where "parse_and_free l path m = Some (m\<lparr>kern := k'\<rparr>)" "files_ok io drv img n fp names k k' tbl"
    "literals_placed l (kmem k')" "reserve_same (kmem (kern m)) (kmem k')"
proof -
  note p = files_ok_parts [OF ok]
  obtain d where d: "path = d # 0x3A # 0x2F # drop 3 path" "is_digit d"
    using path by (auto simp: demo_paths_def ascii_def is_digit_def)
  have len: "length (drop 3 path) + 3 = length path" "length path \<le> 23" "length (split_slash (drop 3 path)) = 3"
    using path demo_strings(3) by auto
  have str: "is_cstring (at (kmem (kern m)) (lit l path)) (d # 0x3A # 0x2F # drop 3 path)"
    using lits path d(1) by (simp add: literals_placed_def)
  have settled: "\<forall>i \<le> length (drop 3 path) + 3. settled (kmem (kern m)) (lit l path + int i)"
    using lits path outside_heap_settled unfolding len(1) by (simp add: literals_placed_def)
  have room: "length (drop 3 path) \<le> 253" "2 * length (split_slash (drop 3 path)) + 1 \<le> spare_pages (kmem (kern m))"
    using len p(7) assms(2) by (simp_all add: volume_ok_def)
  obtain k' where k': "parse_and_free l path m = Some (m\<lparr>kern := k'\<rparr>)" "kept (kern m) k'" "heap_ok k'" "dev k' = dev (kern m)"
    "spare_pages (kmem k') = spare_pages (kmem (kern m))"
    by (rule parse_and_free_kept [OF p(4) str d(2) room(1) settled room(2)])
  have "files_ok io drv img n fp names k k' tbl"
    by (rule files_ok_kept [OF ok k'(2,3)]) (use p(2) k'(4,5) in simp_all)
  then show thesis
    using k'(1) literals_placed_grows [OF lits kept_fields(8) [OF k'(2)]] reserve_grows [OF kept_fields(8) [OF k'(2)]]
    by (intro that)
qed

lemma demo_pparser_kept:
  assumes ok: "files_ok io drv img n fp names k (kern m) tbl" and k: "10 \<le> k"
    and lits: "literals_placed l (kmem (kern m))"
  obtains k' where "demo_pparser l m = Some (m\<lparr>kern := k'\<rparr>)" "files_ok io drv img n fp names k k' tbl"
    "literals_placed l (kmem k')" "reserve_same (kmem (kern m)) (kmem k')"
proof -
  obtain k1 where k1: "parse_and_free l (demo_paths ! 0) m = Some (m\<lparr>kern := k1\<rparr>)"
    "files_ok io drv img n fp names k k1 tbl" "literals_placed l (kmem k1)" "reserve_same (kmem (kern m)) (kmem k1)"
    by (rule demo_path_kept [OF ok k lits, of "demo_paths ! 0"]) (simp_all add: demo_paths_def)
  let ?m1 = "m\<lparr>kern := k1\<rparr>"
  obtain k2 where k2: "parse_and_free l (demo_paths ! 1) ?m1 = Some (?m1\<lparr>kern := k2\<rparr>)"
    "files_ok io drv img n fp names k k2 tbl" "literals_placed l (kmem k2)" "reserve_same (kmem k1) (kmem k2)"
    by (rule demo_path_kept [of io drv img n fp names k ?m1 tbl l "demo_paths ! 1"])
      (use k k1(2,3) in \<open>simp_all add: demo_paths_def\<close>)
  show thesis by (rule that [OF _ k2(2,3) reserve_trans [OF k1(4) k2(4)]]) (use k1(1) k2(1) in \<open>simp add: demo_pparser_def demo_paths_def\<close>)
qed

lemma demo_open_cost:
  assumes "file \<in> set demo_files" and "map_of (demo_names l) (lit l file) = Some (drop 3 file)"
  shows "call_cost (demo_names l) (Open (lit l file)) = 11"
  using demo_strings(3) [rule_format, of "file"] assms(1) by (simp only: call_cost.simps assms(2) option.case) simp

lemma demo_fopen_kept:
  assumes ok: "files_ok io drv img n fp (demo_names l) (22 + k) (kern m) Map.empty"
    and lits: "literals_placed l (kmem (kern m))" and harmless: "list_all (harmless img n) demo_files"
  obtains k' where "demo_fopen io l m = Some (m\<lparr>kern := k',
      screen := fold print_char (concat (map (found_line img n) demo_files)) (screen m)\<rparr>)"
    "files_ok io drv img n fp (demo_names l) k k' Map.empty" "reserve_same (kmem (kern m)) (kmem k')"
proof -
  let ?f = "demo_files ! 0" and ?g = "demo_files ! 1" and ?ok = "files_ok io drv img n fp (demo_names l)"
  have look: "map_of (demo_names l) (lit l ?f) = Some (drop 3 ?f)" "map_of (demo_names l) (lit l ?g) = Some (drop 3 ?g)"
    by (rule demo_names_lookup [OF lits], simp add: demo_files_def)+
  have cost: "call_cost (demo_names l) (Open (lit l ?f)) = 11" "call_cost (demo_names l) (Open (lit l ?g)) = 11"
    by (rule demo_open_cost [OF _ look(1)], simp add: demo_files_def)
      (rule demo_open_cost [OF _ look(2)], simp add: demo_files_def)
  have paths: "?f = 0x30 # 0x3A # 0x2F # drop 3 ?f" "?g = 0x30 # 0x3A # 0x2F # drop 3 ?g"
    by (simp_all add: demo_files_def ascii_def)
  have fine: "harmless img n ?f" "harmless img n ?g" using harmless by (simp_all add: demo_files_def)
  have ok1: "?ok (call_cost (demo_names l) (Open (lit l ?f)) + (11 + k)) (kern m) Map.empty"
    using ok by (simp only: cost) simp
  obtain k1 where k1: "try_open io l ?f m = Some (m\<lparr>kern := k1, screen := fold print_char (found_line img n ?f) (screen m)\<rparr>)"
    "?ok (11 + k) k1 Map.empty" "reserve_same (kmem (kern m)) (kmem k1)"
    by (rule try_open_kept [OF ok1 look(1) paths(1) fine(1)])
  let ?m1 = "m\<lparr>kern := k1, screen := fold print_char (found_line img n ?f) (screen m)\<rparr>"
  have ok2: "?ok (call_cost (demo_names l) (Open (lit l ?g)) + k) (kern ?m1) Map.empty"
    using k1(2) by (simp only: cost) simp
  obtain k2 where k2: "try_open io l ?g ?m1 = Some (?m1\<lparr>kern := k2, screen := fold print_char (found_line img n ?g) (screen ?m1)\<rparr>)"
    "?ok k k2 Map.empty" "reserve_same (kmem (kern ?m1)) (kmem k2)"
    by (rule try_open_kept [OF ok2 look(2) paths(2) fine(2)])
  have same: "reserve_same (kmem (kern m)) (kmem k2)" using reserve_trans [OF k1(3)] k2(3) by simp
  show thesis by (rule that [OF _ k2(2) same]) (use k1(1) k2(1) in \<open>simp add: demo_fopen_def demo_files_def\<close>)
qed

section \<open>The demonstrations in a row\<close>

lemma demonstrations_run:
  assumes "ata_laws io drv" and "idle_drive img (drv (dev (kern m)))" and "fat16_image img n"
    and "cold (kern m)" and "int n \<le> root_entries img" and "literals_placed l (kmem (kern m))"
    and "list_all (harmless img n) demo_files"
  obtains m1 m2 m3 m4 p where "boot io l m = Some m1" "demo_pparser l m1 = Some m2" "demo_disk_streamer io m2 = Some m3"
    "demo_fopen io l m3 = Some m4" "files_ok io drv img n p (demo_names l) 23519 (kern m4) Map.empty"
    "\<And>a. 56832 \<le> a \<Longrightarrow> a < 57856 \<Longrightarrow> kmem (kern m4) a = 0"
    "screen m4 = fold print_char (ascii ''Welcome!'' @ newline @ concat (map (found_line img n) demo_files)) (terminal_init (screen m))"
proof (rule boot_run [OF assms(1-4), of l])
  fix m1 p
  assume b: "boot io l m = Some m1" "booted img n l m1 p" "idle_drive img (drv (dev (kern m1)))"
    "spare_pages (kmem (kern m1)) = 23545"
    "screen m1 = fold print_char (ascii ''Welcome!'' @ newline) (terminal_init (screen m))"
    and keep: "\<And>a. a < 32256 \<or> 57856 \<le> a \<and> a < 16777216 \<or> 121634816 \<le> a \<Longrightarrow>
       settled (kmem (kern m1)) a \<and> kmem (kern m1) a = kmem (kern m) a"
    and zero: "\<And>a. 56832 \<le> a \<Longrightarrow> a < 57856 \<Longrightarrow> kmem (kern m1) a = 0"
  let ?ok = "files_ok io drv img n p (demo_names l)"
  have lits: "literals_placed l (kmem (kern m1))"
    by (rule literals_placed_cong [OF assms(6)]) (use keep in \<open>simp add: outside_heap_def\<close>)
  have ok1: "?ok 23541 (kern m1) Map.empty"
    using b(2-4) assms(1,5) names_placed_literals [OF lits] fd_table_empty [of "kern m1" "dir_item (root_directory p)"]
    by (simp add: files_ok_def volume_ok_def booted_def)
  obtain k2 where k2: "demo_pparser l m1 = Some (m1\<lparr>kern := k2\<rparr>)" "?ok 23541 k2 Map.empty" "literals_placed l (kmem k2)"
    "reserve_same (kmem (kern m1)) (kmem k2)"
    by (rule demo_pparser_kept [OF ok1 _ lits]) simp
  note p2 = files_ok_parts [OF k2(2)]
  obtain k3 where k3: "demo_disk_streamer io (m1\<lparr>kern := k2\<rparr>) = Some (m1\<lparr>kern := k3\<rparr>)" "kept k2 k3" "heap_ok k3"
    "idle_drive img (drv (dev k3))" "spare_pages (kmem k3) = spare_pages (kmem k2)"
    by (rule demo_disk_streamer_kept [OF p2(1), of img "m1\<lparr>kern := k2\<rparr>"]) (use p2 in \<open>simp_all add: volume_ok_def\<close>)
  have ok3: "?ok (22 + 23519) (kern (m1\<lparr>kern := k3\<rparr>)) Map.empty"
    using files_ok_kept [OF k2(2) k3(2-4)] k3(5) by simp
  have lits3: "literals_placed l (kmem (kern (m1\<lparr>kern := k3\<rparr>)))"
    using literals_placed_grows [OF k2(3) kept_fields(8) [OF k3(2)]] by simp
  obtain k4 where k4: "demo_fopen io l (m1\<lparr>kern := k3\<rparr>) = Some (m1\<lparr>kern := k4,
      screen := fold print_char (concat (map (found_line img n) demo_files)) (screen m1)\<rparr>)" "?ok 23519 k4 Map.empty"
    "reserve_same (kmem k3) (kmem k4)"
    by (rule demo_fopen_kept [OF ok3 lits3 assms(7)]) simp
  have "reserve_same (kmem (kern m1)) (kmem k4)"
    using reserve_trans [OF k2(4)] reserve_trans [OF reserve_grows [OF kept_fields(8) [OF k3(2)]] k4(3)] by blast
  then have "kmem k4 a = 0" if "56832 \<le> a" "a < 57856" for a using zero that by (simp add: reserve_same_def)
  then show thesis by (intro that [OF b(1) k2(1) k3(1) k4(1)]) (use k4(2) b(5) in simp_all)
qed

section \<open>A machine for the demonstrations\<close>

text \<open>A machine with an image in the drive and the literals from \<open>0x100000\<close> on.\<close>

definition literal_link :: link where
  "literal_link = demo_link
     \<lparr>lit := \<lambda>str. if str = demo_files ! 0 then 0x100000 else if str = demo_files ! 1 then 0x100100
                   else if str = demo_paths ! 0 then 0x100200 else 0x100300\<rparr>"

definition literal_memory :: mem where
  "literal_memory = write_bytes (write_bytes (write_bytes (write_bytes (\<lambda>_. 0)
     0x100000 (demo_files ! 0)) 0x100100 (demo_files ! 1)) 0x100200 (demo_paths ! 0)) 0x100300 (demo_paths ! 1)"

definition literal_machine :: "(int \<Rightarrow> byte) \<Rightarrow> ata machine" where
  "literal_machine img = (cold_machine img tree_path)
     \<lparr>kern := (kern (cold_machine img tree_path))\<lparr>kmem := literal_memory\<rparr>\<rparr>"

lemma is_cstring_read:
  assumes "read_bytes m a n = xs" and "m (a + int n) = 0" and "0 \<notin> set xs"
  shows "is_cstring (at m a) xs"
  using assms by (auto simp: is_cstring_def at_def)

lemma literal_machine_facts:
  "idle_drive img (dev (kern (literal_machine img)))" "cold (kern (literal_machine img))"
  "literals_placed literal_link (kmem (kern (literal_machine img)))"
proof -
  show "idle_drive img (dev (kern (literal_machine img)))"
    using cold_machine_facts(2) by (simp add: literal_machine_def)
  have "literal_memory 57856 = 0"
    by (simp add: literal_memory_def demo_files_def demo_paths_def ascii_def write_bytes_def)
  moreover have "inhabitants (kern (cold_machine img tree_path)) a = 0" for a
    using cold_machine_facts(1) [of img tree_path] by (simp add: cold_def)
  ultimately show "cold (kern (literal_machine img))"
    by (simp add: cold_def literal_machine_def inhabitants_def heap_table_entry_has_next_def)
  let ?a = "demo_files ! 0" and ?b = "demo_files ! 1" and ?c = "demo_paths ! 0" and ?d = "demo_paths ! 1"
  have len: "length ?a = 20" "length ?b = 23" "length ?c = 17" "length ?d = 22"
    "0 \<notin> set ?a" "0 \<notin> set ?b" "0 \<notin> set ?c" "0 \<notin> set ?d"
    by (simp_all add: demo_files_def demo_paths_def ascii_def)
  have addr: "lit literal_link ?a = 0x100000" "lit literal_link ?b = 0x100100" "lit literal_link ?c = 0x100200"
    "lit literal_link ?d = 0x100300"
    by (simp_all add: literal_link_def) (simp_all add: demo_files_def demo_paths_def ascii_def)
  have "read_bytes literal_memory 0x100000 20 = ?a" "read_bytes literal_memory 0x100100 23 = ?b"
    "read_bytes literal_memory 0x100200 17 = ?c" "read_bytes literal_memory 0x100300 22 = ?d"
    by (simp_all del: One_nat_def add: literal_memory_def len mem_simps)
  moreover have "literal_memory 0x100014 = 0" "literal_memory 0x100117 = 0" "literal_memory 0x100211 = 0" "literal_memory 0x100316 = 0"
    by (simp_all del: One_nat_def add: literal_memory_def len write_bytes_out)
  ultimately have str: "is_cstring (at literal_memory 0x100000) ?a" "is_cstring (at literal_memory 0x100100) ?b"
    "is_cstring (at literal_memory 0x100200) ?c" "is_cstring (at literal_memory 0x100300) ?d"
    using len(5-8) by (auto intro!: is_cstring_read)
  have "set (demo_files @ demo_paths) = {?a, ?b, ?c, ?d}" by (auto simp: demo_files_def demo_paths_def)
  then show "literals_placed literal_link (kmem (kern (literal_machine img)))"
    using str by (simp del: One_nat_def add: literals_placed_def addr literal_machine_def len outside_heap_def)
qed

text \<open>The line for the first file, and none for the second.\<close>

lemma tree_lines:
  "list_all (harmless tree_image 2) demo_files"
  "concat (map (found_line tree_image 2) demo_files) = ascii ''found file:0:/aaa/bbb/hello.txt'' @ newline"
  "path_outcome tree_image 2 (split_slash (drop 3 (demo_files ! 1))) = Some Absent"
proof -
  let ?big = "[0x62, 0x69, 0x67, 0x68, 0x65, 0x6C, 0x6C, 0x6F, 0x2E, 0x74, 0x78, 0x74] :: byte list"
  have hello: "drop 3 (demo_files ! 0) = tree_path" by (simp add: demo_files_def ascii_def tree_path_def hello_def)
  have split: "split_slash (drop 3 (demo_files ! 1)) = [[0x61, 0x61, 0x61], [0x62, 0x62, 0x62], ?big]"
    by (simp add: demo_files_def ascii_def split_slash.simps [of "_ # _"])
  have names: "\<not> named [0x61, 0x61, 0x61] demo_item" "named [0x61, 0x61, 0x61] (dir_item_of [0x41, 0x41, 0x41] 4)"
    "\<not> named [0x62, 0x62, 0x62] (dir_item_of [0x2E] 4)" "\<not> named [0x62, 0x62, 0x62] (dir_item_of [0x2E, 0x2E] 0)"
    "named [0x62, 0x62, 0x62] (dir_item_of [0x42, 0x42, 0x42] 5)"
    "\<not> named ?big (dir_item_of [0x2E] 5)" "\<not> named ?big (dir_item_of [0x2E, 0x2E] 4)" "\<not> named ?big demo_item"
    by (simp_all add: named_def demo_item_name dir_entry_names tolower_def)
  have sub: "subdir (dir_item_of [0x41, 0x41, 0x41] 4)" "subdir (dir_item_of [0x42, 0x42, 0x42] 5)"
    by (rule dir_entry_subdir, simp)+
  have found: "path_outcome tree_image 2 (split_slash (drop 3 (demo_files ! 0))) = Some (Found demo_item)" "\<not> subdir demo_item"
    using tree_file by (simp_all add: file_at_Some hello)
  show absent: "path_outcome tree_image 2 (split_slash (drop 3 (demo_files ! 1))) = Some Absent"
    using sub by (simp add: path_outcome_def split tree_root_listing names tree_listings del: One_nat_def)
  have list: "demo_files = [demo_files ! 0, demo_files ! 1]" by (simp add: demo_files_def)
  show "list_all (harmless tree_image 2) demo_files"
    by (subst list) (use found absent in \<open>simp add: harmless_def\<close>)
  have "concat (map (found_line tree_image 2) demo_files) = ascii ''found file:'' @ demo_files ! 0 @ newline"
    by (subst list) (use found absent in \<open>simp add: found_line_def\<close>)
  then show "concat (map (found_line tree_image 2) demo_files) = ascii ''found file:0:/aaa/bbb/hello.txt'' @ newline"
    by (simp add: demo_files_def ascii_def)
qed

end
