(* ===== verification/Long_Volume.thy ===== *)
theory Long_Volume
  imports File_Table
begin

text \<open>
  A volume for the reading demonstrations: \<open>/aaa/bbb/bighello.txt\<close>, of one megabyte in 2048 consecutive clusters, all
  bytes of it the letter \<open>a\<close>.
\<close>

definition long_entry :: "byte list" where
  "long_entry = [0x42, 0x49, 0x47, 0x48, 0x45, 0x4C, 0x4C, 0x4F, 0x54, 0x58, 0x54, 0x20] @ replicate 14 0 @ [6, 0, 0, 0, 0x10, 0]"

definition long_item :: fat_directory_item where
  "long_item = directory_item_of long_entry"

text \<open>One sector per cluster; the allocation table, of 16 sectors, maps each cluster to the next one.\<close>

definition long_image :: "int \<Rightarrow> byte" where
  "long_image a =
     (if a < 512 then (case map_of [(13, 1), (14, 1), (16, 1), (17, 16), (22, 16), (38, 0x29)] a of Some b \<Rightarrow> b | None \<Rightarrow> 0)
      else if a < 8704 then
        (let c = (a - 512) div 2 + 1 in if a mod 2 = 0 then word_of_int c else word_of_int (c div 256))
      else if a < 8736 then dir_entry [0x41, 0x41, 0x41] 4 ! nat (a - 8704)
      else if 10240 \<le> a \<and> a < 10336 then
        (dir_entry [0x2E] 4 @ dir_entry [0x2E, 0x2E] 0 @ dir_entry [0x42, 0x42, 0x42] 5) ! nat (a - 10240)
      else if 10752 \<le> a \<and> a < 10848 then (dir_entry [0x2E] 5 @ dir_entry [0x2E, 0x2E] 4 @ long_entry) ! nat (a - 10752)
      else if a < 11264 then 0 else 0x61)"

lemma long_header_bytes:
  "read_bytes long_image 0 62 =
     map (\<lambda>i. case map_of [(13, 1), (14, 1), (16, 1), (17, 16), (22, 16), (38, 0x29)] (int i) of Some b \<Rightarrow> b | None \<Rightarrow> 0) [0..<62]"
  by (simp add: read_bytes_def long_image_def)

lemma long_header:
  "root_sector long_image = 17" "root_entries long_image = 16" "root_sectors long_image = 1"
  "sectors_per_cluster (primary_header (boot_header long_image)) = 1"
  "reserved_sectors (primary_header (boot_header long_image)) = 1"
  "signature (extended_header (boot_header long_image)) = KERNEL_FAT16_SIGNATURE"
  by (simp_all add: root_sector_def root_sectors_def root_entries_def boot_header_def long_header_bytes fat_h_of_def
      fat_header_of_def fat_header_extended_of_def word16_at_def uint_le16 le16_def)

lemma long_fat16_image: "fat16_image long_image 1"
  by (simp add: fat16_image_def long_header items_end_def) (simp add: long_image_def dir_entry_def)

lemma long_volume:
  "bytes_per_cluster (image_volume long_image) = 512" "sector_of (image_volume long_image) c = c + 16"
  "2 \<le> c \<Longrightarrow> c < 4096 \<Longrightarrow> data_cluster (image_volume long_image) c"
proof -
  have h: "sectors_per_cluster (primary_header (header (image_volume long_image))) = 1"
    "ending_sector_pos (root_directory (image_volume long_image)) = 18"
    by (simp_all add: image_volume_def long_header)
  show s: "sector_of (image_volume long_image) c = c + 16" for c by (simp add: sector_of_def h)
  show b: "bytes_per_cluster (image_volume long_image) = 512" by (simp add: bytes_per_cluster_def h)
  show "data_cluster (image_volume long_image) c" if "2 \<le> c" "c < 4096" for c
    using that by (simp add: data_cluster_def is_readable_cluster_def s b)
qed

text \<open>The chains.\<close>

lemma long_fat_entry:
  assumes "0 \<le> c" and "c < 4096"
  shows "fat_entry_of long_image (image_volume long_image) c = c + 1"
proof -
  have "fat16_get_first_fat_sector (image_volume long_image) = 1"
    by (simp add: fat16_get_first_fat_sector_def image_volume_def long_header)
  moreover define x where "x = c + 1"
  have "long_image (512 + 2 * c) = word_of_int x" "long_image (512 + 2 * c + 1) = word_of_int (x div 256)"
    using assms by (simp_all add: long_image_def Let_def x_def)
  moreover have "0 \<le> x" "x \<le> 4096" using assms by (simp_all add: x_def)
  then have "uint (word_of_int x :: byte) = x mod 256" "uint (word_of_int (x div 256) :: byte) = x div 256"
    by (simp_all add: uint_word_of_int)
  ultimately show ?thesis unfolding x_def [symmetric] by (simp add: fat_entry_of_def uint_le16)
qed

lemma long_chain: "0 \<le> c \<Longrightarrow> c + int n \<le> 4096 \<Longrightarrow> fat_chain long_image (image_volume long_image) c n = map (\<lambda>i. c + int i) [0..<n]"
proof (induction n arbitrary: c)
  case (Suc n)
  then show ?case by (simp add: long_fat_entry upt_conv_Cons map_Suc_upt [symmetric] o_def add.assoc del: upt_Suc)
qed simp

text \<open>The directories.\<close>

lemma long_entries:
  "read_bytes long_image 8704 32 = dir_entry [0x41, 0x41, 0x41] 4"
  "read_bytes long_image 10240 32 = dir_entry [0x2E] 4"
  "read_bytes long_image 10272 32 = dir_entry [0x2E, 0x2E] 0"
  "read_bytes long_image 10304 32 = dir_entry [0x42, 0x42, 0x42] 5"
  "read_bytes long_image 10752 32 = dir_entry [0x2E] 5"
  "read_bytes long_image 10784 32 = dir_entry [0x2E, 0x2E] 4"
  "read_bytes long_image 10816 32 = long_entry"
  by (rule read_bytes_eq, simp add: long_entry_def, simp add: long_image_def nth_append nat_add_distrib)+

lemma long_root_listing: "root_listing long_image 1 = [dir_item_of [0x41, 0x41, 0x41] 4]"
proof -
  have "long_image 8704 \<noteq> 0xE5" by (simp add: long_image_def dir_entry_def)
  then have "live_items long_image 8704 1 = 1" by (simp add: live_items_def)
  moreover have "root_items long_image ! 0 = dir_item_of [0x41, 0x41, 0x41] 4"
    using root_items_nth [of 0 long_image] by (simp add: long_header long_entries)
  then have "take 1 (root_items long_image) = [dir_item_of [0x41, 0x41, 0x41] 4]"
    by (simp add: take_Suc_conv_app_nth long_header)
  ultimately show ?thesis by (simp add: root_listing_def long_header)
qed

lemma long_listings:
  "dir_listing long_image (dir_item_of [0x41, 0x41, 0x41] 4) =
     Some [dir_item_of [0x2E] 4, dir_item_of [0x2E, 0x2E] 0, dir_item_of [0x42, 0x42, 0x42] 5]"
  "dir_listing long_image (dir_item_of [0x42, 0x42, 0x42] 5) =
     Some [dir_item_of [0x2E] 5, dir_item_of [0x2E, 0x2E] 4, long_item]"
proof -
  have "long_image 10240 \<notin> {0, 0xE5}" "long_image 10272 \<notin> {0, 0xE5}" "long_image 10304 \<notin> {0, 0xE5}" "long_image 10336 = 0"
    "long_image 10752 \<notin> {0, 0xE5}" "long_image 10784 \<notin> {0, 0xE5}" "long_image 10816 \<notin> {0, 0xE5}" "long_image 10848 = 0"
    by (simp_all add: long_image_def dir_entry_def long_entry_def nth_append)
  then show "dir_listing long_image (dir_item_of [0x41, 0x41, 0x41] 4) =
     Some [dir_item_of [0x2E] 4, dir_item_of [0x2E, 0x2E] 0, dir_item_of [0x42, 0x42, 0x42] 5]"
    and "dir_listing long_image (dir_item_of [0x42, 0x42, 0x42] 5) =
     Some [dir_item_of [0x2E] 5, dir_item_of [0x2E, 0x2E] 4, long_item]"
    using three_entries [of long_image "dir_item_of [0x41, 0x41, 0x41] 4" 10240]
      three_entries [of long_image "dir_item_of [0x42, 0x42, 0x42] 5" 10752]
    by (simp_all add: dir_pos_def long_volume dir_entry_first_cluster long_entries long_item_def)
qed

lemma long_item_facts:
  "dos_name long_item = [0x42, 0x49, 0x47, 0x48, 0x45, 0x4C, 0x4C, 0x4F, 0x2E, 0x54, 0x58, 0x54]"
  "\<not> subdir long_item" "fat16_get_first_cluster long_item = 6" "uint (filesize long_item) = 1048576"
  by (simp_all add: long_item_def long_entry_def dos_name_def directory_item_of_def slice_def name_chars_def
      fat16_get_first_cluster_def word16_at_def word32_at_def uint_le16 uint_le32 nth_append)

text \<open>The file and its bytes.\<close>

lemma long_covers: "0 < len \<Longrightarrow> len \<le> 1048576 \<Longrightarrow> file_covers long_image long_item (clusters_for long_image len) len"
proof -
  assume len: "0 < len" "len \<le> 1048576"
  define k where "k = nat ((len + 511) div 512)"
  have "len \<le> int k * 512" "int k \<le> 2048" using len by (simp_all add: k_def) linarith+
  moreover have "clusters_for long_image len = k" by (simp add: clusters_for_def long_volume k_def)
  ultimately show ?thesis
    using len by (auto simp: file_covers_def file_clusters_def long_item_facts long_chain long_volume)
qed

lemma long_bytes:
  assumes "int k \<le> 2048"
  shows "set (file_bytes long_image long_item k) \<subseteq> {0x61}"
proof -
  have "cluster_data long_image (image_volume long_image) (6 + int i) = replicate 512 0x61" for i
    unfolding cluster_data_def by (rule read_bytes_eq) (simp_all add: long_volume long_image_def)
  then show ?thesis
    using assms by (auto simp: file_bytes_def chain_data_def long_item_facts long_chain)
qed

lemma long_slice:
  assumes "0 \<le> pos" and "0 < len" and "pos + len \<le> 1048576"
  shows "file_slice long_image long_item pos len = replicate (nat len) 0x61"
proof -
  let ?k = "clusters_for long_image (pos + len)"
  have k: "?k = nat ((pos + len + 511) div 512)" by (simp add: clusters_for_def long_volume)
  then have le: "int ?k \<le> 2048" and cover: "pos + len \<le> int ?k * 512" using assms by linarith+
  have "length (file_bytes long_image long_item ?k) = ?k * 512"
    using le by (simp add: file_bytes_def length_chain_data long_volume)
  then have "length (file_slice long_image long_item pos len) = nat len"
    using assms cover by (simp add: file_slice_def)
  moreover have "set (file_slice long_image long_item pos len) \<subseteq> {0x61}"
    using long_bytes [OF le] by (auto simp: file_slice_def dest!: in_set_takeD in_set_dropD)
  ultimately show ?thesis by (intro replicate_eqI) auto
qed

end
