(* ===== verification/Kernel_Main.thy ===== *)
theory Kernel_Main
  imports Demonstrations Long_Volume
begin

text \<open>
  The reading demonstrations of \<open>kernel.c\<close>, and with them the whole of \<open>kernel_main\<close>: what it prints up to the
  panic in which it stops, when the long file is there, and that it reads outside an array when it is not.
\<close>

section \<open>Counting the bytes of a buffer\<close>

definition decimal :: "nat \<Rightarrow> byte list" where
  "decimal c = rev (digits_rev (int c))"

definition count_line :: "byte list \<Rightarrow> byte list" where
  "count_line bs = ascii ''Total bytes read from file: '' @ decimal (length (until_zero bs)) @ newline"

lemma count_and_print_line:
  assumes str: "is_cstring (at (kmem (kern m)) p) (until_zero bs)" and len: "length (until_zero bs) < 2147483648"
  shows "count_and_print p m = Some (m\<lparr>screen := fold print_char (count_line bs) (screen m)\<rparr>)"
proof -
  let ?c = "length (until_zero bs)" and ?buf = "itoa (\<lambda>_. 0) (int (length (until_zero bs))) 0"
  have "0 \<notin> set (decimal ?c)" using digits_rev_is_digit is_digit_nonzero by (fastforce simp: decimal_def)
  then have "is_cstring (at ?buf 0) (decimal ?c)"
    using write_bytes_is_cstring [of "decimal ?c" "\<lambda>_. 0" 0] by (simp add: itoa_eq decimal_def)
  then have buf: "print_string (at ?buf 0) t = Some (fold print_char (decimal ?c) t)" for t by (rule print_string_fold)
  have lits: "0 \<notin> set (ascii ''Total bytes read from file: '')" "0 \<notin> set newline" by (simp_all add: ascii_def newline_def)
  show ?thesis
    using len by (simp add: count_and_print_def strlen_cstring [OF str] print_literal lits print_at_def buf count_line_def)
qed

section \<open>The reading demonstrations\<close>

abbreviation long_file :: "byte list" where
  "long_file \<equiv> ascii ''0:/aaa/bbb/bighello.txt''"

text \<open>The file is there, with bytes enough.\<close>

definition readable :: "(int \<Rightarrow> byte) \<Rightarrow> nat \<Rightarrow> fat_directory_item \<Rightarrow> bool" where
  "readable img n item \<longleftrightarrow>
     path_outcome img n (split_slash (drop 3 long_file)) = Some (Found item) \<and> \<not> subdir item \<and>
     10 \<le> uint (filesize item) \<and> file_covers img item (clusters_for img 1048576) 1048576 \<and>
     file_covers img item (clusters_for img 110) 110"

lemma long_open_cost:
  "map_of (demo_names l) (lit l long_file) = Some (drop 3 long_file) \<Longrightarrow> call_cost (demo_names l) (Open (lit l long_file)) = 11"
  by (rule demo_open_cost) (simp add: demo_files_def)

lemma demo_out_closed:
  assumes "kfree p (kern m) = Some k1" and "p \<noteq> 0" and "fclose fd k1 = Some (r, k2)" and "fd \<noteq> 0"
  shows "demo_out p fd m = Some (m\<lparr>kern := k2\<rparr>)"
  using assms by (simp add: demo_out_def)

lemma demo_fread_reads:
  assumes ok: "files_ok io drv img n fp (demo_names l) (12 + k) (kern m) Map.empty"
    and zero: "\<And>a. 56832 \<le> a \<Longrightarrow> a < 57856 \<Longrightarrow> kmem (kern m) a = 0"
    and look: "map_of (demo_names l) (lit l long_file) = Some (drop 3 long_file)" and item: "readable img n item"
  obtains k' where "demo_fread io l m = Some (m\<lparr>kern := k',
      screen := fold print_char (count_line (file_slice img item 0 1048576)) (screen m)\<rparr>)"
    "files_ok io drv img n fp (demo_names l) k k' Map.empty"
proof -
  let ?ok = "files_ok io drv img n fp (demo_names l)" and ?bs = "file_slice img item 0 1048576"
  have mode: "ascii ''r'' = [0x72]" by (simp add: ascii_def)
  note r = item [unfolded readable_def]
  have ok0: "?ok (call_cost (demo_names l) (Open (lit l long_file)) + Suc k) (kern m) Map.empty"
    using ok by (simp only: long_open_cost [OF look]) simp
  obtain s1 where s1: "fopen io (lit l long_file) (literal [0x72]) (kern m) = Some (1, s1)" "?ok (Suc k) s1 [1 \<mapsto> (item, 0)]"
    "reserve_same (kmem (kern m)) (kmem s1)"
    by (rule fopen_found [OF ok0 look]) (use r in blast)+
  have free: "free_from 24576 (kmem s1)"
    using s1(3) zero by (simp add: free_from_def reserve_same_def is_free_block_def entry_addr_def)
  obtain p mm where lend: "lends io drv img n fp (demo_names l) k 2097153 s1 p mm"
    by (rule long_buffer [OF s1(2) _ _ free, of 2097153]) (simp_all add: blocks_for_def)
  let ?u = "s1\<lparr>kmem := mm\<rparr>"
  have p: "kzalloc 2097153 s1 = (p, ?u)" "0 < p" using lend by (simp_all add: lends_def)
  obtain t k1 k2 where t: "fread io p 1024 1024 1 ?u = Some (0, t)" "is_cstring (at ((kmem t)(p + 2097152 := 0)) p) (until_zero ?bs)"
    "length (until_zero ?bs) \<le> 1048576" "kfree p (t\<lparr>kmem := (kmem t)(p + 2097152 := 0)\<rparr>) = Some k1" "fclose 1 k1 = Some (0, k2)"
    "?ok k k2 ([1 \<mapsto> (item, 0)](1 := None))"
    by (rule read_and_release [OF lend, of ?u "[1 \<mapsto> (item, 0)]" 1 item 0 1024 1024 2097152]) (use s1(2) r in simp_all)
  let ?m = "m\<lparr>kern := t\<lparr>kmem := (kmem t)(p + 2097152 := 0)\<rparr>\<rparr>"
  have count: "count_and_print p ?m = Some (?m\<lparr>screen := fold print_char (count_line ?bs) (screen ?m)\<rparr>)"
    by (rule count_and_print_line) (use t(2,3) in simp_all)
  have "demo_out p 1 (?m\<lparr>screen := fold print_char (count_line ?bs) (screen ?m)\<rparr>) =
      Some (?m\<lparr>screen := fold print_char (count_line ?bs) (screen ?m), kern := k2\<rparr>)"
    by (rule demo_out_closed [of _ _ k1 _ 0]) (use t(4,5) p(2) in simp_all)
  then have "demo_fread io l m = Some (m\<lparr>kern := k2, screen := fold print_char (count_line ?bs) (screen m)\<rparr>)"
    using s1(1) p(1) t(1) count by (simp add: demo_fread_def mode)
  then show thesis by (rule that) (use t(6) in simp)
qed

lemma demo_fseek_reads:
  assumes ok: "files_ok io drv img n fp (demo_names l) (12 + k) (kern m) Map.empty"
    and look: "map_of (demo_names l) (lit l long_file) = Some (drop 3 long_file)" and item: "readable img n item"
  obtains k' where "demo_fseek io l m = Some (m\<lparr>kern := k',
      screen := fold print_char (count_line (file_slice img item 10 100) @ until_zero (file_slice img item 10 100)) (screen m)\<rparr>)"
    "files_ok io drv img n fp (demo_names l) k k' Map.empty"
proof -
  let ?ok = "files_ok io drv img n fp (demo_names l)" and ?bs = "file_slice img item 10 100"
  have mode: "ascii ''r'' = [0x72]" by (simp add: ascii_def)
  note r = item [unfolded readable_def]
  have ok0: "?ok (call_cost (demo_names l) (Open (lit l long_file)) + Suc k) (kern m) Map.empty"
    using ok by (simp only: long_open_cost [OF look]) simp
  obtain s1 where s1: "fopen io (lit l long_file) (literal [0x72]) (kern m) = Some (1, s1)" "?ok (Suc k) s1 [1 \<mapsto> (item, 0)]"
    by (rule fopen_found [OF ok0 look]) (use r in blast)+
  obtain p mm where lend: "lends io drv img n fp (demo_names l) k 101 s1 p mm"
    by (rule short_buffer [OF s1(2), of 101]) simp_all
  have p: "kzalloc 101 s1 = (p, s1\<lparr>kmem := mm\<rparr>)" "0 < p" using lend by (simp_all add: lends_def)
  have "?ok (Suc k) (s1\<lparr>kmem := mm\<rparr>\<lparr>kmem := kmem s1\<rparr>) [1 \<mapsto> (item, 0)]" using s1(2) by simp
  moreover have "table_call img n (demo_names l) [1 \<mapsto> (item, 0)] (Seek 1 10 SEEK_SET) = Some (Result 0, [1 \<mapsto> (item, 10)])"
    using r by (simp add: new_pos_def)
  ultimately obtain u where u: "fseek 1 10 SEEK_SET (s1\<lparr>kmem := mm\<rparr>) = Some (0, u)" "?ok (Suc k) (u\<lparr>kmem := kmem s1\<rparr>) [1 \<mapsto> (item, 10)]"
    "kmem u = mm"
    by (rule fseek_lent) simp
  obtain t k1 k2 where t: "fread io p 100 1 1 u = Some (0, t)" "is_cstring (at ((kmem t)(p + 100 := 0)) p) (until_zero ?bs)"
    "length (until_zero ?bs) \<le> 100" "kfree p (t\<lparr>kmem := (kmem t)(p + 100 := 0)\<rparr>) = Some k1" "fclose 1 k1 = Some (0, k2)"
    "?ok k k2 ([1 \<mapsto> (item, 10)](1 := None))"
    by (rule read_and_release [OF lend u(3,2), of 1 item 10 100 1 100]) (use r in simp_all)
  let ?m = "m\<lparr>kern := t\<lparr>kmem := (kmem t)(p + 100 := 0)\<rparr>\<rparr>"
  have count: "count_and_print p ?m = Some (?m\<lparr>screen := fold print_char (count_line ?bs) (screen ?m)\<rparr>)"
    by (rule count_and_print_line) (use t(2,3) in simp_all)
  let ?s = "fold print_char (until_zero ?bs) (fold print_char (count_line ?bs) (screen m))"
  have "demo_out p 1 (?m\<lparr>screen := ?s\<rparr>) = Some (?m\<lparr>screen := ?s, kern := k2\<rparr>)"
    by (rule demo_out_closed [of _ _ k1 _ 0]) (use t(4,5) p(2) in simp_all)
  then have "demo_fseek io l m = Some (m\<lparr>kern := k2, screen := ?s\<rparr>)"
    using s1(1) p(1) u(1) t(1) count by (simp add: demo_fseek_def mode print_at_def print_string_fold [OF t(2)])
  then show thesis by (intro that [of k2]) (use t(6) in simp_all)
qed

section \<open>Without the file\<close>

text \<open>The first demonstration reports the failure; the second passes descriptor 0 to \<open>fseek\<close>, which reads before its table.\<close>

definition missing :: "(int \<Rightarrow> byte) \<Rightarrow> nat \<Rightarrow> bool" where
  "missing img n \<longleftrightarrow> path_outcome img n (split_slash (drop 3 long_file)) \<in> {Some Absent, Some Blocked}"

lemma fopen_long_missing:
  assumes ok: "files_ok io drv img n fp (demo_names l) (11 + k) s Map.empty"
    and look: "map_of (demo_names l) (lit l long_file) = Some (drop 3 long_file)" and gone: "missing img n"
  obtains s1 where "fopen io (lit l long_file) (literal (ascii ''r'')) s = Some (0, s1)"
    "files_ok io drv img n fp (demo_names l) k s1 Map.empty" "reserve_same (kmem s) (kmem s1)"
proof -
  have mode: "ascii ''r'' = [0x72]" by (simp add: ascii_def)
  have ok0: "files_ok io drv img n fp (demo_names l) (call_cost (demo_names l) (Open (lit l long_file)) + k) s Map.empty"
    using ok by (simp only: long_open_cost [OF look])
  obtain out where "path_outcome img n (split_slash (drop 3 long_file)) = Some out" "out = Absent \<or> out = Blocked"
    using gone by (auto simp: missing_def)
  then show thesis by (rule fopen_missing [OF ok0 look]) (rule that [unfolded mode])
qed

lemma demo_fread_fails:
  assumes ok: "files_ok io drv img n fp (demo_names l) (12 + k) (kern m) Map.empty"
    and zero: "\<And>a. 56832 \<le> a \<Longrightarrow> a < 57856 \<Longrightarrow> kmem (kern m) a = 0"
    and look: "map_of (demo_names l) (lit l long_file) = Some (drop 3 long_file)" and gone: "missing img n"
  obtains k' where "demo_fread io l m = Some (m\<lparr>kern := k',
      screen := fold print_char (ascii ''Failed to read file!'' @ newline) (screen m)\<rparr>)"
    "files_ok io drv img n fp (demo_names l) k k' Map.empty"
proof -
  let ?ok = "files_ok io drv img n fp (demo_names l)" and ?msg = "ascii ''Failed to read file!'' @ newline"
  have ok0: "?ok (11 + Suc k) (kern m) Map.empty" using ok by simp
  obtain s1 where s1: "fopen io (lit l long_file) (literal (ascii ''r'')) (kern m) = Some (0, s1)" "?ok (Suc k) s1 Map.empty"
    "reserve_same (kmem (kern m)) (kmem s1)"
    by (rule fopen_long_missing [OF ok0 look gone])
  have free: "free_from 24576 (kmem s1)"
    using s1(3) zero by (simp add: free_from_def reserve_same_def is_free_block_def entry_addr_def)
  obtain p mm where lend: "lends io drv img n fp (demo_names l) k 2097153 s1 p mm"
    by (rule long_buffer [OF s1(2) _ _ free, of 2097153]) (simp_all add: blocks_for_def)
  have p: "kzalloc 2097153 s1 = (p, s1\<lparr>kmem := mm\<rparr>)" "0 < p" using lend by (simp_all add: lends_def)
  obtain m' where m': "kfree p (s1\<lparr>kmem := mm\<rparr>) = Some (s1\<lparr>kmem := m'\<rparr>)" "?ok k (s1\<lparr>kmem := m'\<rparr>) Map.empty"
    using lend [unfolded lends_def] s1(2) by (auto dest!: spec [of _ "s1\<lparr>kmem := mm\<rparr>"] spec [of _ Map.empty])
  have "fread io p 1024 1024 0 (s1\<lparr>kmem := mm\<rparr>) = Some (- EINVARG, s1\<lparr>kmem := mm\<rparr>)" by (simp add: fread_def)
  moreover have "0 \<notin> set ?msg" by (simp add: ascii_def newline_def)
  ultimately have "demo_fread io l m = Some (m\<lparr>kern := s1\<lparr>kmem := m'\<rparr>, screen := fold print_char ?msg (screen m)\<rparr>)"
    using s1(1) p m'(1) by (simp add: demo_fread_def print_literal demo_out_def)
  then show thesis using m'(2) by (rule that)
qed

text \<open>The only number for which the code reads outside the table of descriptors is 0.\<close>

lemma file_get_descriptor_outside:
  "length (filedescriptors s) = 512 \<Longrightarrow> file_get_descriptor fd s = None \<longleftrightarrow> fd = 0"
  by (auto simp: file_get_descriptor_def Let_def)

lemma demo_fseek_undefined:
  assumes ok: "files_ok io drv img n fp (demo_names l) (11 + k) (kern m) Map.empty"
    and look: "map_of (demo_names l) (lit l long_file) = Some (drop 3 long_file)" and gone: "missing img n"
  obtains s1 s2 out where "fopen io (lit l long_file) (literal (ascii ''r'')) (kern m) = Some (0, s1)" "kzalloc 101 s1 = (out, s2)"
    "\<forall>fd. file_get_descriptor fd s2 = None \<longleftrightarrow> fd = 0" "fseek 0 10 SEEK_SET s2 = None" "demo_fseek io l m = None"
proof -
  obtain s1 where s1: "fopen io (lit l long_file) (literal (ascii ''r'')) (kern m) = Some (0, s1)"
    "files_ok io drv img n fp (demo_names l) k s1 Map.empty"
    by (rule fopen_long_missing [OF ok look gone])
  obtain out s2 where z: "kzalloc 101 s1 = (out, s2)" by fastforce
  then have "filedescriptors s2 = filedescriptors s1" by (auto simp: kzalloc_def split: prod.splits)
  then have outside: "file_get_descriptor fd s2 = None \<longleftrightarrow> fd = 0" for fd
    using files_ok_parts(6) [OF s1(2)] by (intro file_get_descriptor_outside) (simp add: fd_table_ok_def)
  then have "file_get_descriptor 0 s2 = None" by blast
  then have seek: "fseek 0 10 SEEK_SET s2 = None" by (simp add: fseek_def)
  then have "demo_fseek io l m = None" using s1(1) z by (simp add: demo_fseek_def)
  then show thesis using that [OF s1(1) z _ seek] outside by blast
qed

section \<open>The whole kernel\<close>

lemma panic_prints:
  "0 \<notin> set msg \<Longrightarrow> panic msg m =
     Some (m\<lparr>screen := fold print_char (newline @ ascii ''panic: '' @ msg @ newline) (screen m)\<rparr>)"
  by (simp add: panic_def print_literal ascii_def newline_def)

text \<open>Up to the reading demonstrations.\<close>

lemma kernel_main_reads:
  assumes "ata_laws io drv" and "idle_drive img (drv (dev (kern m)))" and "fat16_image img n"
    and "cold (kern m)" and "int n \<le> root_entries img" and "literals_placed l (kmem (kern m))"
    and "list_all (harmless img n) demo_files"
  obtains m4 p where
    "do { m \<leftarrow> boot io l m; m \<leftarrow> demo_pparser l m; m \<leftarrow> demo_disk_streamer io m; demo_fopen io l m } = Some m4"
    "kernel_main io l m = do { m \<leftarrow> demo_fread io l m4; m \<leftarrow> demo_fseek io l m; panic (ascii ''Testing panic'') m }"
    "files_ok io drv img n p (demo_names l) 23519 (kern m4) Map.empty"
    "\<And>a. 56832 \<le> a \<Longrightarrow> a < 57856 \<Longrightarrow> kmem (kern m4) a = 0"
    "map_of (demo_names l) (lit l long_file) = Some (drop 3 long_file)"
    "screen m4 = fold print_char (ascii ''Welcome!'' @ newline @ concat (map (found_line img n) demo_files)) (terminal_init (screen m))"
proof (rule demonstrations_run [OF assms])
  fix m1 m2 m3 m4 p
  assume run: "boot io l m = Some m1" "demo_pparser l m1 = Some m2" "demo_disk_streamer io m2 = Some m3"
    "demo_fopen io l m3 = Some m4" and m4: "files_ok io drv img n p (demo_names l) 23519 (kern m4) Map.empty"
    "\<And>a. 56832 \<le> a \<Longrightarrow> a < 57856 \<Longrightarrow> kmem (kern m4) a = 0"
    "screen m4 = fold print_char (ascii ''Welcome!'' @ newline @ concat (map (found_line img n) demo_files)) (terminal_init (screen m))"
  have "map_of (demo_names l) (lit l long_file) = Some (drop 3 long_file)"
    by (rule demo_names_lookup [OF assms(6)]) (simp add: demo_files_def)
  then show thesis using run m4 by (intro that [of m4 p]) (simp_all add: kernel_main_def)
qed

section \<open>The two volumes\<close>

lemma long_paths:
  "path_outcome long_image 1 (split_slash (drop 3 (demo_files ! 0))) = Some Absent"
  "path_outcome long_image 1 (split_slash (drop 3 long_file)) = Some (Found long_item)"
proof -
  let ?big = "[0x62, 0x69, 0x67, 0x68, 0x65, 0x6C, 0x6C, 0x6F, 0x2E, 0x74, 0x78, 0x74] :: byte list"
  have split: "split_slash (drop 3 (demo_files ! 0)) = [[0x61, 0x61, 0x61], [0x62, 0x62, 0x62], hello]"
    "split_slash (drop 3 long_file) = [[0x61, 0x61, 0x61], [0x62, 0x62, 0x62], ?big]"
    by (simp_all add: demo_files_def ascii_def hello_def split_slash.simps [of "_ # _"])
  have names: "named [0x61, 0x61, 0x61] (dir_item_of [0x41, 0x41, 0x41] 4)"
    "\<not> named [0x62, 0x62, 0x62] (dir_item_of [0x2E] 4)" "\<not> named [0x62, 0x62, 0x62] (dir_item_of [0x2E, 0x2E] 0)"
    "named [0x62, 0x62, 0x62] (dir_item_of [0x42, 0x42, 0x42] 5)"
    "\<not> named hello (dir_item_of [0x2E] 5)" "\<not> named hello (dir_item_of [0x2E, 0x2E] 4)" "\<not> named hello long_item"
    "\<not> named ?big (dir_item_of [0x2E] 5)" "\<not> named ?big (dir_item_of [0x2E, 0x2E] 4)" "named ?big long_item"
    by (simp_all add: named_def long_item_facts(1) dir_entry_names hello_def tolower_def)
  have sub: "subdir (dir_item_of [0x41, 0x41, 0x41] 4)" "subdir (dir_item_of [0x42, 0x42, 0x42] 5)"
    by (rule dir_entry_subdir, simp)+
  show "path_outcome long_image 1 (split_slash (drop 3 (demo_files ! 0))) = Some Absent"
    "path_outcome long_image 1 (split_slash (drop 3 long_file)) = Some (Found long_item)"
    using sub long_item_facts(2)
    by (simp_all add: path_outcome_def split long_root_listing names long_listings del: One_nat_def)
qed

lemma long_demos:
  "list_all (harmless long_image 1) demo_files" "readable long_image 1 long_item"
  "concat (map (found_line long_image 1) demo_files) = ascii ''found file:0:/aaa/bbb/bighello.txt'' @ newline"
proof -
  have list: "demo_files = [demo_files ! 0, long_file]" by (simp add: demo_files_def)
  show "list_all (harmless long_image 1) demo_files"
    by (subst list) (use long_paths long_item_facts(2) in \<open>simp add: harmless_def\<close>)
  show "readable long_image 1 long_item"
    unfolding readable_def long_paths(2) using long_item_facts(2,4) long_covers [of 1048576] long_covers [of 110] by simp
  have "concat (map (found_line long_image 1) demo_files) = ascii ''found file:'' @ long_file @ newline"
    by (subst list) (use long_paths in \<open>simp add: found_line_def\<close>)
  then show "concat (map (found_line long_image 1) demo_files) = ascii ''found file:0:/aaa/bbb/bighello.txt'' @ newline"
    by (simp add: ascii_def)
qed

lemma until_zero_replicate: "c \<noteq> 0 \<Longrightarrow> until_zero (replicate k c) = replicate k c"
  by (induction k) (simp_all add: until_zero_def)

lemma count_line_replicate:
  "c \<noteq> 0 \<Longrightarrow> count_line (replicate k c) = ascii ''Total bytes read from file: '' @ decimal k @ newline"
  by (simp add: count_line_def until_zero_replicate)

lemma decimal_numerals: "decimal (nat 1048576) = ascii ''1048576''" "decimal (nat 100) = ascii ''100''"
  by (simp_all add: decimal_def digits_rev_pos ascii_def)

lemma long_output:
  "count_line (file_slice long_image long_item 0 1048576) = ascii ''Total bytes read from file: 1048576'' @ newline"
  "count_line (file_slice long_image long_item 10 100) = ascii ''Total bytes read from file: 100'' @ newline"
  "until_zero (file_slice long_image long_item 10 100) = replicate (nat 100) 0x61"
proof -
  have a: "(0x61 :: byte) \<noteq> 0" by simp
  have "file_slice long_image long_item 0 1048576 = replicate (nat 1048576) 0x61" by (rule long_slice) simp_all
  then have "count_line (file_slice long_image long_item 0 1048576) =
      ascii ''Total bytes read from file: '' @ ascii ''1048576'' @ newline"
    by (simp only: count_line_replicate [OF a] decimal_numerals)
  then show "count_line (file_slice long_image long_item 0 1048576) = ascii ''Total bytes read from file: 1048576'' @ newline"
    by (simp add: ascii_def)
  have slice: "file_slice long_image long_item 10 100 = replicate (nat 100) 0x61" by (rule long_slice) simp_all
  then have "count_line (file_slice long_image long_item 10 100) = ascii ''Total bytes read from file: '' @ ascii ''100'' @ newline"
    by (simp only: count_line_replicate [OF a] decimal_numerals)
  then show "count_line (file_slice long_image long_item 10 100) = ascii ''Total bytes read from file: 100'' @ newline"
    by (simp add: ascii_def)
  show "until_zero (file_slice long_image long_item 10 100) = replicate (nat 100) 0x61"
    by (simp only: slice until_zero_replicate [OF a])
qed

section \<open>Properties\<close>

text \<open>C1: the whole of \<open>kernel_main\<close>.  From any memory, on a cold heap, with the string literals outside the heap and an
idle ATA drive whose FAT16 volume has the long file, of at least 1 MB, under its path (and under that of the other
file a regular file or nothing), \<open>kernel_main\<close> boots, parses its paths, reads from the disk, opens and closes the files, reads
1 MB of the long file into a buffer of 2 MB, seeks and reads 100 bytes, and reaches its panic.  The screen then shows exactly
the greeting, a line for each file found, the number of bytes before the first zero of each read, the text of the second one, and
the panic; all files are closed, and volume and heap are in order.\<close>

theorem kernel_main_prints:
  assumes "ata_laws io drv" and "idle_drive img (drv (dev (kern m)))" and "fat16_image img n"
    and "cold (kern m)" and "int n \<le> root_entries img" and "literals_placed l (kmem (kern m))"
    and "list_all (harmless img n) demo_files" and "readable img n item"
  shows "\<exists>m' p. kernel_main io l m = Some m' \<and> files_ok io drv img n p (demo_names l) 23495 (kern m') Map.empty
    \<and> screen m' = fold print_char (ascii ''Welcome!'' @ newline @ concat (map (found_line img n) demo_files)
        @ count_line (file_slice img item 0 1048576)
        @ count_line (file_slice img item 10 100) @ until_zero (file_slice img item 10 100)
        @ newline @ ascii ''panic: '' @ ascii ''Testing panic'' @ newline) (terminal_init (screen m))"
proof (rule kernel_main_reads [OF assms(1-7)])
  fix m4 p
  assume run: "kernel_main io l m = do { m \<leftarrow> demo_fread io l m4; m \<leftarrow> demo_fseek io l m; panic (ascii ''Testing panic'') m }"
    and ok: "files_ok io drv img n p (demo_names l) 23519 (kern m4) Map.empty"
    and zero: "\<And>a. 56832 \<le> a \<Longrightarrow> a < 57856 \<Longrightarrow> kmem (kern m4) a = 0"
    and look: "map_of (demo_names l) (lit l long_file) = Some (drop 3 long_file)"
    and scr: "screen m4 = fold print_char (ascii ''Welcome!'' @ newline @ concat (map (found_line img n) demo_files)) (terminal_init (screen m))"
  have ok5: "files_ok io drv img n p (demo_names l) (12 + 23507) (kern m4) Map.empty" using ok by simp
  obtain k5 where k5: "demo_fread io l m4 = Some (m4\<lparr>kern := k5,
      screen := fold print_char (count_line (file_slice img item 0 1048576)) (screen m4)\<rparr>)"
    "files_ok io drv img n p (demo_names l) 23507 k5 Map.empty"
    by (rule demo_fread_reads [OF ok5 zero look assms(8)])
  let ?m5 = "m4\<lparr>kern := k5, screen := fold print_char (count_line (file_slice img item 0 1048576)) (screen m4)\<rparr>"
  have ok6: "files_ok io drv img n p (demo_names l) (12 + 23495) (kern ?m5) Map.empty" using k5(2) by simp
  obtain k6 where k6: "demo_fseek io l ?m5 = Some (?m5\<lparr>kern := k6, screen :=
      fold print_char (count_line (file_slice img item 10 100) @ until_zero (file_slice img item 10 100)) (screen ?m5)\<rparr>)"
    "files_ok io drv img n p (demo_names l) 23495 k6 Map.empty"
    by (rule demo_fseek_reads [OF ok6 look assms(8)])
  have "0 \<notin> set (ascii ''Testing panic'')" by (simp add: ascii_def)
  then show ?thesis
    using run k5(1) k6 by (intro exI conjI) (simp add: panic_prints, simp, simp add: scr)
qed

theorem kernel_main_prints_witness:
  "\<exists>m'. kernel_main ata_ports literal_link (literal_machine long_image) = Some m'
    \<and> screen m' = fold print_char (ascii ''Welcome!'' @ newline @ (ascii ''found file:0:/aaa/bbb/bighello.txt'' @ newline)
        @ (ascii ''Total bytes read from file: 1048576'' @ newline) @ (ascii ''Total bytes read from file: 100'' @ newline)
        @ replicate (nat 100) 0x61 @ newline @ ascii ''panic: '' @ ascii ''Testing panic'' @ newline)
        (terminal_init (screen (literal_machine long_image)))"
proof -
  have "int 1 \<le> root_entries long_image" by (simp add: long_header)
  note run = kernel_main_prints [OF ata_ports_laws _ long_fat16_image literal_machine_facts(2) this literal_machine_facts(3)
      long_demos(1,2), unfolded long_demos(3) long_output]
  show ?thesis using run literal_machine_facts(1) [of long_image] by blast
qed

text \<open>C14: without the long file \<open>kernel_main\<close> stops in \<open>demo_fseek\<close>.  On a volume where the path of the long file leads
nowhere everything up to \<open>demo_fread\<close> returns; \<open>demo_fread\<close> passes descriptor 0 to \<open>fread\<close>, which refuses it, prints that it
failed, and gives its buffer back.  Then \<open>demo_fseek\<close> gets descriptor 0 from \<open>fopen\<close> as well and hands it to \<open>fseek\<close> without
a test.  0 is the one number for which the code reads outside the table of descriptors, at index \<open>-1\<close>: this call of \<open>fseek\<close> has no result,
and so neither has the run.\<close>

theorem kernel_main_missing_file:
  assumes "ata_laws io drv" and "idle_drive img (drv (dev (kern m)))" and "fat16_image img n"
    and "cold (kern m)" and "int n \<le> root_entries img" and "literals_placed l (kmem (kern m))"
    and "list_all (harmless img n) demo_files" and "missing img n"
  shows "\<exists>m4 m5 p s1 s2 out.
      do { m \<leftarrow> boot io l m; m \<leftarrow> demo_pparser l m; m \<leftarrow> demo_disk_streamer io m; demo_fopen io l m } = Some m4
    \<and> demo_fread io l m4 = Some m5
    \<and> screen m5 = fold print_char (ascii ''Welcome!'' @ newline @ concat (map (found_line img n) demo_files)
        @ ascii ''Failed to read file!'' @ newline) (terminal_init (screen m))
    \<and> files_ok io drv img n p (demo_names l) 23507 (kern m5) Map.empty
    \<and> fopen io (lit l (ascii ''0:/aaa/bbb/bighello.txt'')) (literal (ascii ''r'')) (kern m5) = Some (0, s1)
    \<and> kzalloc 101 s1 = (out, s2)
    \<and> (\<forall>fd. file_get_descriptor fd s2 = None \<longleftrightarrow> fd = 0) \<and> fseek 0 10 SEEK_SET s2 = None
    \<and> demo_fseek io l m5 = None \<and> kernel_main io l m = None"
proof (rule kernel_main_reads [OF assms(1-7)])
  fix m4 p
  assume start: "do { m \<leftarrow> boot io l m; m \<leftarrow> demo_pparser l m; m \<leftarrow> demo_disk_streamer io m; demo_fopen io l m } = Some m4"
    and run: "kernel_main io l m = do { m \<leftarrow> demo_fread io l m4; m \<leftarrow> demo_fseek io l m; panic (ascii ''Testing panic'') m }"
    and ok: "files_ok io drv img n p (demo_names l) 23519 (kern m4) Map.empty"
    and zero: "\<And>a. 56832 \<le> a \<Longrightarrow> a < 57856 \<Longrightarrow> kmem (kern m4) a = 0"
    and look: "map_of (demo_names l) (lit l long_file) = Some (drop 3 long_file)"
    and scr: "screen m4 = fold print_char (ascii ''Welcome!'' @ newline @ concat (map (found_line img n) demo_files)) (terminal_init (screen m))"
  have ok5: "files_ok io drv img n p (demo_names l) (12 + 23507) (kern m4) Map.empty" using ok by simp
  obtain k5 where k5: "demo_fread io l m4 = Some (m4\<lparr>kern := k5,
      screen := fold print_char (ascii ''Failed to read file!'' @ newline) (screen m4)\<rparr>)"
    "files_ok io drv img n p (demo_names l) 23507 k5 Map.empty"
    by (rule demo_fread_fails [OF ok5 zero look assms(8)])
  let ?m5 = "m4\<lparr>kern := k5, screen := fold print_char (ascii ''Failed to read file!'' @ newline) (screen m4)\<rparr>"
  have ok6: "files_ok io drv img n p (demo_names l) (11 + 23496) (kern ?m5) Map.empty" using k5(2) by simp
  obtain s1 s2 out where f: "fopen io (lit l long_file) (literal (ascii ''r'')) (kern ?m5) = Some (0, s1)" "kzalloc 101 s1 = (out, s2)"
    "\<forall>fd. file_get_descriptor fd s2 = None \<longleftrightarrow> fd = 0" "fseek 0 10 SEEK_SET s2 = None" "demo_fseek io l ?m5 = None"
    by (rule demo_fseek_undefined [OF ok6 look assms(8)])
  have "screen ?m5 = fold print_char (ascii ''Welcome!'' @ newline @ concat (map (found_line img n) demo_files)
        @ ascii ''Failed to read file!'' @ newline) (terminal_init (screen m))" by (simp add: scr)
  moreover have "kernel_main io l m = None" using k5(1) f(5) by (simp add: run)
  moreover have "files_ok io drv img n p (demo_names l) 23507 (kern ?m5) Map.empty" using k5(2) by simp
  ultimately show ?thesis using start k5(1) f by blast
qed

theorem kernel_main_missing_file_witness:
  "\<exists>(m5 :: ata machine) s1 s2 out.
      screen m5 = fold print_char (ascii ''Welcome!'' @ newline @ (ascii ''found file:0:/aaa/bbb/hello.txt'' @ newline)
        @ ascii ''Failed to read file!'' @ newline) (terminal_init (screen (literal_machine tree_image)))
    \<and> fopen ata_ports (lit literal_link (ascii ''0:/aaa/bbb/bighello.txt'')) (literal (ascii ''r'')) (kern m5) = Some (0, s1)
    \<and> kzalloc 101 s1 = (out, s2) \<and> fseek 0 10 SEEK_SET s2 = None
    \<and> kernel_main ata_ports literal_link (literal_machine tree_image) = None"
proof -
  have gone: "missing tree_image 2" using tree_lines(3) by (simp add: missing_def demo_files_def)
  have root: "int 2 \<le> root_entries tree_image" by (simp add: tree_root)
  show ?thesis
    using kernel_main_missing_file [OF ata_ports_laws literal_machine_facts(1) tree_fat16_image literal_machine_facts(2) root
        literal_machine_facts(3) tree_lines(1) gone, unfolded tree_lines(2)]
    by (elim exE conjE) (intro exI conjI, assumption+)
qed

end
