(* ===== verification/Spec2Isabelle.thy ===== *)
theory Spec2Isabelle
  imports Prelude Config Memory Strings Terminal Gdt Idt Heap Kheap Page_Pool Paging Kstate Objects Disk Streamer
    Pparser Fat_Clusters Fat_Directories Fat16 File Mount Lookup Opening Closing Demo Open_Files File_Table Kernel Boot
    Buffers Demonstrations Long_Volume Kernel_Main
begin

text \<open>
  A verification of the \<open>first_asm\<close> kernel (\<open>src/first_asm/src\<close>): a 32-bit x86 kernel with a text
  terminal, segment and interrupt tables, a heap of 4096-byte blocks, two-level paging, a
  programmed-I/O disk driver, byte streams over the disk, a path parser, a read-only FAT16 file system
  and a file interface.

  \<^bold>\<open>The program and its state.\<close>  \<open>kernel_main\<close> (\<open>kernel.c\<close>) initialises the parts in order: terminal,
  interrupt descriptors, segment descriptors, kernel heap, file systems, disk, task state, paging.
  After that \<open>fopen\<close>, \<open>fread\<close>, \<open>fseek\<close>, \<open>fstat\<close> and \<open>fclose\<close> (\<open>fs/file.c\<close>) are the interface.  A call of
  \<open>fopen\<close> parses the path into a linked list on the heap, asks the file system of the disk for the
  file, which compares the name with the items of the directory, and stores a new descriptor in a table;
  \<open>fread\<close> follows the descriptor to the file system, which walks the cluster chain through the file
  allocation table; every access to the disk goes through a stream that splits byte ranges into sectors.

  \<^bold>\<open>The memory.\<close>  Memory is a function from addresses (\<open>int\<close>) to bytes (\<open>8 word\<close>).  The heap's table, the page
  tables, strings and buffers are bytes of it.  The objects that the disk and file system code keeps on
  the heap (streams, path parts, descriptors, directories) are records, in one partial map per C type
  from the address that \<open>kheap_zalloc\<close> returned; \<open>kfree\<close> removes all objects of the cleared range.  All
  is collected in the record \<open>kstate\<close> (theory Kstate), which operations take and return.  An operation
  that dereferences an address without an object, divides by zero, indexes an array outside its
  bounds or uses a variable that was never assigned has the result \<open>None\<close>, as has a loop that does not end.

  \<^bold>\<open>Integers and errors.\<close>  Fields of hardware and disk formats are words of their width.  \<open>int\<close> and
  \<open>uint32_t\<close> values are mathematical integers with the wrap-around written out (\<open>s32\<close>, \<open>u32\<close>) where the code's values
  can leave the range; \<open>sdiv\<close> and \<open>smod\<close> truncate as C does.  Error codes are negative results, as in
  the code.

  \<^bold>\<open>Theories, and the code they model.\<close>
  \<^item> Prelude: shared lemmas; sequences of steps and of calls (\<open>runs\<close>, \<open>execs\<close>), and two contracts between levels: every
    step of the code is one of the abstraction (\<open>simulation\<close>), every call that the specification answers is answered
    so by the code (\<open>implementation\<close>).
  \<^item> Config: \<open>config.h\<close>.  Memory: \<open>memory/memory.c\<close>.  Strings: \<open>string/string.c\<close>.  Terminal: \<open>terminal/terminal.c\<close>.
  \<^item> Gdt: \<open>gdt/gdt.c\<close> and the table of \<open>kernel.c\<close>.  Idt: \<open>idt/idt.c\<close>.
  \<^item> Heap: \<open>memory/heap/heap.c\<close>.  Kheap: \<open>memory/heap/kheap.c\<close>, with the contract that clients use
    (\<open>block_allocator\<close>, \<open>counted_allocator\<close>).  Page_Pool: the abstract pool of pages that the heap implements.
  \<^item> Paging: \<open>memory/paging/paging.c\<close>, against the address translation of the processor.
  \<^item> Kstate: the data types of \<open>disk\<close> and \<open>fs\<close>, and the state.  Objects: the invariant \<open>heap_ok\<close> of the
    objects on the heap, with allocation, update and release of each kind.
  \<^item> Disk: \<open>disk/disk.c\<close> over a parameter for the ports, and the ATA protocol that a drive keeps
    (\<open>ata_laws\<close>), with the locale \<open>sector_device\<close> for what the driver provides.  Streamer: \<open>disk/streamer.c\<close>.
  \<^item> Pparser: \<open>fs/pparser.c\<close>.
  \<^item> Fat_Clusters, Fat_Directories, Fat16: \<open>fs/fat/fat16.c\<close> (clusters and the allocation table; items,
    names and directories; the operations of the file system).  File: \<open>fs/file.c\<close>, and
    \<open>disk_search_and_init\<close> of \<open>disk.c\<close>.
  \<^item> Kernel: \<open>kernel.c\<close> and \<open>task/tss.h\<close>: \<open>boot\<close> is \<open>kernel_main\<close> up to the paging set-up, \<open>kernel_main\<close>
    adds the demonstrations.
  \<^item> Mount, Lookup, Opening, Closing, Open_Files: no new code, but the lemmas and properties on the composition: what
    mounting makes of a disk image; the outcome of a search for a path in its directories (\<open>path_outcome\<close>) and that
    \<open>fat16_get_directory_entry\<close> has it; what \<open>fopen\<close> and \<open>fclose\<close> do.  Demo: two volumes on which the
    properties are applied, the second with the files \<open>demo_fopen\<close> opens.
  \<^item> File_Table: the file interface as a table from numbers to files and positions (\<open>table_call\<close>), and that
    the calls of \<open>file.c\<close> implement it.  Boot: the system from power-on to the bytes of files.  Buffers: buffers of
    several blocks on the heap in use, and reads into them.
  \<^item> Demonstrations, Kernel_Main: what \<open>kernel_main\<close> prints after booting, up to its panic, and where it stops
    without its file.  Long_Volume: a volume with that file, on which the property is applied.

  \<^bold>\<open>What the lemmas show.\<close>
  \<^item> The heap refines a pool of single pages, as long as it is used as the kernel uses it (requests of at
    most a page, releases of owned pages): pages are handed out lowest first, never twice, contents are kept,
    and \<open>heap_free\<close> ends.  Outside that use it fails in the ways stated as properties of kind error.
  \<^item> The page tree is the identity on 4 GB, and \<open>paging_set_value\<close> changes one page.
  \<^item> The driver leaves its busy loops on a drive that keeps the protocol; streams read slices of the
    image; a read at an offset of a file is that part of the concatenated clusters.
  \<^item> The path parser yields the names between the slashes, and freeing gives back all it took.
  \<^item> A FAT16 image is mounted with its root directory; \<open>fopen\<close> finds the file of a path through any directories
    and releases those it passes; \<open>fread\<close> yields the bytes of the image; \<open>fclose\<close> gives back four pages of the
    \<open>5 + 2 w\<close> that opening a path of \<open>w\<close> names takes.  A path that leads nowhere fails or crashes \<open>fopen\<close> as stated.
  \<^item> Any sequence of file calls, with any number of files open at once, returns what the abstract table answers; and no
    sequence of opens, closes, seeks, status calls and refused reads gets stuck.  Reads are stated for buffers that are clear of
    the objects on the heap: a buffer over an object that the read still uses would change the read, which the model,
    whose objects are not bytes of memory, does not show.
  \<^item> \<open>boot\<close> establishes all invariants at once, and the table of files after it is the empty one.
  \<^item> The whole of \<open>kernel_main\<close>, on a disk that has the file it opens, prints the text stated in Kernel_Main and nothing
    else; on a disk without that file it reports the failure of \<open>demo_fread\<close> and then stops in the \<open>fseek\<close> of \<open>demo_fseek\<close>, which
    reads before the table of descriptors.

  \<^bold>\<open>Bounds.\<close>  No fuel is used.  Loops over a counted range are functions with a measure; loops that may not end
  (busy waits, scans for a NUL, the directory count, the cluster walk, lists on the heap) are
  \<open>partial_function (option)\<close>, and that they end is part of each property on them.  Positions on
  the disk are restricted to 2 GB where the code computes them in \<open>int\<close>, and the root directory to one
  page of items, because a longer one takes several heap blocks, which \<open>memset\<close> clears but \<open>heap_free\<close> cannot release.
  For the same reason, and because the code counts the items of a directory across the end of its cluster, subdirectories
  are restricted to one cluster with its end mark and at most 128 items (\<open>dir_listing\<close>); these bounds are on the
  properties, not on the definitions.  The last 1024 of the 25600 blocks of the heap are kept in reserve for the buffers of
  several blocks: properties on code that allocates single pages count the free blocks before them (\<open>spare_pages\<close>).  The last slot of the descriptor table is left free, as its number is refused.

  \<^bold>\<open>Not modelled.\<close>  The assembly files (boot loader, register loads, port instructions, interrupt entry)
  and the build files: the port instructions are the parameter \<open>ports\<close>, link addresses the parameter
  \<open>link\<close>, loaded registers components of the state.  Calls through the function pointers of a
  \<open>filesystem_t\<close> dispatch to FAT16, the only file system.  Interrupts do not occur between the steps of a
  function: the handlers only print and acknowledge the controller.  Stack, code and static data are not in the flat memory, except for
  string literals at the addresses that the linker gives them.
\<close>

end
